(* ===== verification/Prelude.thy ===== *)
theory Prelude
  imports Main "HOL-Library.Word" "HOL-Library.Char_ord"
begin

text \<open>
  What every component of the development shares: the names of the model's basic types, the
  collections that carry the component proofs, generic facts on lists and maps, and the
  interfaces (locales) that several components implement.

  Rust's \<open>String\<close> is a sequence of Unicode scalar values. Where the code looks at the characters
  of a string or at its length in bytes, the model uses \<open>rstring\<close>, a list of code points, with the
  UTF-8 length of each written out. Where a string is only an opaque key (session ids, tokens,
  fingerprints, messages), the model uses \<open>string\<close>.
\<close>

section \<open>Names\<close>

type_synonym rchar = nat
type_synonym rstring = "rchar list"
type_synonym bytes = "8 word list"
type_synonym u8 = "8 word"
type_synonym u16 = "16 word"
type_synonym u32 = "32 word"
type_synonym u64 = "64 word"

text \<open>The code points of an ASCII literal.\<close>

definition lit :: "string \<Rightarrow> rstring" where
  "lit s = map of_char s"

lemma lit_inject: "lit s = lit t \<longleftrightarrow> s = t"
  by (simp add: lit_def inj_map_eq_map inj_def)

named_theorems op_defs \<open>definitions of the operations of the components\<close>
named_theorems inv_defs \<open>definitions of the invariants of the components\<close>
named_theorems preserved \<open>facts that an operation keeps an invariant\<close>

section \<open>Results\<close>

text \<open>A fallible Rust function returns \<open>'e + 'a\<close>: \<open>Inl\<close> is \<open>Err\<close>, \<open>Inr\<close> is \<open>Ok\<close>.\<close>

fun is_ok :: "'e + 'a \<Rightarrow> bool" where
  "is_ok (Inl _) = False"
| "is_ok (Inr _) = True"

lemma is_ok_iff: "is_ok r \<longleftrightarrow> (\<exists>x. r = Inr x)"
  by (cases r) auto

section \<open>Lists\<close>

lemma find_Some_in: "List.find P xs = Some x \<Longrightarrow> x \<in> set xs \<and> P x"
  by (induction xs) (auto split: if_splits)

lemma find_None_all: "List.find P xs = None \<longleftrightarrow> (\<forall>x \<in> set xs. \<not> P x)"
  by (induction xs) auto

lemma last_dropWhile_rev:
  "rev (dropWhile P (rev xs)) \<noteq> [] \<Longrightarrow> \<not> P (last (rev (dropWhile P (rev xs))))"
  by (metis hd_dropWhile last_rev rev.simps(1))

section \<open>Interfaces\<close>

subsection \<open>State machines with an invariant\<close>

text \<open>
  A component whose requests interleave is a start state, a step relation and the invariant its
  steps keep. The locale gives the invariant for every reachable state, once for all of them.
\<close>

locale transition_system =
  fixes start :: "'s \<Rightarrow> bool"
    and step :: "'s \<Rightarrow> 's \<Rightarrow> bool"
    and inv :: "'s \<Rightarrow> bool"
  assumes start_inv: "start s \<Longrightarrow> inv s"
    and step_inv: "inv s \<Longrightarrow> step s t \<Longrightarrow> inv t"
begin

lemma steps_inv: "rtranclp step s t \<Longrightarrow> inv s \<Longrightarrow> inv t"
  by (induction rule: rtranclp_induct) (auto intro: step_inv)

lemma reachable_inv: "start s \<Longrightarrow> rtranclp step s t \<Longrightarrow> inv t"
  by (rule steps_inv [OF _ start_inv])

end

subsection \<open>Sanitizers\<close>

text \<open>
  A sanitizer of untrusted input comes with a validity check. Its contract: what it returns is
  valid, and valid input is left untouched.
\<close>

locale sanitizer =
  fixes san :: "'a \<Rightarrow> 'a"
    and valid :: "'a \<Rightarrow> bool"
  assumes san_valid: "valid (san x)"
    and san_fixes_valid: "valid x \<Longrightarrow> san x = x"
begin

lemma san_idem: "san (san x) = san x"
  by (rule san_fixes_valid) (rule san_valid)

lemma valid_iff_fixpoint: "valid x \<longleftrightarrow> san x = x"
  using san_valid san_fixes_valid by metis

lemma range_san: "range san = {x. valid x}"
proof (intro set_eqI iffI)
  fix x assume "x \<in> {x. valid x}"
  then have "x = san x" using san_fixes_valid by simp
  then show "x \<in> range san" by (rule range_eqI)
qed (auto simp: san_valid)

end

subsection \<open>Stores keyed by an identity\<close>

text \<open>
  A store into which entries are merged under the key they carry: after an update its key is
  present, and every other key is what it was.
\<close>

locale upsert_store =
  fixes look :: "'s \<Rightarrow> 'k \<Rightarrow> 'v option"
    and ups :: "'s \<Rightarrow> 'd \<Rightarrow> 's"
    and key :: "'d \<Rightarrow> 'k"
  assumes look_ups_same: "look (ups s d) (key d) \<noteq> None"
    and look_ups_other: "k \<noteq> key d \<Longrightarrow> look (ups s d) k = look s k"
begin

lemma dom_ups: "dom (look (ups s d)) = insert (key d) (dom (look s))"
proof (rule set_eqI)
  fix k
  show "k \<in> dom (look (ups s d)) \<longleftrightarrow> k \<in> insert (key d) (dom (look s))"
    by (cases "k = key d") (simp_all add: domIff look_ups_same look_ups_other)
qed

lemma dom_ups_list: "dom (look (fold (\<lambda>d s. ups s d) ds s)) = key ` set ds \<union> dom (look s)"
  by (induction ds arbitrary: s) (auto simp: dom_ups)

lemma ups_keeps: "look s k \<noteq> None \<Longrightarrow> look (ups s d) k \<noteq> None"
  using look_ups_same look_ups_other by metis

lemma ups_list_other: "k \<notin> key ` set ds \<Longrightarrow> look (fold (\<lambda>d s. ups s d) ds s) k = look s k"
  by (induction ds arbitrary: s) (auto simp: look_ups_other)

end

end
