(* ===== verification/Filename.thy ===== *)
theory Filename
  imports Prelude
begin

text \<open>
  File name sanitization (\<open>packages/core/src/util/filename.rs\<close>): the naming rules of the target
  file systems, \<open>sanitize\<close>, \<open>is_valid\<close> and \<open>sanitize_path\<close>, on strings as lists of code points
  whose UTF-8 lengths count towards the 255 byte limit.
\<close>

section \<open>Characters and bytes\<close>

text \<open>\<open>char::is_control\<close>: the general category Cc.\<close>

definition is_control :: "rchar \<Rightarrow> bool" where
  "is_control c \<longleftrightarrow> c < 32 \<or> (127 \<le> c \<and> c < 160)"

definition len_utf8 :: "rchar \<Rightarrow> nat" where
  "len_utf8 c = (if c < 128 then 1 else if c < 2048 then 2 else if c < 65536 then 3 else 4)"

definition byte_len :: "rstring \<Rightarrow> nat" where
  "byte_len s = sum_list (map len_utf8 s)"

text \<open>\<open>str::is_char_boundary\<close>: whether the byte index falls between two characters.\<close>

fun is_char_boundary :: "rstring \<Rightarrow> nat \<Rightarrow> bool" where
  "is_char_boundary [] i = (i = 0)"
| "is_char_boundary (c # cs) i =
     (i = 0 \<or> (len_utf8 c \<le> i \<and> is_char_boundary cs (i - len_utf8 c)))"

text \<open>\<open>String::truncate\<close> at a byte index that is a character boundary.\<close>

fun truncate_at :: "rstring \<Rightarrow> nat \<Rightarrow> rstring" where
  "truncate_at [] n = []"
| "truncate_at (c # cs) n = (if n = 0 then [] else c # truncate_at cs (n - len_utf8 c))"

section \<open>Rules\<close>

datatype rules = Windows | Hfs | Fat | Posix | Universal

definition ILLEGAL_WINDOWS_CHARS :: "rchar list" where
  "ILLEGAL_WINDOWS_CHARS = lit ''<>:'' @ [34] @ lit ''/'' @ [92] @ lit ''|?*''"

definition ILLEGAL_HFS_CHARS :: "rchar list" where
  "ILLEGAL_HFS_CHARS = lit ''/:''"

definition ILLEGAL_POSIX_CHARS :: "rchar list" where
  "ILLEGAL_POSIX_CHARS = lit ''/''"

definition RESERVED_WINDOWS_NAMES :: "rstring list" where
  "RESERVED_WINDOWS_NAMES = map lit
     [''con'', ''prn'', ''aux'', ''nul'', ''com1'', ''com2'', ''com3'', ''com4'', ''com5'', ''com6'',
      ''com7'', ''com8'', ''com9'', ''lpt1'', ''lpt2'', ''lpt3'', ''lpt4'', ''lpt5'', ''lpt6'',
      ''lpt7'', ''lpt8'', ''lpt9'']"

definition MAX_LEN :: nat where
  "MAX_LEN = 255"

fun illegal_chars :: "rules \<Rightarrow> rchar list" where
  "illegal_chars Windows = ILLEGAL_WINDOWS_CHARS"
| "illegal_chars Fat = ILLEGAL_WINDOWS_CHARS"
| "illegal_chars Hfs = ILLEGAL_HFS_CHARS"
| "illegal_chars Posix = ILLEGAL_POSIX_CHARS"
| "illegal_chars Universal = []"

definition is_illegal_char :: "rules \<Rightarrow> rchar \<Rightarrow> bool" where
  "is_illegal_char r c =
     (if is_control c then True
      else case r of
             Universal \<Rightarrow> c \<in> set ILLEGAL_WINDOWS_CHARS \<or> c \<in> set ILLEGAL_HFS_CHARS
           | _ \<Rightarrow> c \<in> set (illegal_chars r))"

definition is_windows_like :: "rules \<Rightarrow> bool" where
  "is_windows_like r \<longleftrightarrow> r = Windows \<or> r = Universal"

record options =
  replacement :: rstring
  placeholder :: rstring

definition default_options :: options where
  "default_options = \<lparr>replacement = lit ''_'', placeholder = lit ''untitled''\<rparr>"

section \<open>Sanitizing\<close>

text \<open>\<open>trim_end_matches(['.', ' '])\<close>\<close>

definition is_trailing :: "rchar \<Rightarrow> bool" where
  "is_trailing c \<longleftrightarrow> c = 46 \<or> c = 32"

definition trim_trailing :: "rstring \<Rightarrow> rstring" where
  "trim_trailing s = rev (dropWhile is_trailing (rev s))"

definition collapse_trailing_run :: "rstring \<Rightarrow> rstring \<Rightarrow> rstring" where
  "collapse_trailing_run s repl =
     (let trimmed_len = byte_len (trim_trailing s)
      in if trimmed_len \<noteq> byte_len s then truncate_at s trimmed_len @ repl else s)"

definition to_ascii_lowercase :: "rchar \<Rightarrow> rchar" where
  "to_ascii_lowercase c = (if 65 \<le> c \<and> c \<le> 90 then c + 32 else c)"

definition eq_ignore_ascii_case :: "rstring \<Rightarrow> rstring \<Rightarrow> bool" where
  "eq_ignore_ascii_case s t \<longleftrightarrow> map to_ascii_lowercase s = map to_ascii_lowercase t"

text \<open>The part before the first \<open>.\<close>: \<open>name.split('.').next()\<close>, which always yields a piece.\<close>

definition stem_of :: "rstring \<Rightarrow> rstring" where
  "stem_of name = takeWhile (\<lambda>c. c \<noteq> 46) name"

definition reserved_prefix :: "rstring \<Rightarrow> rstring option" where
  "reserved_prefix name =
     List.find (\<lambda>reserved. eq_ignore_ascii_case (stem_of name) reserved) RESERVED_WINDOWS_NAMES"

definition is_relative :: "rstring \<Rightarrow> bool" where
  "is_relative name \<longleftrightarrow> name = lit ''.'' \<or> name = lit ''..''"

text \<open>The loop that moves the cut back to a character boundary; index 0 always is one.\<close>

fun find_boundary :: "rstring \<Rightarrow> nat \<Rightarrow> nat" where
  "find_boundary s 0 = 0"
| "find_boundary s (Suc n) = (if is_char_boundary s (Suc n) then Suc n else find_boundary s n)"

definition truncate_bytes :: "rstring \<Rightarrow> nat \<Rightarrow> rstring" where
  "truncate_bytes s mx = (if byte_len s \<le> mx then s else truncate_at s (find_boundary s mx))"

definition replace_illegal :: "rules \<Rightarrow> rstring \<Rightarrow> rstring \<Rightarrow> rstring" where
  "replace_illegal r repl name =
     concat (map (\<lambda>c. if is_illegal_char r c then repl else [c]) name)"

definition fix_windows :: "options \<Rightarrow> rstring \<Rightarrow> rstring" where
  "fix_windows opts s =
     (let s1 = collapse_trailing_run s (replacement opts)
      in case reserved_prefix s1 of
           Some reserved \<Rightarrow> replacement opts @ drop (length reserved) s1
         | None \<Rightarrow> s1)"

definition sanitize_with :: "rstring \<Rightarrow> rules \<Rightarrow> options \<Rightarrow> rstring" where
  "sanitize_with name r opts =
     (let s0 = replace_illegal r (replacement opts) name;
          s1 = (if is_windows_like r then fix_windows opts s0 else s0);
          s2 = truncate_bytes s1 MAX_LEN;
          s3 = (if is_windows_like r
                then truncate_bytes (collapse_trailing_run s2 (replacement opts)) MAX_LEN
                else s2)
      in if s3 = [] \<or> is_relative s3 then truncate_bytes (placeholder opts) MAX_LEN else s3)"

definition sanitize :: "rstring \<Rightarrow> rules \<Rightarrow> rstring" where
  "sanitize name r = sanitize_with name r default_options"

definition ends_with_char :: "rstring \<Rightarrow> rchar \<Rightarrow> bool" where
  "ends_with_char s c \<longleftrightarrow> s \<noteq> [] \<and> last s = c"

definition is_valid :: "rstring \<Rightarrow> rules \<Rightarrow> bool" where
  "is_valid name r =
     (if name = [] \<or> byte_len name > MAX_LEN \<or> is_relative name then False
      else if \<exists>c \<in> set name. is_illegal_char r c then False
      else if is_windows_like r \<and>
              (ends_with_char name 46 \<or> ends_with_char name 32 \<or> reserved_prefix name \<noteq> None)
      then False
      else True)"

text \<open>\<open>path.rsplit(['/', '\\'])\<close>: the segments between separators, the last one first.\<close>

definition is_separator :: "rchar \<Rightarrow> bool" where
  "is_separator c \<longleftrightarrow> c = 47 \<or> c = 92"

fun split_segments :: "rstring \<Rightarrow> rstring list" where
  "split_segments [] = [[]]"
| "split_segments (c # cs) =
     (if is_separator c then [] # split_segments cs
      else case split_segments cs of
             [] \<Rightarrow> [[c]]
           | seg # segs \<Rightarrow> (c # seg) # segs)"

definition last_segment :: "rstring \<Rightarrow> rstring" where
  "last_segment path =
     (case List.find (\<lambda>seg. seg \<noteq> [] \<and> \<not> is_relative seg) (rev (split_segments path)) of
        Some seg \<Rightarrow> seg
      | None \<Rightarrow> [])"

definition sanitize_path :: "rstring \<Rightarrow> rules \<Rightarrow> rstring" where
  "sanitize_path path r = sanitize (last_segment path) r"

section \<open>Bytes and character boundaries\<close>

lemma len_utf8_pos [simp]: "0 < len_utf8 c"
  by (simp add: len_utf8_def)

lemma len_utf8_le: "len_utf8 c \<le> 4"
  by (simp add: len_utf8_def)

lemma byte_len_simps [simp]:
  "byte_len [] = 0"
  "byte_len (c # cs) = len_utf8 c + byte_len cs"
  "byte_len (s @ t) = byte_len s + byte_len t"
  by (simp_all add: byte_len_def)

lemma length_le_byte_len: "length s \<le> byte_len s"
proof (induction s)
  case (Cons c cs)
  have "1 \<le> len_utf8 c" by (simp add: len_utf8_def)
  with Cons show ?case by simp
qed simp

lemma byte_len_le_length: "byte_len s \<le> 4 * length s"
proof (induction s)
  case (Cons c cs)
  then show ?case using len_utf8_le [of c] by simp
qed simp

lemma truncate_at_prefix_len [simp]: "truncate_at (p @ q) (byte_len p) = p"
  by (induction p) (cases q; simp)+

lemma truncate_at_append: "\<exists>q. s = truncate_at s n @ q"
  by (induction s n rule: truncate_at.induct) auto

lemma boundary_prefix:
  "is_char_boundary s n \<Longrightarrow> \<exists>p q. s = p @ q \<and> byte_len p = n"
proof (induction s n rule: is_char_boundary.induct)
  case (2 c cs i)
  show ?case
  proof (cases "i = 0")
    case False
    with 2 obtain p q where "cs = p @ q" "byte_len p = i - len_utf8 c" "len_utf8 c \<le> i" by auto
    then have "c # cs = (c # p) @ q \<and> byte_len (c # p) = i" by simp
    then show ?thesis by blast
  qed (metis append_Nil byte_len_simps(1))
qed simp

lemma find_boundary_props:
  "is_char_boundary s (find_boundary s n) \<and> find_boundary s n \<le> n"
proof (induction n)
  case 0
  show ?case by (cases s) auto
qed auto

lemma find_boundary_greatest: "is_char_boundary s b \<Longrightarrow> b \<le> n \<Longrightarrow> b \<le> find_boundary s n"
  by (induction n) (auto simp: le_Suc_eq)

lemma boundary_near: "n \<le> byte_len s \<Longrightarrow> \<exists>b \<le> n. n \<le> b + 3 \<and> is_char_boundary s b"
proof (induction s arbitrary: n)
  case (Cons c cs)
  show ?case
  proof (cases "n < len_utf8 c")
    case True
    then show ?thesis using len_utf8_le [of c] by (intro exI [of _ 0]) simp
  next
    case False
    then have "n - len_utf8 c \<le> byte_len cs" using Cons.prems by simp
    from Cons.IH [OF this] obtain b where
      "b \<le> n - len_utf8 c" "n - len_utf8 c \<le> b + 3" "is_char_boundary cs b" by blast
    with False show ?thesis by (intro exI [of _ "b + len_utf8 c"]) auto
  qed
qed simp

text \<open>
  What \<open>truncate_bytes\<close> does: nothing to a string that fits, and otherwise it keeps a prefix of at
  most \<open>mx\<close> bytes that is short of the limit by less than a character.
\<close>

lemma truncate_bytes_id [simp]: "byte_len s \<le> mx \<Longrightarrow> truncate_bytes s mx = s"
  by (simp add: truncate_bytes_def)

lemma truncate_bytes_cut:
  assumes "mx < byte_len s"
  obtains q where "s = truncate_bytes s mx @ q" "byte_len (truncate_bytes s mx) \<le> mx"
    "mx \<le> byte_len (truncate_bytes s mx) + 3"
proof -
  let ?b = "find_boundary s mx"
  have b: "is_char_boundary s ?b" "?b \<le> mx" using find_boundary_props by blast+
  from boundary_prefix [OF b(1)] obtain p q where pq: "s = p @ q" "byte_len p = ?b" by blast
  obtain b' where "b' \<le> mx" "mx \<le> b' + 3" "is_char_boundary s b'"
    using boundary_near [of mx s] assms by auto
  then have "mx \<le> ?b + 3" using find_boundary_greatest [of s b' mx] by linarith
  moreover have "truncate_bytes s mx = p"
    using assms pq by (metis linorder_not_le truncate_at_prefix_len truncate_bytes_def)
  ultimately show thesis using that pq b(2) by simp
qed

lemma truncate_bytes_le: "byte_len (truncate_bytes s mx) \<le> mx"
  by (metis linorder_not_le truncate_bytes_cut truncate_bytes_id)

lemma truncate_bytes_append: "\<exists>q. s = truncate_bytes s mx @ q"
  by (cases "byte_len s \<le> mx") (auto intro: truncate_at_append simp: truncate_bytes_def)

section \<open>Trailing runs\<close>

lemma trim_trailing_append: "\<exists>q. s = trim_trailing s @ q \<and> (\<forall>c \<in> set q. is_trailing c)"
proof -
  have "rev s = takeWhile is_trailing (rev s) @ dropWhile is_trailing (rev s)" by simp
  then have "s = trim_trailing s @ rev (takeWhile is_trailing (rev s))"
    unfolding trim_trailing_def by (metis rev_append rev_rev_ident)
  then show ?thesis by (metis set_rev set_takeWhileD)
qed

lemma trim_trailing_last: "trim_trailing s \<noteq> [] \<Longrightarrow> \<not> is_trailing (last (trim_trailing s))"
  unfolding trim_trailing_def by (rule last_dropWhile_rev)

lemma trim_trailing_id: "s = [] \<or> \<not> is_trailing (last s) \<Longrightarrow> trim_trailing s = s"
  unfolding trim_trailing_def by (cases s rule: rev_cases) auto

lemma byte_len_eq_prefix: "byte_len (p @ q) = byte_len p \<longleftrightarrow> q = []"
  using length_le_byte_len [of q] by auto

text \<open>The two outcomes of \<open>collapse_trailing_run\<close>.\<close>

lemma collapse_cases:
  obtains (clean) "collapse_trailing_run s repl = s" "trim_trailing s = s"
  | (run) q where "collapse_trailing_run s repl = trim_trailing s @ repl"
      "s = trim_trailing s @ q" "q \<noteq> []"
proof -
  obtain q where q: "s = trim_trailing s @ q" using trim_trailing_append by blast
  show thesis
  proof (cases "q = []")
    case True
    with q have "trim_trailing s = s" by simp
    then show ?thesis by (intro clean) (simp_all add: collapse_trailing_run_def)
  next
    case False
    then have "byte_len (trim_trailing s) \<noteq> byte_len s" using q byte_len_eq_prefix by metis
    moreover have "truncate_at s (byte_len (trim_trailing s)) = trim_trailing s"
      using q truncate_at_prefix_len by metis
    ultimately show ?thesis using q False by (intro run) (simp_all add: collapse_trailing_run_def)
  qed
qed

lemma set_collapse: "set (collapse_trailing_run s repl) \<subseteq> set s \<union> set repl"
proof (cases rule: collapse_cases [of s repl])
  case (run q)
  then have "set (trim_trailing s) \<subseteq> set s" by (metis Un_upper1 set_append)
  with run(1) show ?thesis by auto
qed simp

lemma set_truncate: "set (truncate_bytes s mx) \<subseteq> set s"
  using truncate_bytes_append [of s mx] by (metis Un_upper1 set_append)

section \<open>Reserved names\<close>

definition reserved :: "rstring \<Rightarrow> bool" where
  "reserved s \<longleftrightarrow> reserved_prefix s \<noteq> None"

lemma reserved_iff:
  "reserved s \<longleftrightarrow> (\<exists>w \<in> set RESERVED_WINDOWS_NAMES. eq_ignore_ascii_case (stem_of s) w)"
  unfolding reserved_def reserved_prefix_def by (auto simp: find_None_all)

lemma reserved_words:
  "w \<in> set RESERVED_WINDOWS_NAMES \<Longrightarrow> w \<noteq> [] \<and> length w \<le> 4 \<and> 95 \<notin> set w"
  by (auto simp: RESERVED_WINDOWS_NAMES_def lit_def)

lemma eq_case_length: "eq_ignore_ascii_case s t \<Longrightarrow> length s = length t"
  unfolding eq_ignore_ascii_case_def by (metis length_map)

lemma eq_case_underscore: "eq_ignore_ascii_case s t \<Longrightarrow> 95 \<in> set s \<Longrightarrow> 95 \<in> set t"
proof -
  assume "eq_ignore_ascii_case s t" "95 \<in> set s"
  then have "to_ascii_lowercase 95 \<in> to_ascii_lowercase ` set t"
    unfolding eq_ignore_ascii_case_def by (metis imageI list.set_map)
  then show ?thesis by (auto simp: to_ascii_lowercase_def split: if_splits)
qed

lemma reserved_stem: "reserved s \<Longrightarrow> length (stem_of s) \<le> 4 \<and> 95 \<notin> set (stem_of s)"
  unfolding reserved_iff using reserved_words eq_case_length eq_case_underscore by metis

lemma stem_append: "46 \<in> set p \<Longrightarrow> stem_of (p @ q) = stem_of p"
  unfolding stem_of_def by (induction p) auto

lemma stem_no_dot: "46 \<notin> set p \<Longrightarrow> stem_of p = p"
  unfolding stem_of_def by (auto simp: takeWhile_eq_all_conv)

lemma reserved_long_prefix:
  assumes "\<not> reserved (p @ q)" and "4 < length p"
  shows "\<not> reserved p"
proof (cases "46 \<in> set p")
  case True
  then show ?thesis using assms(1) by (simp add: reserved_iff stem_append)
next
  case False
  then show ?thesis using reserved_stem [of p] assms(2) by (auto simp: stem_no_dot)
qed

lemma reserved_underscore_end:
  assumes "\<not> reserved (p @ q)"
  shows "\<not> reserved (p @ [95])"
proof (cases "46 \<in> set p")
  case True
  then show ?thesis using assms(1) by (simp add: reserved_iff stem_append)
next
  case False
  then have "stem_of (p @ [95]) = p @ [95]" by (intro stem_no_dot) simp
  then show ?thesis using reserved_stem [of "p @ [95]"] by auto
qed

lemma reserved_underscore_start: "\<not> reserved (95 # s)"
  using reserved_stem [of "95 # s"] by (auto simp: stem_of_def)

section \<open>The sanitizer\<close>

text \<open>
  \<open>legal r s\<close>: the characters of \<open>s\<close> are legal under \<open>r\<close> and, on a Windows-like target, \<open>s\<close> names
  no device. Every stage of \<open>sanitize\<close> after the first keeps it.
\<close>

definition legal_chars :: "rules \<Rightarrow> rstring \<Rightarrow> bool" where
  "legal_chars r s \<longleftrightarrow> (\<forall>c \<in> set s. \<not> is_illegal_char r c)"

lemmas illegal_defs = is_illegal_char_def is_control_def ILLEGAL_WINDOWS_CHARS_def
  ILLEGAL_HFS_CHARS_def ILLEGAL_POSIX_CHARS_def lit_def

lemma underscore_legal [simp]: "\<not> is_illegal_char r 95"
  by (cases r) (simp_all add: illegal_defs)

lemma replacement_default [simp]: "replacement default_options = [95]"
  by (simp add: default_options_def lit_def)

lemma replace_illegal_Cons:
  "replace_illegal r repl (c # s) =
     (if is_illegal_char r c then repl else [c]) @ replace_illegal r repl s"
  by (simp add: replace_illegal_def)

lemma legal_replace: "legal_chars r (replace_illegal r [95] s)"
proof (induction s)
  case Nil
  show ?case by (simp add: legal_chars_def replace_illegal_def)
next
  case (Cons c s)
  then show ?case
    by (cases "is_illegal_char r c") (simp_all add: legal_chars_def replace_illegal_Cons)
qed

lemma replace_id: "legal_chars r s \<Longrightarrow> replace_illegal r repl s = s"
  by (induction s) (simp_all add: legal_chars_def replace_illegal_def)

lemma legal_subset: "legal_chars r s \<Longrightarrow> set t \<subseteq> set s \<union> {95} \<Longrightarrow> legal_chars r t"
  by (auto simp: legal_chars_def)

lemma legal_collapse: "legal_chars r s \<Longrightarrow> legal_chars r (collapse_trailing_run s [95])"
  using set_collapse [of s "[95]"] by (auto elim: legal_subset)

lemma legal_truncate: "legal_chars r s \<Longrightarrow> legal_chars r (truncate_bytes s mx)"
  using set_truncate [of s mx] by (auto elim: legal_subset)

lemma collapse_last:
  "collapse_trailing_run s [95] = [] \<or> \<not> is_trailing (last (collapse_trailing_run s [95]))"
proof (cases rule: collapse_cases [of s "[95]"])
  case clean
  then show ?thesis using trim_trailing_last [of s] by auto
next
  case (run q)
  then show ?thesis by (simp add: is_trailing_def)
qed

lemma fix_windows_default:
  "legal_chars r s \<Longrightarrow> legal_chars r (fix_windows default_options s)"
  "\<not> reserved (fix_windows default_options s)"
proof -
  let ?s1 = "collapse_trailing_run s [95]"
  show "legal_chars r s \<Longrightarrow> legal_chars r (fix_windows default_options s)"
    using legal_collapse [of r s] set_drop_subset
    by (fastforce simp: fix_windows_def Let_def legal_chars_def split: option.splits)
  show "\<not> reserved (fix_windows default_options s)"
    using reserved_underscore_start
    by (auto simp: fix_windows_def Let_def reserved_def split: option.splits)
qed

lemma collapse_not_reserved: "\<not> reserved s \<Longrightarrow> \<not> reserved (collapse_trailing_run s [95])"
  using reserved_underscore_end by (cases rule: collapse_cases [of s "[95]"]) metis+

lemma collapse_byte_len: "byte_len (collapse_trailing_run s [95]) \<le> byte_len s"
proof (cases rule: collapse_cases [of s "[95]"])
  case (run q)
  then have "byte_len s = byte_len (trim_trailing s) + byte_len q" by (metis byte_len_simps(3))
  moreover have "1 \<le> byte_len q"
    using run(3) length_le_byte_len [of q] by (cases q) auto
  ultimately show ?thesis using run(1) by (simp add: len_utf8_def)
qed simp

lemma truncate_not_reserved:
  assumes "\<not> reserved s"
  shows "\<not> reserved (truncate_bytes s MAX_LEN)"
proof (cases "byte_len s \<le> MAX_LEN")
  case False
  then obtain q where q: "s = truncate_bytes s MAX_LEN @ q"
    "MAX_LEN \<le> byte_len (truncate_bytes s MAX_LEN) + 3"
    by (metis linorder_not_le truncate_bytes_cut)
  then have "4 < length (truncate_bytes s MAX_LEN)"
    using byte_len_le_length [of "truncate_bytes s MAX_LEN"] by (simp add: MAX_LEN_def)
  then show ?thesis using assms q(1) reserved_long_prefix by metis
qed (simp add: assms)

text \<open>The name before the placeholder is considered: legal on every account but emptiness.\<close>

definition acceptable :: "rules \<Rightarrow> rstring \<Rightarrow> bool" where
  "acceptable r s \<longleftrightarrow> byte_len s \<le> MAX_LEN \<and> legal_chars r s \<and>
     (is_windows_like r \<longrightarrow> \<not> reserved s \<and> (s = [] \<or> \<not> is_trailing (last s)))"

lemma is_valid_iff: "is_valid s r \<longleftrightarrow> acceptable r s \<and> s \<noteq> [] \<and> \<not> is_relative s"
  by (auto simp: is_valid_def acceptable_def legal_chars_def reserved_def ends_with_char_def
      is_trailing_def)

lemma placeholder_valid: "is_valid (lit ''untitled'') r"
  by (cases r) (simp_all add: is_valid_def illegal_defs byte_len_def len_utf8_def MAX_LEN_def
      is_relative_def is_windows_like_def ends_with_char_def reserved_prefix_def stem_of_def
      RESERVED_WINDOWS_NAMES_def eq_ignore_ascii_case_def to_ascii_lowercase_def)

text \<open>\<open>sanitize\<close> up to its last step.\<close>

definition before_placeholder :: "rstring \<Rightarrow> rules \<Rightarrow> rstring" where
  "before_placeholder name r =
     (let s0 = replace_illegal r [95] name;
          s1 = (if is_windows_like r then fix_windows default_options s0 else s0);
          s2 = truncate_bytes s1 MAX_LEN
      in if is_windows_like r then truncate_bytes (collapse_trailing_run s2 [95]) MAX_LEN else s2)"

lemma sanitize_before_placeholder:
  "sanitize name r =
     (let s = before_placeholder name r
      in if s = [] \<or> is_relative s then truncate_bytes (lit ''untitled'') MAX_LEN else s)"
  by (simp add: sanitize_def sanitize_with_def before_placeholder_def Let_def default_options_def
      lit_def)

lemma before_placeholder_acceptable: "acceptable r (before_placeholder name r)"
proof -
  let ?s0 = "replace_illegal r [95] name"
  let ?w = "truncate_bytes (fix_windows default_options ?s0) MAX_LEN"
  have len: "byte_len (collapse_trailing_run ?w [95]) \<le> MAX_LEN"
    using collapse_byte_len truncate_bytes_le le_trans by blast
  have "\<not> reserved (collapse_trailing_run ?w [95])"
    by (intro collapse_not_reserved truncate_not_reserved fix_windows_default)
  moreover have "legal_chars r (collapse_trailing_run ?w [95])"
    by (intro legal_collapse legal_truncate fix_windows_default legal_replace)
  moreover have "legal_chars r (truncate_bytes ?s0 MAX_LEN)"
    by (intro legal_truncate legal_replace)
  ultimately show ?thesis
    using len collapse_last [of ?w] truncate_bytes_le
    by (auto simp: acceptable_def before_placeholder_def Let_def)
qed

lemma sanitize_valid: "is_valid (sanitize name r) r"
proof -
  have "byte_len (lit ''untitled'') \<le> MAX_LEN"
    using placeholder_valid [of r] by (simp add: is_valid_iff acceptable_def)
  then show ?thesis
    using before_placeholder_acceptable [of r name] placeholder_valid [of r]
    by (simp add: sanitize_before_placeholder Let_def is_valid_iff)
qed

lemma collapse_id: "s = [] \<or> \<not> is_trailing (last s) \<Longrightarrow> collapse_trailing_run s repl = s"
  by (simp add: collapse_trailing_run_def trim_trailing_id)

lemma sanitize_fixes_valid: "is_valid s r \<Longrightarrow> sanitize s r = s"
  by (auto simp: is_valid_iff acceptable_def sanitize_before_placeholder before_placeholder_def
      replace_id collapse_id fix_windows_def reserved_def Let_def)

interpretation file_names: sanitizer "\<lambda>x. sanitize x r" "\<lambda>x. is_valid x r" for r
  by unfold_locales (auto intro: sanitize_valid sanitize_fixes_valid)

lemma set_sanitize: "set (sanitize s r) \<subseteq> set s \<union> {95} \<union> set (lit ''untitled'')"
proof -
  have illegal: "set (replace_illegal r [95] s) \<subseteq> set s \<union> {95}"
    by (auto simp: replace_illegal_def split: if_splits)
  have "set (fix_windows default_options t) \<subseteq> set t \<union> {95}" for t
    using set_collapse [of t "[95]"] set_drop_subset
    by (fastforce simp: fix_windows_def Let_def split: option.splits)
  then have "set (before_placeholder s r) \<subseteq> set s \<union> {95}"
    using illegal set_collapse [of _ "[95]"] set_truncate
    by (simp add: before_placeholder_def Let_def) (blast dest: subsetD)
  then show ?thesis
    using set_truncate [of "lit ''untitled''" MAX_LEN]
    by (auto simp: sanitize_before_placeholder Let_def)
qed

section \<open>Path segments\<close>

definition no_separator :: "rstring \<Rightarrow> bool" where
  "no_separator s \<longleftrightarrow> (\<forall>c \<in> set s. \<not> is_separator c)"

lemma split_segments_not_Nil [simp]: "split_segments s \<noteq> []"
  by (cases s) (auto split: list.split)

lemma split_segments_no_separator: "\<forall>seg \<in> set (split_segments s). no_separator seg"
  by (induction s) (auto simp: no_separator_def split: list.splits)

lemma split_segments_single: "no_separator s \<Longrightarrow> split_segments s = [s]"
  by (induction s) (auto simp: no_separator_def)

lemma split_segments_append:
  "is_separator c \<Longrightarrow> split_segments (s @ c # t) = split_segments s @ split_segments t"
  by (induction s) (auto split: list.splits)

lemma last_segment_no_separator: "no_separator (last_segment s)"
proof (cases "List.find (\<lambda>seg. seg \<noteq> [] \<and> \<not> is_relative seg) (rev (split_segments s))")
  case (Some seg)
  then show ?thesis
    using find_Some_in [OF Some] split_segments_no_separator
    by (auto simp: last_segment_def)
qed (simp add: last_segment_def no_separator_def)

lemma sanitize_path_clean:
  "47 \<notin> set (sanitize_path path r) \<and> 92 \<notin> set (sanitize_path path r) \<and> 0 \<notin> set (sanitize_path path r)"
proof -
  have "is_valid (sanitize_path path r) r"
    by (simp add: sanitize_path_def sanitize_valid)
  then have "0 \<notin> set (sanitize_path path r)"
    by (auto simp: is_valid_iff acceptable_def legal_chars_def is_illegal_char_def is_control_def)
  moreover have "47 \<notin> set (sanitize_path path r)" "92 \<notin> set (sanitize_path path r)"
    using set_sanitize [of "last_segment path" r] last_segment_no_separator [of path]
    by (auto simp: sanitize_path_def no_separator_def is_separator_def lit_def)
  ultimately show ?thesis by blast
qed

section \<open>Properties\<close>

text \<open>
  C6. Whatever the peer sends, \<open>sanitize\<close> returns a name that \<open>is_valid\<close> accepts under the same
  rules (legal characters, at most 255 bytes, no reserved device name, no trailing dot or space, not
  empty or relative), and the names \<open>is_valid\<close> accepts are exactly those \<open>sanitize\<close> leaves untouched.
\<close>

theorem sanitize_valid_and_exact:
  "is_valid (sanitize name r) r \<and> (is_valid name r \<longleftrightarrow> sanitize name r = name)"
  using file_names.san_valid file_names.valid_iff_fixpoint by blast

text \<open>
  C13. \<open>sanitize_path\<close> cannot escape the directory it is joined to: its result is one valid name
  without a slash, a backslash or a NUL, whatever path a peer sends.
\<close>

theorem sanitize_path_confined:
  "is_valid (sanitize_path path r) r \<and>
   47 \<notin> set (sanitize_path path r) \<and> 92 \<notin> set (sanitize_path path r) \<and>
   0 \<notin> set (sanitize_path path r)"
  using sanitize_path_clean [of path r] sanitize_valid [of "last_segment path" r]
  by (simp add: sanitize_path_def)

text \<open>
  Only the last segment of a path counts, and a legal one is kept as it is: with any directory
  part before it (\<open>../../\<close> included), the saved file has the name the sender gave it.
\<close>

theorem sanitize_path_keeps_last_segment:
  assumes "is_separator sep" and "no_separator seg" and "is_valid seg r"
  shows "sanitize_path (dir @ sep # seg) r = seg"
proof -
  have "seg \<noteq> []" "\<not> is_relative seg" using assms(3) by (simp_all add: is_valid_iff)
  then have "last_segment (dir @ sep # seg) = seg"
    using assms by (simp add: last_segment_def split_segments_append split_segments_single)
  then show ?thesis using assms(3) by (simp add: sanitize_path_def sanitize_fixes_valid)
qed

theorem sanitize_path_keeps_last_segment_witness:
  "sanitize_path (lit ''../../etc'' @ 47 # lit ''passwd'') Universal = lit ''passwd''"
proof (rule sanitize_path_keeps_last_segment)
  show "is_separator 47" by (simp add: is_separator_def)
  show "no_separator (lit ''passwd'')" by (simp add: no_separator_def is_separator_def lit_def)
  show "is_valid (lit ''passwd'') Universal" by code_simp
qed

end
