(* ===== verification/Http_Common.thy ===== *)
theory Http_Common
  imports Filename
begin

text \<open>
  What the HTTP endpoints share: peer addresses (\<open>http/server/peer_ip.rs\<close>), errors and their
  responses (\<open>common/error.rs\<close>, \<open>common/response.rs\<close>), query maps (\<open>common/query.rs\<close>), the wire
  values and DTOs (\<open>model/discovery.rs\<close>, \<open>model/transfer.rs\<close>, \<open>http/dto.rs\<close>, \<open>http/dto_v2.rs\<close>)
  and certificate fingerprints (\<open>crypto/cert.rs\<close>, \<open>crypto/hash.rs\<close>). SHA-256 and the URL decoder
  are crates: the definitions take them as arguments.
\<close>

section \<open>Addresses\<close>

datatype ip_addr = V4 u32 | V6 "128 word"

datatype socket_addr =
    Socket_V4 u32 u16
  | Socket_V6 "128 word" u16 u32 u32   \<comment> \<open>address, port, flow info, scope id\<close>

fun socket_ip :: "socket_addr \<Rightarrow> ip_addr" where
  "socket_ip (Socket_V4 a p) = V4 a"
| "socket_ip (Socket_V6 a p f s) = V6 a"

record peer_ip =
  ip :: ip_addr
  scope_id :: "u32 option"

fun from_remote_addr :: "socket_addr \<Rightarrow> peer_ip" where
  "from_remote_addr (Socket_V4 a p) = \<lparr>ip = V4 a, scope_id = None\<rparr>"
| "from_remote_addr (Socket_V6 a p f s) =
     \<lparr>ip = V6 a, scope_id = (if s \<noteq> 0 then Some s else None)\<rparr>"

section \<open>Errors and responses\<close>

type_synonym status_code = nat

datatype app_error =
    Hyper
  | Status status_code
  | BadRequest string
  | Message status_code string

record json_response =
  resp_status :: status_code
  resp_message :: string

text \<open>\<open>show_code\<close> renders a status code, as the \<open>Display\<close> of the \<open>http\<close> crate does.\<close>

fun to_response :: "(status_code \<Rightarrow> string) \<Rightarrow> app_error \<Rightarrow> json_response" where
  "to_response show_code Hyper =
     \<lparr>resp_status = 500, resp_message = ''Internal server error''\<rparr>"
| "to_response show_code (Status code) =
     \<lparr>resp_status = code, resp_message = ''Status code: '' @ show_code code\<rparr>"
| "to_response show_code (BadRequest message) =
     \<lparr>resp_status = 400, resp_message = message\<rparr>"
| "to_response show_code (Message code message) =
     \<lparr>resp_status = code, resp_message = message\<rparr>"

fun error_status :: "app_error \<Rightarrow> status_code" where
  "error_status Hyper = 500"
| "error_status (Status code) = code"
| "error_status (BadRequest message) = 400"
| "error_status (Message code message) = code"

lemma to_response_status [simp]: "resp_status (to_response show_code e) = error_status e"
  by (cases e) simp_all

section \<open>Queries\<close>

text \<open>
  \<open>parse_query\<close> collects the decoded pairs into a hash map, so the last value of a repeated key
  wins. \<open>decode\<close> stands for \<open>form_urlencoded::parse\<close>.
\<close>

type_synonym query = "string \<Rightarrow> string option"

fun parse_query :: "(string \<Rightarrow> (string \<times> string) list) \<Rightarrow> string option \<Rightarrow> query" where
  "parse_query decode None = Map.empty"
| "parse_query decode (Some q) = map_of (rev (decode q))"

section \<open>Wire values\<close>

definition PROTOCOL_VERSION_V2 :: string where
  "PROTOCOL_VERSION_V2 = ''2.2''"

datatype device_type = Mobile | Desktop | Web | Headless | Server

datatype protocol_type = Http | Https

fun protocol_as_str :: "protocol_type \<Rightarrow> rstring" where
  "protocol_as_str Http = lit ''http''"
| "protocol_as_str Https = lit ''https''"

definition protocol_deserialize :: "rstring \<Rightarrow> protocol_type option" where
  "protocol_deserialize v =
     (if v = lit ''http'' then Some Http else if v = lit ''https'' then Some Https else None)"

fun device_type_serialize :: "device_type \<Rightarrow> rstring" where
  "device_type_serialize Mobile = lit ''mobile''"
| "device_type_serialize Desktop = lit ''desktop''"
| "device_type_serialize Web = lit ''web''"
| "device_type_serialize Headless = lit ''headless''"
| "device_type_serialize Server = lit ''server''"

text \<open>
  \<open>to_lowercase\<close> differs from the ASCII one only on non-ASCII characters. The only one of them
  whose lower case is an ASCII letter alone is the Kelvin sign (\<open>k\<close>), which occurs in no name but
  \<open>desktop\<close>, and \<open>Desktop\<close> is the fallback anyway: the two agree here on every input.
\<close>

definition device_type_deserialize :: "rstring \<Rightarrow> device_type" where
  "device_type_deserialize value =
     (let v = map to_ascii_lowercase value
      in if v = lit ''mobile'' then Mobile
         else if v = lit ''desktop'' then Desktop
         else if v = lit ''web'' then Web
         else if v = lit ''headless'' then Headless
         else if v = lit ''server'' then Server
         else Desktop)"

section \<open>DTOs\<close>

record file_metadata =
  modified :: "string option"
  accessed :: "string option"

record file_dto =
  dto_id :: string
  file_name :: rstring
  size_of :: u64
  file_type :: string
  sha256 :: "rstring option"
  preview :: "string option"
  metadata :: "file_metadata option"

record client_info =
  ci_alias :: string
  ci_version :: string
  ci_device_model :: "string option"
  ci_device_type :: "device_type option"
  ci_token :: string

record register_dto_v2 =
  dto_alias :: string
  version :: string
  device_model :: "string option"
  device_type :: "device_type option"
  fingerprint :: rstring
  port :: u16
  protocol :: protocol_type
  download :: bool

text \<open>\<open>InfoResponseDtoV2\<close> and \<open>RegisterResponseDtoV2\<close> have the same fields.\<close>

record info_response_v2 =
  ir_alias :: string
  ir_version :: string
  ir_device_model :: "string option"
  ir_device_type :: "device_type option"
  ir_fingerprint :: string
  ir_download :: bool

record register_dto =
  r_alias :: string
  r_version :: string
  r_device_model :: "string option"
  r_device_type :: "device_type option"
  r_token :: rstring
  r_port :: u16
  r_protocol :: protocol_type
  r_has_web_interface :: bool

definition register_dto_into_v2 :: "register_dto \<Rightarrow> register_dto_v2" where
  "register_dto_into_v2 v3 =
     \<lparr>dto_alias = r_alias v3, version = r_version v3, device_model = r_device_model v3,
      device_type = r_device_type v3, fingerprint = r_token v3, port = r_port v3,
      protocol = r_protocol v3, download = r_has_web_interface v3\<rparr>"

record register_response_dto =
  rr_alias :: string
  rr_version :: string
  rr_device_model :: "string option"
  rr_device_type :: "device_type option"
  rr_token :: string
  rr_has_web_interface :: bool

definition register_response_from_v2 :: "info_response_v2 \<Rightarrow> register_response_dto" where
  "register_response_from_v2 v2 =
     \<lparr>rr_alias = ir_alias v2, rr_version = ir_version v2, rr_device_model = ir_device_model v2,
      rr_device_type = ir_device_type v2, rr_token = ir_fingerprint v2,
      rr_has_web_interface = ir_download v2\<rparr>"

section \<open>Certificates\<close>

text \<open>Lower and upper case hexadecimal, two digits a byte: \<open>to_hex\<close> and \<open>format!("{byte:02X}")\<close>.\<close>

definition hex_digit :: "nat \<Rightarrow> nat \<Rightarrow> rchar" where
  "hex_digit letter d = (if d < 10 then 48 + d else letter + (d - 10))"

definition hex_byte :: "nat \<Rightarrow> u8 \<Rightarrow> rstring" where
  "hex_byte letter b = [hex_digit letter (unat b div 16), hex_digit letter (unat b mod 16)]"

definition to_hex :: "bytes \<Rightarrow> rstring" where
  "to_hex bs = concat (map (hex_byte 97) bs)"

definition fingerprint_from_cert_der :: "(bytes \<Rightarrow> bytes) \<Rightarrow> bytes \<Rightarrow> rstring" where
  "fingerprint_from_cert_der sha cert = concat (map (hex_byte 65) (sha cert))"

record request_client_info =
  peer :: peer_ip
  cert :: "bytes option"

definition cert_fingerprint :: "(bytes \<Rightarrow> bytes) \<Rightarrow> request_client_info \<Rightarrow> rstring option" where
  "cert_fingerprint sha ci = map_option (fingerprint_from_cert_der sha) (cert ci)"

definition to_ascii_uppercase :: "rchar \<Rightarrow> rchar" where
  "to_ascii_uppercase c = (if 97 \<le> c \<and> c \<le> 122 then c - 32 else c)"

lemma upper_hex_digit: "d < 16 \<Longrightarrow> to_ascii_uppercase (hex_digit 97 d) = hex_digit 65 d"
  by (auto simp: to_ascii_uppercase_def hex_digit_def)

lemma unat_byte_less: "unat (b :: u8) < 256"
  using unsigned_less [of b, where ?'a = nat] by simp

lemma hex_byte_upper: "map to_ascii_uppercase (hex_byte 97 b) = hex_byte 65 b"
proof -
  have "unat b div 16 < 16" "unat b mod 16 < 16" using unat_byte_less [of b] by auto
  then show ?thesis by (simp add: hex_byte_def upper_hex_digit)
qed

lemma fingerprint_case: "map to_ascii_uppercase (to_hex (sha c)) = fingerprint_from_cert_der sha c"
  by (simp add: to_hex_def fingerprint_from_cert_der_def map_concat comp_def hex_byte_upper)

section \<open>Properties\<close>

text \<open>
  The wire forms of the v2 protocol lose nothing and are read case-insensitively where the
  protocol says so: parsing a printed device type or protocol gives it back, in any letter case for
  the device type, and a device type the peer made up is a desktop.
\<close>

theorem wire_values_roundtrip:
  "device_type_deserialize (device_type_serialize t) = t \<and>
   device_type_deserialize (map to_ascii_uppercase (device_type_serialize t)) = t \<and>
   protocol_deserialize (protocol_as_str p) = Some p \<and>
   (device_type_deserialize v = Desktop \<or>
    map to_ascii_lowercase v = device_type_serialize (device_type_deserialize v))"
proof -
  have "device_type_deserialize (device_type_serialize t) = t"
    "device_type_deserialize (map to_ascii_uppercase (device_type_serialize t)) = t"
    by (cases t; simp add: device_type_deserialize_def lit_def to_ascii_lowercase_def
        to_ascii_uppercase_def)+
  moreover have "protocol_deserialize (protocol_as_str p) = Some p"
    by (cases p) (simp_all add: protocol_deserialize_def lit_def)
  ultimately show ?thesis
    by (simp add: device_type_deserialize_def Let_def)
qed

end
