(* ===== verification/Pin.thy ===== *)
theory Pin
  imports Http_Common "HOL-Library.AList"
begin

text \<open>
  PIN checks with a per-address attempt limit (\<open>packages/core/src/http/server/common/pin.rs\<close>).
  The attempt counters live in an \<open>LruCache\<close> of the \<open>lru\<close> crate: its operations are an argument of
  \<open>check_pin\<close>, and the locale \<open>lru_cache\<close> states what the crate documents of them. It is interpreted
  on a list in order of use.
\<close>

section \<open>The check\<close>

record 'c lru_ops =
  lru_get :: "'c \<Rightarrow> ip_addr \<Rightarrow> u32 option \<times> 'c"
  lru_pop :: "'c \<Rightarrow> ip_addr \<Rightarrow> 'c"
  lru_put :: "'c \<Rightarrow> ip_addr \<Rightarrow> u32 \<Rightarrow> 'c"

definition MAX_PIN_ATTEMPTS :: u32 where
  "MAX_PIN_ATTEMPTS = 3"

text \<open>The capacity of the caches the server creates (\<open>AppState::new\<close>).\<close>

definition PIN_CACHE_CAPACITY :: nat where
  "PIN_CACHE_CAPACITY = 200"

definition check_pin ::
  "'c lru_ops \<Rightarrow> string option \<Rightarrow> 'c \<Rightarrow> query \<Rightarrow> ip_addr \<Rightarrow> (app_error + unit) \<times> 'c" where
  "check_pin ops required attempts query addr =
     (case required of
        None \<Rightarrow> (Inr (), attempts)
      | Some required_pin \<Rightarrow>
          (let (got, attempts) = lru_get ops attempts addr;
               count = (case got of Some n \<Rightarrow> n | None \<Rightarrow> 0)
           in if count \<ge> MAX_PIN_ATTEMPTS
              then (Inl (Message 429 ''Too many requests''), attempts)
              else case query ''pin'' of
                     Some pin \<Rightarrow>
                       if pin = required_pin then (Inr (), lru_pop ops attempts addr)
                       else (Inl (Message 401 ''Invalid PIN''), lru_put ops attempts addr (count + 1))
                   | None \<Rightarrow> (Inl (Message 401 ''PIN required''), attempts)))"

text \<open>A sequence of requests against one cache, with the answer to each.\<close>

fun pin_run ::
  "'c lru_ops \<Rightarrow> string option \<Rightarrow> 'c \<Rightarrow> (query \<times> ip_addr) list \<Rightarrow> (app_error + unit) list" where
  "pin_run ops required c [] = []"
| "pin_run ops required c ((q, a) # reqs) =
     (case check_pin ops required c q a of (r, c') \<Rightarrow> r # pin_run ops required c' reqs)"

section \<open>The contract of the cache\<close>

locale lru_cache =
  fixes ops :: "'c lru_ops"
    and usable :: "'c \<Rightarrow> bool"
    and look :: "'c \<Rightarrow> ip_addr \<Rightarrow> u32 option"
    and cap :: nat
  assumes get_value: "fst (lru_get ops c k) = look c k"
    and get_look: "usable c \<Longrightarrow> look (snd (lru_get ops c k)) = look c"
    and get_wf: "usable c \<Longrightarrow> usable (snd (lru_get ops c k))"
    and pop_look: "usable c \<Longrightarrow> look (lru_pop ops c k) = (look c)(k := None)"
    and pop_wf: "usable c \<Longrightarrow> usable (lru_pop ops c k)"
    and put_wf: "usable c \<Longrightarrow> usable (lru_put ops c k v)"
    and put_fits: "usable c \<Longrightarrow> card (insert k (dom (look c))) \<le> cap \<Longrightarrow>
      look (lru_put ops c k v) = (look c)(k \<mapsto> v)"
    and look_finite: "usable c \<Longrightarrow> finite (dom (look c))"

section \<open>The reference: a counter per address\<close>

definition ideal_check ::
  "string \<Rightarrow> (ip_addr \<Rightarrow> nat) \<Rightarrow> query \<Rightarrow> ip_addr \<Rightarrow> (app_error + unit) \<times> (ip_addr \<Rightarrow> nat)" where
  "ideal_check pin f q a =
     (if f a \<ge> 3 then (Inl (Message 429 ''Too many requests''), f)
      else case q ''pin'' of
             None \<Rightarrow> (Inl (Message 401 ''PIN required''), f)
           | Some p \<Rightarrow> if p = pin then (Inr (), f(a := 0))
                       else (Inl (Message 401 ''Invalid PIN''), f(a := Suc (f a))))"

fun ideal_run ::
  "string \<Rightarrow> (ip_addr \<Rightarrow> nat) \<Rightarrow> (query \<times> ip_addr) list \<Rightarrow> (app_error + unit) list" where
  "ideal_run pin f [] = []"
| "ideal_run pin f ((q, a) # reqs) =
     (case ideal_check pin f q a of (r, f') \<Rightarrow> r # ideal_run pin f' reqs)"

definition wrong_answers :: "ip_addr \<Rightarrow> (query \<times> ip_addr) list \<Rightarrow> (app_error + unit) list \<Rightarrow> nat" where
  "wrong_answers a reqs rs =
     length (filter (\<lambda>(req, r). snd req = a \<and> r = Inl (Message 401 ''Invalid PIN'')) (zip reqs rs))"

lemma ideal_guess_bound:
  "\<forall>q. (q, a) \<in> set reqs \<longrightarrow> q ''pin'' \<noteq> Some pin \<Longrightarrow>
   wrong_answers a reqs (ideal_run pin f reqs) \<le> 3 - f a"
proof (induction reqs arbitrary: f)
  case (Cons req reqs)
  obtain q b where req: "req = (q, b)" by (cases req)
  have rest: "wrong_answers a reqs (ideal_run pin g reqs) \<le> 3 - g a" for g
    using Cons.prems by (intro Cons.IH) auto
  have "a = b \<Longrightarrow> q ''pin'' \<noteq> Some pin" using Cons.prems req by auto
  then show ?case
    using rest [of f] rest [of "f(b := 0)"] rest [of "f(b := Suc (f b))"]
    by (auto simp: req wrong_answers_def ideal_check_def split: option.split)
qed (simp add: wrong_answers_def)

section \<open>The check refines the reference\<close>

context lru_cache
begin

definition sim :: "ip_addr set \<Rightarrow> 'c \<Rightarrow> (ip_addr \<Rightarrow> nat) \<Rightarrow> bool" where
  "sim A c f \<longleftrightarrow> usable c \<and> dom (look c) \<subseteq> A \<and>
     (\<forall>a. (case look c a of None \<Rightarrow> 0 | Some n \<Rightarrow> unat n) = f a) \<and> (\<forall>a. f a \<le> 3)"

lemma check_sim:
  assumes sim: "sim A c f" and A: "finite A" "card A \<le> cap" "a \<in> A"
  shows "fst (check_pin ops (Some pin) c q a) = fst (ideal_check pin f q a) \<and>
    sim A (snd (check_pin ops (Some pin) c q a)) (snd (ideal_check pin f q a))"
proof -
  obtain got c1 where get: "lru_get ops c a = (got, c1)" by fastforce
  have usable: "usable c" and dom: "dom (look c) \<subseteq> A" using sim by (simp_all add: sim_def)
  have got: "got = look c a" using get_value [of c a] get by simp
  have c1: "usable c1" "look c1 = look c" using get_wf [OF usable, of a] get_look [OF usable, of a] get by simp_all
  define n where "n = (case got of Some n \<Rightarrow> n | None \<Rightarrow> 0)"
  have "(case got of None \<Rightarrow> 0 | Some n \<Rightarrow> unat n) = f a" using sim got by (simp add: sim_def)
  then have fa: "f a = unat n" by (cases got) (simp_all add: n_def)
  have lock: "n \<ge> MAX_PIN_ATTEMPTS \<longleftrightarrow> f a \<ge> 3"
    by (simp add: fa MAX_PIN_ATTEMPTS_def word_le_nat_alt)
  have "card (insert a (dom (look c1))) \<le> cap"
    using A dom c1(2) by (metis card_mono insert_subset le_trans)
  note put = put_fits [OF c1(1) this, of "n + 1"]
  have suc: "f a < 3 \<Longrightarrow> unat (n + 1) = Suc (f a)"
    using fa by (simp add: unat_word_ariths)
  have s1: "sim A c1 f" using sim c1 unfolding sim_def by metis
  have s2: "sim A (lru_pop ops c1 a) (f(a := 0))"
    using sim c1 pop_look [OF c1(1), of a] pop_wf [OF c1(1), of a]
    by (auto simp: sim_def)
  have s3: "f a < 3 \<Longrightarrow> sim A (lru_put ops c1 a (n + 1)) (f(a := Suc (f a)))"
    using sim c1 put put_wf [OF c1(1)] suc A(3) by (auto simp: sim_def)
  have res: "check_pin ops (Some pin) c q a =
      (if f a \<ge> 3 then (Inl (Message 429 ''Too many requests''), c1)
       else case q ''pin'' of
          Some p \<Rightarrow> if p = pin then (Inr (), lru_pop ops c1 a)
                    else (Inl (Message 401 ''Invalid PIN''), lru_put ops c1 a (n + 1))
        | None \<Rightarrow> (Inl (Message 401 ''PIN required''), c1))"
    unfolding check_pin_def by (simp add: get n_def [symmetric] lock)
  show ?thesis
    using s1 s2 s3 by (auto simp: res ideal_check_def split: option.split)
qed

lemma run_sim:
  assumes "sim A c f" "finite A" "card A \<le> cap" "snd ` set reqs \<subseteq> A"
  shows "pin_run ops (Some pin) c reqs = ideal_run pin f reqs"
  using assms
proof (induction reqs arbitrary: c f)
  case (Cons req reqs)
  obtain q a where req: "req = (q, a)" by (cases req)
  obtain r c' where chk: "check_pin ops (Some pin) c q a = (r, c')" by fastforce
  obtain r' f' where idl: "ideal_check pin f q a = (r', f')" by fastforce
  have "r = r'" "sim A c' f'"
    using check_sim [OF Cons.prems(1-3), of a pin q] Cons.prems(4) req chk idl by auto
  then show ?case using Cons req chk idl by simp
qed simp

lemma run_ideal:
  assumes "usable c" "look c = Map.empty" "card (snd ` set reqs) \<le> cap"
  shows "pin_run ops (Some pin) c reqs = ideal_run pin (\<lambda>_. 0) reqs"
  using assms by (intro run_sim [of "snd ` set reqs"]) (simp_all add: sim_def)

end

section \<open>A cache as a list in order of use\<close>

type_synonym lru_list = "(ip_addr \<times> u32) list"

definition list_lru :: "nat \<Rightarrow> lru_list lru_ops" where
  "list_lru cap =
     \<lparr>lru_get = (\<lambda>c k. case map_of c k of
         None \<Rightarrow> (None, c) | Some v \<Rightarrow> (Some v, (k, v) # AList.delete k c)),
      lru_pop = (\<lambda>c k. AList.delete k c),
      lru_put = (\<lambda>c k v. take cap ((k, v) # AList.delete k c))\<rparr>"

definition list_lru_wf :: "nat \<Rightarrow> lru_list \<Rightarrow> bool" where
  "list_lru_wf cap c \<longleftrightarrow> distinct (map fst c) \<and> length c \<le> cap"

lemma length_delete_le: "length (AList.delete k c) \<le> length c"
  by (simp add: AList.delete_eq)

lemma length_delete_less: "map_of c k = Some v \<Longrightarrow> length (AList.delete k c) < length c"
  using length_filter_less [of "(k, v)" c "\<lambda>(k', _). k \<noteq> k'"]
  by (auto simp: AList.delete_eq dest: map_of_SomeD)

lemma dom_card_length: "distinct (map fst c) \<Longrightarrow> card (dom (map_of c)) = length c"
  by (metis distinct_card dom_map_of_conv_image_fst length_map list.set_map)

interpretation list_cache: lru_cache "list_lru cap" "list_lru_wf cap" map_of cap for cap
proof unfold_locales
  fix c :: lru_list and k v
  show "fst (lru_get (list_lru cap) c k) = map_of c k"
    by (simp add: list_lru_def split: option.split)
  show "finite (dom (map_of c))" by (rule finite_dom_map_of)
  assume usable: "list_lru_wf cap c"
  then have dist: "distinct (map fst (AList.delete k c))"
    by (simp add: list_lru_wf_def AList.distinct_delete)
  have k: "k \<notin> fst ` set (AList.delete k c)"
    by (auto simp: AList.delete_eq)
  show "map_of (snd (lru_get (list_lru cap) c k)) = map_of c"
    by (auto simp: list_lru_def AList.delete_conv' fun_eq_iff split: option.split)
  show "list_lru_wf cap (snd (lru_get (list_lru cap) c k))"
  proof (cases "map_of c k")
    case None
    then show ?thesis using usable by (simp add: list_lru_def)
  next
    case (Some v)
    then have "Suc (length (AList.delete k c)) \<le> cap"
      using length_delete_less [OF Some] usable by (simp add: list_lru_wf_def)
    then show ?thesis using Some dist k by (simp add: list_lru_def list_lru_wf_def)
  qed
  show "map_of (lru_pop (list_lru cap) c k) = (map_of c)(k := None)"
    by (simp add: list_lru_def AList.delete_conv')
  show "list_lru_wf cap (lru_pop (list_lru cap) c k)"
    using usable dist length_delete_le [of k c] by (simp add: list_lru_def list_lru_wf_def)
  show "list_lru_wf cap (lru_put (list_lru cap) c k v)"
  proof -
    have "distinct (map fst ((k, v) # AList.delete k c))" using dist k by simp
    then have "distinct (take cap (map fst ((k, v) # AList.delete k c)))" by (rule distinct_take)
    then have "distinct (map fst (take cap ((k, v) # AList.delete k c)))" by (simp only: take_map)
    then show ?thesis by (simp add: list_lru_def list_lru_wf_def)
  qed
  assume card: "card (insert k (dom (map_of c))) \<le> cap"
  have "insert k (dom (map_of c)) = dom (map_of ((k, v) # AList.delete k c))"
    by (auto simp: AList.delete_conv')
  then have "length ((k, v) # AList.delete k c) \<le> cap"
    using card dom_card_length [of "(k, v) # AList.delete k c"] dist k by auto
  then show "map_of (lru_put (list_lru cap) c k v) = (map_of c)(k \<mapsto> v)"
    by (auto simp: list_lru_def AList.delete_conv' fun_eq_iff)
qed

section \<open>Properties\<close>

text \<open>
  As long as the requests come from no more addresses than the cache holds, the answers of
  \<open>check_pin\<close> are those of a plain counter per address: a wrong PIN counts, a right one resets the
  count, a missing one does neither, and a count of three blocks the address.
\<close>

theorem check_pin_refines_counter:
  assumes "lru_cache ops usable look cap" and "usable c" and "look c = Map.empty"
    and "card (snd ` set reqs) \<le> cap"
  shows "pin_run ops (Some pin) c reqs = ideal_run pin (\<lambda>_. 0) reqs"
  by (rule lru_cache.run_ideal [OF assms])

theorem check_pin_refines_counter_witness:
  "pin_run (list_lru PIN_CACHE_CAPACITY) (Some ''123456'') []
     [([''pin'' \<mapsto> ''1''], V4 1), ([''pin'' \<mapsto> ''2''], V4 1), ([''pin'' \<mapsto> ''123456''], V4 2)] =
   ideal_run ''123456'' (\<lambda>_. 0)
     [([''pin'' \<mapsto> ''1''], V4 1), ([''pin'' \<mapsto> ''2''], V4 1), ([''pin'' \<mapsto> ''123456''], V4 2)]"
  by (rule check_pin_refines_counter [OF list_cache.lru_cache_axioms [of PIN_CACHE_CAPACITY]])
    (simp_all add: list_lru_wf_def PIN_CACHE_CAPACITY_def)



section \<open>Eviction\<close>

definition after_wrong_pins :: "nat \<Rightarrow> string \<Rightarrow> lru_list \<Rightarrow> query \<Rightarrow> ip_addr list \<Rightarrow> lru_list" where
  "after_wrong_pins cap pin c q others =
     fold (\<lambda>b c. snd (check_pin (list_lru cap) (Some pin) c q b)) others c"

lemma after_wrong_pins_take:
  assumes "q ''pin'' = Some p" "p \<noteq> pin" "length c \<le> cap"
    "distinct others" "set others \<inter> fst ` set c = {}"
  shows "after_wrong_pins cap pin c q others = take cap (rev (map (\<lambda>b. (b, 1)) others) @ c)"
  using assms
proof (induction others rule: rev_induct)
  case (snoc b bs)
  let ?c = "take cap (rev (map (\<lambda>b. (b, 1)) bs) @ c)"
  have "after_wrong_pins cap pin c q bs = ?c" using snoc by simp
  moreover have b: "b \<notin> fst ` set ?c"
    using snoc.prems by (auto dest!: in_set_takeD)
  ultimately have "after_wrong_pins cap pin c q (bs @ [b]) =
      snd (check_pin (list_lru cap) (Some pin) ?c q b)" by (simp add: after_wrong_pins_def)
  also have "map_of ?c b = None" using b by (simp only: map_of_eq_None_iff not_False_eq_True)
  then have "snd (check_pin (list_lru cap) (Some pin) ?c q b) = take cap ((b, 1) # ?c)"
    using snoc.prems b
    by (simp add: check_pin_def list_lru_def MAX_PIN_ATTEMPTS_def AList.delete_idem [of b ?c]
        del: take_append)
  finally show ?case by (cases cap) (simp_all add: take_take min_def del: take_append)
qed (simp add: after_wrong_pins_def)

text \<open>
  Beyond the capacity the limit does not hold: one wrong PIN from each of as many other addresses
  as the cache holds evicts the counter of a blocked address, which may then guess again.
\<close>

theorem lockout_evicted:
  assumes "q ''pin'' = Some p" "p \<noteq> pin" "distinct others" "length others = cap"
    "set others \<inter> fst ` set c = {}" "length c \<le> cap" "map_of c a = Some 3" "0 < cap"
    "right ''pin'' = Some pin"
  shows "fst (check_pin (list_lru cap) (Some pin) c right a) = Inl (Message 429 ''Too many requests'') \<and>
    fst (check_pin (list_lru cap) (Some pin) (after_wrong_pins cap pin c q others) right a) = Inr ()"
proof
  show "fst (check_pin (list_lru cap) (Some pin) c right a) = Inl (Message 429 ''Too many requests'')"
    using assms by (simp add: check_pin_def list_lru_def MAX_PIN_ATTEMPTS_def)
  have "a \<in> fst ` set c" using assms(7) by (metis dom_map_of_conv_image_fst domI)
  then have "a \<notin> set others" using assms(5) by blast
  moreover have "after_wrong_pins cap pin c q others = rev (map (\<lambda>b. (b, 1)) others)"
    using after_wrong_pins_take [where q = q and pin = pin and c = c and others = others and cap = cap]
      assms by simp
  ultimately have "map_of (after_wrong_pins cap pin c q others) a = None"
    by (auto simp: map_of_eq_None_iff)
  then show "fst (check_pin (list_lru cap) (Some pin) (after_wrong_pins cap pin c q others) right a) = Inr ()"
    using assms by (simp add: check_pin_def list_lru_def MAX_PIN_ATTEMPTS_def)
qed

definition many_addresses :: "ip_addr list" where
  "many_addresses = map (\<lambda>n. V4 (of_nat n)) [1..<201]"

theorem lockout_evicted_witness:
  "fst (check_pin (list_lru PIN_CACHE_CAPACITY) (Some ''1234'')
     (after_wrong_pins PIN_CACHE_CAPACITY ''1234'' [(V4 0, 3)] [''pin'' \<mapsto> ''0''] many_addresses)
     [''pin'' \<mapsto> ''1234''] (V4 0)) = Inr ()"
proof -
  have same: "of_nat a = (of_nat b :: u32) \<longleftrightarrow> a = b" if "a < 201" "b < 201" for a b
    using that by (simp add: word_of_nat_eq_iff take_bit_nat_eq_self)
  have "inj_on (\<lambda>n. V4 (of_nat n)) {1..<201}" by (intro inj_onI) (simp add: same)
  then have "distinct many_addresses" by (simp add: many_addresses_def distinct_map)
  moreover have "V4 0 \<notin> set many_addresses"
    using same [of _ 0] by (auto simp: many_addresses_def)
  ultimately show ?thesis
    using lockout_evicted [of "[''pin'' \<mapsto> ''0'']" "''0''" "''1234''" many_addresses PIN_CACHE_CAPACITY
        "[(V4 0, 3)]" "V4 0" "[''pin'' \<mapsto> ''1234'']"]
    by (simp add: PIN_CACHE_CAPACITY_def many_addresses_def)
qed

end
