(* ===== verification/Save.thy ===== *)
theory Save
  imports Http_Common
begin

text \<open>
  Receiving the body of an upload (\<open>packages/core/src/http/server/common/save.rs\<close>): the loop that
  forwards the body to the target, the task that writes it to a file, the size and checksum checks
  and what the sender and the application are told. SHA-256 is an argument; the file system is a
  record of the results its calls return.
\<close>

section \<open>Targets\<close>

datatype save_result = Success | Failed | HashMismatch

record timestamps =
  ts_modified :: "nat option"
  ts_accessed :: "nat option"

definition timestamps_is_empty :: "timestamps \<Rightarrow> bool" where
  "timestamps_is_empty ts \<longleftrightarrow> ts_modified ts = None \<and> ts_accessed ts = None"

text \<open>
  A file as the writer leaves it, and the results of the calls made on it: opening, each
  \<open>write_all\<close> (\<open>io_write i\<close> is the error of the \<open>i\<close>-th, if any), \<open>flush\<close>, \<open>set_len\<close> and
  \<open>set_times\<close>. \<open>io_old\<close> is what the opened file holds: nothing for \<open>File::create\<close>, anything for a
  descriptor handed over by the application.
\<close>

record file_state =
  content :: bytes
  mtime :: "nat option"
  atime :: "nat option"

record file_io =
  io_open :: "string + unit"
  io_old :: bytes
  io_write :: "nat \<Rightarrow> string option"
  io_flush :: "string + unit"
  io_set_len :: bool
  io_set_times :: bool

datatype file_upload_target =
    Stream_Target "(string + unit) option"   \<comment> \<open>the answer on \<open>result_rx\<close>, or dropped\<close>
  | Path_Target file_io
  | Fd_Target file_io

fun target_io :: "file_upload_target \<Rightarrow> file_io option" where
  "target_io (Stream_Target answer) = None"
| "target_io (Path_Target io) = Some (io\<lparr>io_old := []\<rparr>)"
| "target_io (Fd_Target io) = Some io"

section \<open>The file writer\<close>

text \<open>The message of a size mismatch is left to \<open>size_error\<close>: only that there is one matters.\<close>

definition size_error :: string where
  "size_error = ''Unexpected size''"

text \<open>The receive loop: every chunk is counted before it is written; \<open>written\<close> is a \<open>u64\<close>.\<close>

fun write_chunks :: "file_io \<Rightarrow> u64 \<Rightarrow> nat \<Rightarrow> u64 \<Rightarrow> bytes \<Rightarrow> bytes list \<Rightarrow> string + (u64 \<times> bytes)" where
  "write_chunks io expected i written acc [] = Inr (written, acc)"
| "write_chunks io expected i written acc (chunk # chunks) =
     (let written = written + of_nat (length chunk)
      in if written > expected then Inl size_error
         else case io_write io i of
                Some err \<Rightarrow> Inl err
              | None \<Rightarrow> write_chunks io expected (Suc i) written (acc @ chunk) chunks)"

definition overlay :: "bytes \<Rightarrow> bytes \<Rightarrow> bytes" where
  "overlay new old = new @ drop (length new) old"

definition write_file_from_receiver ::
  "file_io \<Rightarrow> u64 \<Rightarrow> bytes list \<Rightarrow> timestamps \<Rightarrow> string + file_state" where
  "write_file_from_receiver io expected chunks ts =
     (case io_open io of
        Inl err \<Rightarrow> Inl err
      | Inr _ \<Rightarrow>
          (case write_chunks io expected 0 0 [] chunks of
             Inl err \<Rightarrow> Inl err
           | Inr (written, data) \<Rightarrow>
               (case io_flush io of
                  Inl err \<Rightarrow> Inl err
                | Inr _ \<Rightarrow>
                    if written \<noteq> expected then Inl size_error
                    else
                      let full = overlay data (io_old io);
                          cut = (if io_set_len io then take (unat written) full else full);
                          stamp = \<not> timestamps_is_empty ts \<and> io_set_times io
                      in Inr \<lparr>content = cut,
                              mtime = (if stamp then ts_modified ts else None),
                              atime = (if stamp then ts_accessed ts else None)\<rparr>)))"

section \<open>Forwarding the body\<close>

datatype body_frame = Data_Frame bytes | Other_Frame | Error_Frame

text \<open>
  The chunks handed to the target and whether the loop stopped with an error. \<open>limit\<close> is how many
  sends succeed before the receiving side is gone (\<open>None\<close>: it stays to the end).
\<close>

fun forward_body :: "nat option \<Rightarrow> body_frame list \<Rightarrow> bytes list \<times> bool" where
  "forward_body limit [] = ([], False)"
| "forward_body limit (Error_Frame # frames) = ([], True)"
| "forward_body limit (Other_Frame # frames) = forward_body limit frames"
| "forward_body limit (Data_Frame d # frames) =
     (if d = [] then forward_body limit frames
      else if limit = Some 0 then ([], True)
      else case forward_body (map_option (\<lambda>n. n - 1) limit) frames of
             (chunks, err) \<Rightarrow> (d # chunks, err))"

section \<open>The outcome\<close>

record save_outcome =
  saved :: save_result
  told_app :: "(string + unit) option"
  stored :: "file_state option"

definition aborted :: string where
  "aborted = ''Upload aborted''"

text \<open>The answer on \<open>result_rx\<close>: the application's for a stream, the writer's otherwise.\<close>

definition result_rx ::
  "file_upload_target \<Rightarrow> u64 \<Rightarrow> bytes list \<Rightarrow> timestamps \<Rightarrow> (string + unit) option" where
  "result_rx target fsize chunks ts =
     (case target of
        Stream_Target answer \<Rightarrow> answer
      | _ \<Rightarrow> (case write_file_from_receiver (the (target_io target)) fsize chunks ts of
                Inl err \<Rightarrow> Some (Inl err)
              | Inr _ \<Rightarrow> Some (Inr ())))"

definition stored_file ::
  "file_upload_target \<Rightarrow> u64 \<Rightarrow> bytes list \<Rightarrow> timestamps \<Rightarrow> file_state option" where
  "stored_file target fsize chunks ts =
     (case target_io target of
        None \<Rightarrow> None
      | Some io \<Rightarrow> (case write_file_from_receiver io fsize chunks ts of
                       Inl _ \<Rightarrow> None | Inr f \<Rightarrow> Some f))"

text \<open>The block \<open>'outcome\<close>: the result for the HTTP response and the reason for the application.\<close>

definition outcome ::
  "(bytes \<Rightarrow> bytes) \<Rightarrow> file_upload_target \<Rightarrow> rstring option \<Rightarrow> bytes list \<Rightarrow> bool \<Rightarrow>
   (string + unit) option \<Rightarrow> save_result \<times> string option" where
  "outcome sha target expected_sha256 chunks stream_error rx =
     (if stream_error then
        (Failed, Some (case target_io target of
                         None \<Rightarrow> aborted
                       | Some _ \<Rightarrow> (case rx of Some (Inl err) \<Rightarrow> err | _ \<Rightarrow> aborted)))
      else case rx of
        None \<Rightarrow> (Failed, Some aborted)
      | Some (Inl err) \<Rightarrow> (Failed, Some err)
      | Some (Inr _) \<Rightarrow>
          (case expected_sha256 of
             None \<Rightarrow> (Success, None)
           | Some expected \<Rightarrow>
               if eq_ignore_ascii_case (to_hex (sha (concat chunks))) expected then (Success, None)
               else (HashMismatch, Some ''Checksum mismatch'')))"

definition save_req_to_target ::
  "(bytes \<Rightarrow> bytes) \<Rightarrow> body_frame list \<Rightarrow> nat option \<Rightarrow> file_upload_target \<Rightarrow> u64 \<Rightarrow>
   rstring option \<Rightarrow> timestamps \<Rightarrow> save_outcome" where
  "save_req_to_target sha frames limit target fsize expected_sha256 ts =
     (let (chunks, stream_error) = forward_body limit frames;
          (result, error) = outcome sha target expected_sha256 chunks stream_error
                              (result_rx target fsize chunks ts)
      in \<lparr>saved = result,
          told_app = (if target_io target = None then None
                      else Some (case error of None \<Rightarrow> Inr () | Some err \<Rightarrow> Inl err)),
          stored = stored_file target fsize chunks ts\<rparr>)"

section \<open>Facts\<close>

text \<open>The bytes of a body, and whether it arrived to its end.\<close>

fun body_bytes :: "body_frame list \<Rightarrow> bytes" where
  "body_bytes [] = []"
| "body_bytes (Data_Frame d # frames) = d @ body_bytes frames"
| "body_bytes (_ # frames) = body_bytes frames"

definition body_complete :: "body_frame list \<Rightarrow> bool" where
  "body_complete frames \<longleftrightarrow> Error_Frame \<notin> set frames"

lemma forward_ok:
  "forward_body limit frames = (chunks, False) \<Longrightarrow>
   concat chunks = body_bytes frames \<and> body_complete frames"
  by (induction limit frames arbitrary: chunks rule: forward_body.induct)
    (auto simp: body_complete_def split: if_splits prod.splits)

lemma forward_complete:
  "body_complete frames \<Longrightarrow> \<exists>chunks. forward_body None frames = (chunks, False)"
proof (induction frames)
  case (Cons fr frames)
  then show ?case by (cases fr) (auto simp: body_complete_def)
qed simp

lemma write_chunks_ok:
  assumes "write_chunks io expected i written acc chunks = Inr (n, data)"
    and "unat written = length acc"
    and "length acc + length (concat chunks) < 2 ^ 64"
  shows "data = acc @ concat chunks \<and> unat n = length data"
  using assms
proof (induction chunks arbitrary: i written acc)
  case (Cons chunk chunks)
  let ?w = "written + of_nat (length chunk)"
  have "unat ?w = length (acc @ chunk)"
    using Cons.prems(2,3) by (simp add: unat_word_ariths unat_of_nat take_bit_nat_eq_self)
  then show ?case
    using Cons.IH [of "Suc i" ?w "acc @ chunk"] Cons.prems by (auto simp: Let_def split: if_splits option.splits)
qed auto

lemma write_chunks_succeeds:
  assumes "\<forall>j. io_write io j = None" and "unat written = length acc"
    and "length acc + length (concat chunks) \<le> unat expected"
  shows "write_chunks io expected i written acc chunks =
    Inr (of_nat (length acc + length (concat chunks)), acc @ concat chunks)"
  using assms(2,3)
proof (induction chunks arbitrary: i written acc)
  case Nil
  then have "written = of_nat (length acc)" by (simp flip: Nil.prems(1))
  then show ?case by simp
next
  case (Cons chunk chunks)
  let ?w = "written + of_nat (length chunk)"
  have "length acc + length chunk < 2 ^ 64"
    using Cons.prems(2) unsigned_less [of expected, where ?'a = nat] by simp
  then have w: "unat ?w = length (acc @ chunk)"
    using Cons.prems(1) by (simp add: unat_word_ariths unat_of_nat take_bit_nat_eq_self)
  then have "\<not> ?w > expected" using Cons.prems(2) by (simp add: word_less_nat_alt)
  then show ?case
    using Cons.IH [of ?w "acc @ chunk" "Suc i"] Cons.prems(2) w assms(1) by (simp add: add.assoc)
qed

lemma writer_ok:
  assumes "write_file_from_receiver io fsize chunks ts = Inr f" and "length (concat chunks) < 2 ^ 64"
  shows "length (concat chunks) = unat fsize"
    and "io_old io = [] \<or> io_set_len io \<Longrightarrow> content f = concat chunks"
proof -
  obtain n data where w: "write_chunks io fsize 0 0 [] chunks = Inr (n, data)" and n: "n = fsize"
    using assms(1) by (auto simp: write_file_from_receiver_def Let_def split: sum.splits if_splits)
  have d: "data = concat chunks" "unat n = length data"
    using write_chunks_ok [OF w] assms(2) by auto
  show "length (concat chunks) = unat fsize" using d n by simp
  show "io_old io = [] \<or> io_set_len io \<Longrightarrow> content f = concat chunks"
    using assms(1) w d n
    by (auto simp: write_file_from_receiver_def overlay_def Let_def split: sum.splits if_splits)
qed

definition working :: "file_io \<Rightarrow> bool" where
  "working io \<longleftrightarrow> is_ok (io_open io) \<and> is_ok (io_flush io) \<and> (\<forall>i. io_write io i = None)"

lemma writer_succeeds:
  assumes "working io" and "length (concat chunks) = unat fsize"
  shows "\<exists>f. write_file_from_receiver io fsize chunks ts = Inr f"
proof -
  have "write_chunks io fsize 0 0 [] chunks = Inr (of_nat (length (concat chunks)), concat chunks)"
    using write_chunks_succeeds [of io 0 "[]" chunks fsize 0] assms by (simp add: working_def)
  then show ?thesis
    using assms by (auto simp: write_file_from_receiver_def working_def is_ok_iff Let_def)
qed

text \<open>What success means, whatever the target and whatever fails.\<close>

definition checksum_ok :: "(bytes \<Rightarrow> bytes) \<Rightarrow> rstring option \<Rightarrow> bytes \<Rightarrow> bool" where
  "checksum_ok sha expected data \<longleftrightarrow>
     (case expected of None \<Rightarrow> True | Some e \<Rightarrow> eq_ignore_ascii_case (to_hex (sha data)) e)"

lemma save_success_iff:
  "saved (save_req_to_target sha frames limit target fsize expected ts) = Success \<longleftrightarrow>
   (\<exists>chunks. forward_body limit frames = (chunks, False) \<and>
     result_rx target fsize chunks ts = Some (Inr ()) \<and> checksum_ok sha expected (concat chunks))"
  by (auto simp: save_req_to_target_def outcome_def checksum_ok_def Let_def
      split: prod.splits option.splits sum.splits if_splits)

lemma save_told_app:
  "target_io target \<noteq> None \<Longrightarrow>
   told_app (save_req_to_target sha frames limit target fsize expected ts) = Some (Inr ()) \<longleftrightarrow>
   saved (save_req_to_target sha frames limit target fsize expected ts) = Success"
  by (auto simp: save_req_to_target_def outcome_def Let_def
      split: prod.splits option.splits sum.splits if_splits)

lemma result_rx_file:
  "target_io target = Some io \<Longrightarrow>
   result_rx target fsize chunks ts = Some (Inr ()) \<longleftrightarrow>
   (\<exists>f. write_file_from_receiver io fsize chunks ts = Inr f)"
  by (cases target) (auto simp: result_rx_def split: sum.splits)

section \<open>Properties\<close>


definition plain_io :: file_io where
  "plain_io = \<lparr>io_open = Inr (), io_old = [], io_write = (\<lambda>_. None), io_flush = Inr (),
     io_set_len = True, io_set_times = True\<rparr>"

lemma save_example:
  "saved (save_req_to_target id [Data_Frame [1, 2], Other_Frame, Data_Frame [], Data_Frame [255]] None
     (Path_Target plain_io) 3 (Some (lit ''0102FF'')) \<lparr>ts_modified = None, ts_accessed = None\<rparr>) = Success"
  by code_simp


text \<open>
  On a working file system the upload of a file to a path succeeds exactly when it should: the
  body arrives to its end, has the announced size and matches the announced checksum, if any.
\<close>

theorem upload_saved_iff_faithful:
  assumes "working io" and "length (body_bytes frames) < 2 ^ 64"
  shows "saved (save_req_to_target sha frames None (Path_Target io) fsize expected ts) = Success \<longleftrightarrow>
    body_complete frames \<and> length (body_bytes frames) = unat fsize \<and>
    checksum_ok sha expected (body_bytes frames)"
proof -
  let ?io = "io\<lparr>io_old := []\<rparr>"
  have io: "working ?io" using assms(1) by (simp add: working_def)
  have rx: "result_rx (Path_Target io) fsize chunks ts = Some (Inr ()) \<longleftrightarrow>
      length (concat chunks) = unat fsize" if "length (concat chunks) < 2 ^ 64" for chunks
    using result_rx_file [of "Path_Target io" ?io] writer_succeeds [OF io] writer_ok(1) [of ?io] that
    by auto
  show ?thesis
    unfolding save_success_iff
    using forward_complete [of frames] forward_ok [of None frames] rx assms(2) by metis
qed

theorem upload_saved_iff_faithful_witness:
  "saved (save_req_to_target id [Data_Frame [1, 2]] None (Path_Target plain_io) 3 None
     \<lparr>ts_modified = None, ts_accessed = None\<rparr>) \<noteq> Success"
  using upload_saved_iff_faithful [of plain_io "[Data_Frame [1, 2]]" id 3 None
      "\<lparr>ts_modified = None, ts_accessed = None\<rparr>"]
  by (simp add: working_def plain_io_def)

end
