(* ===== verification/V2_Session.thy ===== *)
theory V2_Session
  imports Pin Save
begin

text \<open>
  The v2 endpoints (\<open>http/server/v2.rs\<close>, \<open>common/session.rs\<close>, \<open>ServerHandle::cancel_v2_session\<close>):
  the session slot and each handler. A handler is a chain of sections that hold the session lock;
  each section is a definition of its own, which the handlers below and the interleaved server of
  \<open>V2_Server\<close> share. Ids and tokens (the \<open>uuid\<close> crate), parsed bodies (\<open>serde_json\<close>), the answers
  of the application and the PIN cache are arguments.
\<close>

section \<open>The session slot\<close>

datatype file_status = FPending | FInProgress | FFinished | FFailed

record session_file =
  sf_dto :: file_dto
  sf_token :: string
  sf_status :: file_status
  sf_attempts :: u8

text \<open>The cancellation token of a pending request is named by a number.\<close>

record pending_session =
  ps_session_id :: string
  ps_sender_ip :: peer_ip
  ps_cancel :: nat

record upload_session =
  us_session_id :: string
  us_sender_ip :: peer_ip
  us_files :: "(string \<times> session_file) list"

datatype session_state = Pending pending_session | Active upload_session

type_synonym slot = "session_state option"

definition is_complete :: "upload_session \<Rightarrow> bool" where
  "is_complete s = list_all (\<lambda>(_, f). sf_status f = FFinished \<or> sf_status f = FFailed) (us_files s)"

record 'c v2_state =
  v2_pin :: "string option"
  v2_verify_checksums :: bool
  v2_session :: slot
  v2_pin_attempts :: 'c

section \<open>Events\<close>

datatype session_end_reason = Finished | Cancelled

datatype server_event =
    Register peer_ip register_dto_v2
  | PrepareUpload string peer_ip register_dto_v2 "rstring option" "(string \<times> file_dto) list"
  | FileUpload string string file_dto
  | SessionEnd string session_end_reason
  | PrepareUploadAborted string
  | CancelReceived peer_ip string
  | ListenerFailed string

datatype prepare_upload_decision = Accept "string list" | Decline

section \<open>Register and info\<close>

definition info_response :: "client_info \<Rightarrow> bool \<Rightarrow> info_response_v2" where
  "info_response info has_download =
     \<lparr>ir_alias = ci_alias info, ir_version = PROTOCOL_VERSION_V2,
      ir_device_model = ci_device_model info, ir_device_type = ci_device_type info,
      ir_fingerprint = ci_token info, ir_download = has_download\<rparr>"

definition fingerprint_valid :: "(bytes \<Rightarrow> bytes) \<Rightarrow> request_client_info \<Rightarrow> register_dto_v2 \<Rightarrow> bool" where
  "fingerprint_valid sha client payload =
     (case cert_fingerprint sha client of
        Some fp \<Rightarrow> map to_ascii_uppercase (fingerprint payload) = fp
      | None \<Rightarrow> True)"

text \<open>\<open>room\<close>: whether \<open>try_send\<close> finds room in the event channel.\<close>

definition register_v2 ::
  "(bytes \<Rightarrow> bytes) \<Rightarrow> bool \<Rightarrow> bool \<Rightarrow> client_info \<Rightarrow> bool \<Rightarrow> request_client_info \<Rightarrow>
   app_error + register_dto_v2 \<Rightarrow> (app_error + info_response_v2) \<times> server_event list" where
  "register_v2 sha v2_enabled room info has_download client body =
     (case body of
        Inl err \<Rightarrow> (Inl err, [])
      | Inr payload \<Rightarrow>
          (Inr (info_response info has_download),
           if v2_enabled \<and> fingerprint_valid sha client payload \<and> room
           then [Register (peer client) payload] else []))"

definition info_v2 :: "client_info \<Rightarrow> bool \<Rightarrow> app_error + info_response_v2" where
  "info_v2 info has_download = Inr (info_response info has_download)"

section \<open>Sections of prepare-upload\<close>

definition claim_slot :: "string \<Rightarrow> peer_ip \<Rightarrow> nat \<Rightarrow> slot \<Rightarrow> app_error + slot" where
  "claim_slot sid addr tok slot =
     (if slot \<noteq> None then Inl (Message 409 ''Blocked by another session'')
      else Inr (Some (Pending \<lparr>ps_session_id = sid, ps_sender_ip = addr, ps_cancel = tok\<rparr>)))"

fun clear_pending_session :: "slot \<Rightarrow> slot" where
  "clear_pending_session (Some (Pending p)) = None"
| "clear_pending_session slot = slot"

definition accepted_files ::
  "(string \<Rightarrow> string) \<Rightarrow> (string \<times> file_dto) list \<Rightarrow> string list \<Rightarrow> (string \<times> session_file) list" where
  "accepted_files new_token files accepted_ids =
     map (\<lambda>(id, dto). (id, \<lparr>sf_dto = dto, sf_token = new_token id, sf_status = FPending,
                             sf_attempts = 0\<rparr>))
       (filter (\<lambda>(id, _). id \<in> set accepted_ids) files)"

datatype prepare_ok = Session string "(string \<times> string) list" | NoContent

type_synonym prepare_reply = "app_error + prepare_ok"

text \<open>What the handler is woken with: the decision, its channel dropped, or a cancel by the sender.\<close>

datatype wake = Decided prepare_upload_decision | DecisionDropped | CancelledBySender

text \<open>
  How the handler goes on: it returns with its guard armed, it clears the slot itself and returns,
  or it installs the accepted files as the active session.
\<close>

datatype prepare_next =
    ReturnArmed app_error
  | ClearAndReturn prepare_reply
  | Install "(string \<times> session_file) list"

fun after_decision ::
  "(string \<Rightarrow> string) \<Rightarrow> (string \<times> file_dto) list \<Rightarrow> wake \<Rightarrow> prepare_next" where
  "after_decision new_token files DecisionDropped = ReturnArmed (Status 500)"
| "after_decision new_token files CancelledBySender =
     ReturnArmed (Message 403 ''Cancelled by sender'')"
| "after_decision new_token files (Decided Decline) =
     ClearAndReturn (Inl (Message 403 ''Rejected''))"
| "after_decision new_token files (Decided (Accept ids)) =
     (let fs = accepted_files new_token files ids
      in if fs = [] then ClearAndReturn (Inr NoContent) else Install fs)"

definition install_session :: "string \<Rightarrow> peer_ip \<Rightarrow> (string \<times> session_file) list \<Rightarrow> slot" where
  "install_session sid addr fs =
     Some (Active \<lparr>us_session_id = sid, us_sender_ip = addr, us_files = fs\<rparr>)"

definition session_reply :: "string \<Rightarrow> (string \<times> session_file) list \<Rightarrow> prepare_reply" where
  "session_reply sid fs = Inr (Session sid (map (\<lambda>(id, f). (id, sf_token f)) fs))"

section \<open>Prepare-upload\<close>

record prepare_request =
  pr_info :: register_dto_v2
  pr_files :: "(string \<times> file_dto) list"

definition require_v2 :: "'c v2_state option \<Rightarrow> app_error + 'c v2_state" where
  "require_v2 v2 = (case v2 of Some s \<Rightarrow> Inr s | None \<Rightarrow> Inl (Status 404))"

text \<open>
  The handler when nothing interleaves with it. \<open>sid\<close>, \<open>tok\<close>, \<open>new_token\<close> are the fresh values it
  draws, \<open>sent\<close> tells whether the application still receives events and \<open>woken\<close> how the wait ends.
  A return with the guard armed clears the slot and emits \<open>PrepareUploadAborted\<close>.
\<close>

definition prepare_upload ::
  "'c lru_ops \<Rightarrow> (bytes \<Rightarrow> bytes) \<Rightarrow> 'c v2_state option \<Rightarrow> query \<Rightarrow> request_client_info \<Rightarrow>
   app_error + prepare_request \<Rightarrow> string \<Rightarrow> nat \<Rightarrow> (string \<Rightarrow> string) \<Rightarrow> bool \<Rightarrow> wake \<Rightarrow>
   prepare_reply \<times> 'c v2_state option \<times> server_event list" where
  "prepare_upload ops sha v2opt query client body sid tok new_token sent woken =
     (case require_v2 v2opt of
        Inl err \<Rightarrow> (Inl err, v2opt, [])
      | Inr v2 \<Rightarrow>
          (case check_pin ops (v2_pin v2) (v2_pin_attempts v2) query (ip (peer client)) of
             (Inl err, attempts) \<Rightarrow> (Inl err, Some (v2\<lparr>v2_pin_attempts := attempts\<rparr>), [])
           | (Inr _, attempts) \<Rightarrow>
               (let v2 = v2\<lparr>v2_pin_attempts := attempts\<rparr>
                in case body of
                     Inl err \<Rightarrow> (Inl err, Some v2, [])
                   | Inr payload \<Rightarrow>
                       if pr_files payload = [] then (Inl (BadRequest ''No files provided''), Some v2, [])
                       else case claim_slot sid (peer client) tok (v2_session v2) of
                         Inl err \<Rightarrow> (Inl err, Some v2, [])
                       | Inr slot \<Rightarrow>
                           let freed = v2\<lparr>v2_session := clear_pending_session slot\<rparr>;
                               asked = PrepareUpload sid (peer client) (pr_info payload)
                                 (cert_fingerprint sha client) (pr_files payload)
                           in if \<not> sent then (Inl (Status 500), Some freed, [])
                              else case after_decision new_token (pr_files payload) woken of
                                ReturnArmed err \<Rightarrow>
                                  (Inl err, Some freed, [asked, PrepareUploadAborted sid])
                              | ClearAndReturn reply \<Rightarrow> (reply, Some freed, [asked])
                              | Install fs \<Rightarrow>
                                  (session_reply sid fs,
                                   Some (v2\<lparr>v2_session := install_session sid (peer client) fs\<rparr>),
                                   [asked]))))"

section \<open>Upload\<close>

definition invalid_token_error :: app_error where
  "invalid_token_error = Message 403 ''Invalid token or IP address''"

definition saturating_inc :: "u8 \<Rightarrow> u8" where
  "saturating_inc n = (if n = 255 then 255 else n + 1)"

text \<open>The first section: validate the request and mark the file as in progress.\<close>

definition begin_upload ::
  "string \<Rightarrow> string \<Rightarrow> string \<Rightarrow> peer_ip \<Rightarrow> slot \<Rightarrow> app_error + (file_dto \<times> slot)" where
  "begin_upload sid fid token addr slot =
     (case slot of
        Some (Active s) \<Rightarrow>
          if us_session_id s \<noteq> sid \<or> us_sender_ip s \<noteq> addr then Inl invalid_token_error
          else (case map_of (us_files s) fid of
                  None \<Rightarrow> Inl invalid_token_error
                | Some f \<Rightarrow>
                    if sf_token f \<noteq> token \<or> sf_status f \<noteq> FPending then Inl invalid_token_error
                    else Inr (sf_dto f, Some (Active (s\<lparr>us_files := AList.map_entry fid
                           (\<lambda>f. f\<lparr>sf_status := FInProgress, sf_attempts := saturating_inc (sf_attempts f)\<rparr>)
                           (us_files s)\<rparr>))))
      | _ \<Rightarrow> Inl invalid_token_error)"

definition MAX_UPLOAD_ATTEMPTS :: u8 where
  "MAX_UPLOAD_ATTEMPTS = 3"

fun final_status :: "save_result \<Rightarrow> u8 \<Rightarrow> file_status" where
  "final_status Success n = FFinished"
| "final_status HashMismatch n = (if n < MAX_UPLOAD_ATTEMPTS then FPending else FFailed)"
| "final_status Failed n = FFailed"

text \<open>The last section; the flag tells whether the session ended with it.\<close>

definition finalize_file :: "string \<Rightarrow> string \<Rightarrow> save_result \<Rightarrow> slot \<Rightarrow> slot \<times> bool" where
  "finalize_file sid fid result slot =
     (case slot of
        Some (Active s) \<Rightarrow>
          if us_session_id s \<noteq> sid then (slot, False)
          else let s' = s\<lparr>us_files := AList.map_entry fid
                      (\<lambda>f. if sf_status f = FInProgress
                           then f\<lparr>sf_status := final_status result (sf_attempts f)\<rparr> else f)
                      (us_files s)\<rparr>
               in if is_complete s' then (None, True) else (Some (Active s'), False)
      | _ \<Rightarrow> (slot, False))"

fun upload_reply :: "save_result \<Rightarrow> app_error + unit" where
  "upload_reply Success = Inr ()"
| "upload_reply Failed = Inl (Status 500)"
| "upload_reply HashMismatch = Inl (Message 422 ''Checksum mismatch'')"

definition file_timestamps :: "(string \<Rightarrow> nat option) \<Rightarrow> file_dto \<Rightarrow> timestamps" where
  "file_timestamps parse dto =
     (case metadata dto of
        Some m \<Rightarrow> \<lparr>ts_modified = Option.bind (modified m) parse,
                    ts_accessed = Option.bind (accessed m) parse\<rparr>
      | None \<Rightarrow> \<lparr>ts_modified = None, ts_accessed = None\<rparr>)"

text \<open>
  The handler when nothing interleaves with it: \<open>sent\<close> tells whether the application still receives
  events, \<open>target\<close> is its answer (\<open>None\<close>: dropped); \<open>frames\<close> and \<open>limit\<close> are the body and how far
  the target takes it. \<open>parse\<close> reads RFC 3339 timestamps (the \<open>time\<close> crate).
\<close>

definition upload ::
  "(bytes \<Rightarrow> bytes) \<Rightarrow> (string \<Rightarrow> nat option) \<Rightarrow> 'c v2_state option \<Rightarrow> query \<Rightarrow> peer_ip \<Rightarrow> bool \<Rightarrow>
   file_upload_target option \<Rightarrow> body_frame list \<Rightarrow> nat option \<Rightarrow>
   (app_error + unit) \<times> 'c v2_state option \<times> server_event list" where
  "upload sha parse v2opt query addr sent target frames limit =
     (case require_v2 v2opt of
        Inl err \<Rightarrow> (Inl err, v2opt, [])
      | Inr v2 \<Rightarrow>
          (case (query ''sessionId'', query ''fileId'', query ''token'') of
             (Some sid, Some fid, Some token) \<Rightarrow>
               (case begin_upload sid fid token addr (v2_session v2) of
                  Inl err \<Rightarrow> (Inl err, v2opt, [])
                | Inr (dto, slot) \<Rightarrow>
                    let expected = (if v2_verify_checksums v2 then sha256 dto else None);
                        asked = FileUpload sid fid dto;
                        result = (if \<not> sent then Failed
                                  else case target of
                                    None \<Rightarrow> Failed
                                  | Some t \<Rightarrow> saved (save_req_to_target sha frames limit t (size_of dto)
                                                expected (file_timestamps parse dto)));
                        (slot', ended) = finalize_file sid fid result slot
                    in (upload_reply result,
                        Some (v2\<lparr>v2_session := slot'\<rparr>),
                        if sent then asked # (if ended then [SessionEnd sid Finished] else []) else []))
           | _ \<Rightarrow> (Inl (Message 400 ''Missing parameters''), v2opt, [])))"

section \<open>Cancel\<close>

text \<open>The first section: the token of the pending request to cancel, if the cancel is for it.\<close>

definition cancel_pending :: "peer_ip \<Rightarrow> string option \<Rightarrow> slot \<Rightarrow> nat option" where
  "cancel_pending addr sid slot =
     (case slot of
        Some (Pending p) \<Rightarrow>
          if ps_sender_ip p = addr \<and> (case sid of None \<Rightarrow> True | Some i \<Rightarrow> i = ps_session_id p)
          then Some (ps_cancel p) else None
      | _ \<Rightarrow> None)"

definition cancel_active :: "peer_ip \<Rightarrow> string \<Rightarrow> slot \<Rightarrow> slot \<times> bool" where
  "cancel_active addr sid slot =
     (case slot of
        Some (Active s) \<Rightarrow>
          if us_session_id s = sid \<and> us_sender_ip s = addr then (None, True) else (slot, False)
      | _ \<Rightarrow> (slot, False))"

text \<open>The handler: the answer is always 200; also the token it fires.\<close>

definition cancel ::
  "'c v2_state option \<Rightarrow> query \<Rightarrow> peer_ip \<Rightarrow>
   (app_error + unit) \<times> 'c v2_state option \<times> nat option \<times> server_event list" where
  "cancel v2opt query addr =
     (case require_v2 v2opt of
        Inl err \<Rightarrow> (Inl err, v2opt, None, [])
      | Inr v2 \<Rightarrow>
          (case cancel_pending addr (query ''sessionId'') (v2_session v2) of
             Some tok \<Rightarrow> (Inr (), v2opt, Some tok, [])
           | None \<Rightarrow>
               (case query ''sessionId'' of
                  None \<Rightarrow> (Inr (), v2opt, None, [])
                | Some sid \<Rightarrow>
                    (case cancel_active addr sid (v2_session v2) of
                       (slot, True) \<Rightarrow>
                         (Inr (), Some (v2\<lparr>v2_session := slot\<rparr>), None, [SessionEnd sid Cancelled])
                     | (slot, False) \<Rightarrow>
                         (Inr (), v2opt, None, [CancelReceived addr sid])))))"

text \<open>The application's own cancellation.\<close>

definition cancel_v2_session :: "string \<Rightarrow> slot \<Rightarrow> slot \<times> bool" where
  "cancel_v2_session sid slot =
     (case slot of
        Some (Active s) \<Rightarrow> if us_session_id s = sid then (None, True) else (slot, False)
      | _ \<Rightarrow> (slot, False))"

section \<open>Well-formed sessions\<close>

text \<open>
  A file that waits has attempts left, one that was tried has used one to three of them; an active
  session has each file once and still has something to do.
\<close>

definition file_ok :: "session_file \<Rightarrow> bool" where
  "file_ok f \<longleftrightarrow> (if sf_status f = FPending then sf_attempts f < 3
                   else 1 \<le> sf_attempts f \<and> sf_attempts f \<le> 3)"

definition session_ok :: "upload_session \<Rightarrow> bool" where
  "session_ok s \<longleftrightarrow> distinct (map fst (us_files s)) \<and>
     list_all (\<lambda>(_, f). file_ok f) (us_files s) \<and> \<not> is_complete s"

fun slot_ok :: "slot \<Rightarrow> bool" where
  "slot_ok (Some (Active s)) = session_ok s"
| "slot_ok slot = True"


lemma list_all_map_entry:
  assumes "list_all (\<lambda>(_, f). P f) xs" and "\<And>f. (k, f) \<in> set xs \<Longrightarrow> P f \<Longrightarrow> P (g f)"
  shows "list_all (\<lambda>(_, f). P f) (AList.map_entry k g xs)"
  using assms by (induction xs) auto

lemma list_all_map_of: "list_all (\<lambda>(_, f). P f) xs \<Longrightarrow> map_of xs k = Some f \<Longrightarrow> P f"
  by (auto simp: list_all_iff dest!: map_of_SomeD)

lemma map_entry_keys [simp]: "map fst (AList.map_entry k g xs) = map fst xs"
  by (induction xs) auto


lemma list_all_map_entry_one:
  assumes "list_all (\<lambda>(_, f). P f) xs" and "distinct (map fst xs)"
    and "\<And>f. map_of xs k = Some f \<Longrightarrow> P f \<Longrightarrow> P (g f)"
  shows "list_all (\<lambda>(_, f). P f) (AList.map_entry k g xs)"
  using assms(1) by (rule list_all_map_entry) (use assms(2,3) in auto)

lemma saturating_inc_ok: "n < 3 \<Longrightarrow> 1 \<le> saturating_inc n \<and> saturating_inc n \<le> 3"
proof -
  assume n: "n < 3"
  then have "n + 1 \<le> 3" "1 \<le> n + 1"
    by (simp_all add: word_less_nat_alt word_le_nat_alt unat_word_ariths)
  moreover have "n \<noteq> 255" using n by auto
  ultimately show ?thesis by (simp add: saturating_inc_def)
qed

lemma map_of_map_entry_eq:
  "map_of (AList.map_entry k g xs) k = map_option g (map_of xs k)"
  "i \<noteq> k \<Longrightarrow> map_of (AList.map_entry k g xs) i = map_of xs i"
  by (simp_all add: AList.map_of_map_entry split: option.split)

lemma begin_upload_cases:
  assumes "begin_upload sid fid token addr slot = Inr (dto, slot')"
  obtains s f where "slot = Some (Active s)" "us_session_id s = sid" "us_sender_ip s = addr"
    "map_of (us_files s) fid = Some f" "sf_token f = token" "sf_status f = FPending"
    "dto = sf_dto f"
    "slot' = Some (Active (s\<lparr>us_files := AList.map_entry fid
       (\<lambda>f. f\<lparr>sf_status := FInProgress, sf_attempts := saturating_inc (sf_attempts f)\<rparr>)
       (us_files s)\<rparr>))"
  using assms
  by (auto simp: begin_upload_def split: option.splits session_state.splits if_splits)

lemma begin_upload_ok [preserved]:
  assumes "begin_upload sid fid token addr slot = Inr (dto, slot')" and "slot_ok slot"
  shows "slot_ok slot'"
proof (rule begin_upload_cases [OF assms(1)])
  let ?g = "\<lambda>f. f\<lparr>sf_status := FInProgress, sf_attempts := saturating_inc (sf_attempts f)\<rparr>"
  fix s f
  assume s: "slot = Some (Active s)" "map_of (us_files s) fid = Some f" "sf_status f = FPending"
    and slot': "slot' = Some (Active (s\<lparr>us_files := AList.map_entry fid ?g (us_files s)\<rparr>))"
  let ?s = "s\<lparr>us_files := AList.map_entry fid ?g (us_files s)\<rparr>"
  have ok: "session_ok s" using s assms(2) by simp
  then have "file_ok f"
    using list_all_map_of [of file_ok "us_files s" fid f] s(2) by (simp add: session_ok_def)
  then have "file_ok (?g f)" using s(3) saturating_inc_ok by (simp add: file_ok_def)
  then have "list_all (\<lambda>(_, f). file_ok f) (AList.map_entry fid ?g (us_files s))"
    using ok s(2) by (intro list_all_map_entry_one) (auto simp: session_ok_def)
  moreover have "map_of (us_files ?s) fid = Some (?g f)"
    using s(2) by (simp add: map_of_map_entry_eq)
  then have "(fid, ?g f) \<in> set (us_files ?s)" by (rule map_of_SomeD)
  then have "\<not> is_complete ?s"
    unfolding is_complete_def list_all_iff by (intro notI) (drule (1) bspec, simp)
  ultimately show ?thesis using slot' ok by (simp add: session_ok_def)
qed

lemma final_status_ok:
  "file_ok f \<Longrightarrow> sf_status f = FInProgress \<Longrightarrow>
   file_ok (f\<lparr>sf_status := final_status result (sf_attempts f)\<rparr>)"
  by (cases result) (auto simp: file_ok_def MAX_UPLOAD_ATTEMPTS_def)

lemma finalize_file_ok [preserved]: "slot_ok slot \<Longrightarrow> slot_ok (fst (finalize_file sid fid result slot))"
proof (cases slot rule: slot_ok.cases)
  case (1 s)
  assume "slot_ok slot"
  then have ok: "session_ok s" using 1 by simp
  let ?g = "\<lambda>f. if sf_status f = FInProgress
      then f\<lparr>sf_status := final_status result (sf_attempts f)\<rparr> else f"
  have "list_all (\<lambda>(_, f). file_ok f) (AList.map_entry fid ?g (us_files s))"
    using ok final_status_ok by (intro list_all_map_entry) (auto simp: session_ok_def)
  then show ?thesis using 1 ok by (simp add: finalize_file_def session_ok_def Let_def)
qed (simp_all add: finalize_file_def)

lemma accepted_files_keys:
  "map fst (accepted_files new_token files ids) = filter (\<lambda>i. i \<in> set ids) (map fst files)"
  by (induction files) (auto simp: accepted_files_def)

lemma install_ok [preserved]:
  assumes "distinct (map fst files)" and "after_decision new_token files w = Install fs"
  shows "slot_ok (install_session sid addr fs)"
proof -
  obtain ids where fs: "fs = accepted_files new_token files ids" "fs \<noteq> []"
    using assms(2) by (cases "(new_token, files, w)" rule: after_decision.cases)
      (auto simp: Let_def split: if_splits)
  have "list_all (\<lambda>(_, f). sf_status f = FPending \<and> sf_attempts f = 0) fs"
    unfolding fs accepted_files_def by (auto simp: list_all_iff)
  moreover have "distinct (map fst fs)" using assms(1) by (simp add: fs accepted_files_keys)
  ultimately show ?thesis
    using fs(2) by (cases fs)
      (auto simp: install_session_def session_ok_def is_complete_def file_ok_def list_all_iff)
qed

lemma claim_ok [preserved]: "claim_slot sid addr tok slot = Inr slot' \<Longrightarrow> slot_ok slot'"
  by (auto simp: claim_slot_def split: if_splits)

lemma clear_ok [preserved]: "slot_ok slot \<Longrightarrow> slot_ok (clear_pending_session slot)"
  by (cases slot rule: slot_ok.cases) simp_all

lemma cancel_active_ok [preserved]: "slot_ok slot \<Longrightarrow> slot_ok (fst (cancel_active addr sid slot))"
  by (auto simp: cancel_active_def split: option.splits session_state.splits)

lemma cancel_v2_session_ok [preserved]: "slot_ok slot \<Longrightarrow> slot_ok (fst (cancel_v2_session sid slot))"
  by (auto simp: cancel_v2_session_def split: option.splits session_state.splits)

section \<open>Properties\<close>

lemma after_decision_install:
  "after_decision new_token files w = Install fs \<Longrightarrow>
   fs \<noteq> [] \<and> (\<exists>ids. w = Decided (Accept ids) \<and> fs = accepted_files new_token files ids)"
  by (cases "(new_token, files, w)" rule: after_decision.cases) (auto simp: Let_def split: if_splits)

lemma after_decision_clear:
  "after_decision new_token files w = ClearAndReturn reply \<Longrightarrow> reply \<noteq> Inr (Session i toks)"
  by (cases "(new_token, files, w)" rule: after_decision.cases) (auto simp: Let_def split: if_splits)

lemma claim_slot_Inr:
  "claim_slot sid addr tok slot = Inr slot' \<Longrightarrow> slot = None \<and> clear_pending_session slot' = None"
  by (auto simp: claim_slot_def split: if_splits)

text \<open>
  C14. A prepare-upload that runs undisturbed leaves the session slot exactly as it found it, busy or
  free, whichever way it fails or is declined; only an accepted one installs a session, in a free
  slot, with the id, the address and the tokens the sender is told, for files the sender offered.
\<close>

theorem prepare_upload_slot:
  assumes "prepare_upload ops sha (Some v2) query client (Inr payload) sid tok new_token sent w =
    (reply, Some v2', events)"
  shows "case reply of
    Inr (Session i toks) \<Rightarrow> i = sid \<and> v2_session v2 = None \<and>
      (\<exists>s. v2_session v2' = Some (Active s) \<and> us_session_id s = sid \<and>
        us_sender_ip s = peer client \<and> us_files s \<noteq> [] \<and>
        toks = map (\<lambda>(i, f). (i, sf_token f)) (us_files s) \<and>
        (\<exists>ids. w = Decided (Accept ids) \<and> us_files s = accepted_files new_token (pr_files payload) ids))
  | _ \<Rightarrow> v2_session v2' = v2_session v2"
proof -
  obtain c attempts where chk:
    "check_pin ops (v2_pin v2) (v2_pin_attempts v2) query (ip (peer client)) = (c, attempts)" by fastforce
  note run = assms [unfolded prepare_upload_def require_v2_def, simplified, unfolded chk, simplified]
  show ?thesis
  proof (cases "claim_slot sid (peer client) tok (v2_session v2)")
    case (Inl e)
    then show ?thesis using run by (auto simp: Let_def split: sum.splits if_splits)
  next
    case (Inr slot)
    note free = claim_slot_Inr [OF Inr]
    show ?thesis
      using run Inr free after_decision_install [of new_token "pr_files payload" w]
        after_decision_clear [of new_token "pr_files payload" w]
      by (auto simp: Let_def session_reply_def install_session_def
          split: sum.splits if_splits prepare_next.splits prepare_ok.splits)
  qed
qed

definition sample_dto :: "string \<Rightarrow> u64 \<Rightarrow> file_dto" where
  "sample_dto i n = \<lparr>dto_id = i, file_name = lit ''a.txt'', size_of = n, file_type = ''text/plain'',
     sha256 = None, preview = None, metadata = None\<rparr>"

definition sample_info :: register_dto_v2 where
  "sample_info = \<lparr>dto_alias = ''Nice Orange'', version = ''2.2'', device_model = None,
     device_type = Some Mobile, fingerprint = lit ''ab'', port = 48855, protocol = Https,
     download = False\<rparr>"

definition sample_client :: request_client_info where
  "sample_client = \<lparr>peer = \<lparr>ip = V4 7, scope_id = None\<rparr>, cert = Some [171]\<rparr>"

definition free_state :: "lru_list v2_state" where
  "free_state = \<lparr>v2_pin = None, v2_verify_checksums = True, v2_session = None, v2_pin_attempts = []\<rparr>"

lemma prepare_upload_example:
  "prepare_upload (list_lru PIN_CACHE_CAPACITY) id (Some free_state) Map.empty sample_client
     (Inr \<lparr>pr_info = sample_info, pr_files = [(''f1'', sample_dto ''f1'' 2)]\<rparr>) ''s1'' 0 id True
     (Decided (Accept [''f1''])) =
   (Inr (Session ''s1'' [(''f1'', ''f1'')]),
    Some (free_state\<lparr>v2_session := install_session ''s1'' (peer sample_client)
      (accepted_files id [(''f1'', sample_dto ''f1'' 2)] [''f1''])\<rparr>),
    [PrepareUpload ''s1'' (peer sample_client) sample_info (Some (lit ''AB''))
      [(''f1'', sample_dto ''f1'' 2)]])"
  by (simp add: prepare_upload_def require_v2_def check_pin_def free_state_def claim_slot_def
      accepted_files_def session_reply_def cert_fingerprint_def sample_client_def
      fingerprint_from_cert_der_def hex_byte_def hex_digit_def lit_def)

theorem prepare_upload_slot_witness:
  "\<exists>s. v2_session (free_state\<lparr>v2_session := install_session ''s1'' (peer sample_client)
      (accepted_files id [(''f1'', sample_dto ''f1'' 2)] [''f1''])\<rparr>) = Some (Active s) \<and>
     us_files s \<noteq> []"
  using prepare_upload_slot [OF prepare_upload_example] by auto

text \<open>
  C4. Nothing of an upload reaches the application or the session unless the request names the
  active session from the address that opened it, and gives the token of a file that waits: every
  other request leaves slot and application untouched and is refused.
\<close>

theorem upload_only_authorized:
  assumes "upload sha parse (Some v2) query addr sent target frames limit = (reply, Some v2', events)"
    and "v2' \<noteq> v2 \<or> events \<noteq> [] \<or> reply = Inr ()"
  shows "\<exists>s sid fid f. v2_session v2 = Some (Active s) \<and> us_session_id s = sid \<and>
    us_sender_ip s = addr \<and> map_of (us_files s) fid = Some f \<and> sf_status f = FPending \<and>
    query ''sessionId'' = Some sid \<and> query ''fileId'' = Some fid \<and> query ''token'' = Some (sf_token f)"
proof (cases "(query ''sessionId'', query ''fileId'', query ''token'')")
  case (fields a b c)
  show ?thesis
  proof (cases "a \<noteq> None \<and> b \<noteq> None \<and> c \<noteq> None")
    case False
    then show ?thesis
      using assms fields by (auto simp: upload_def require_v2_def split: option.splits)
  next
    case True
    then obtain sid fid token where q: "query ''sessionId'' = Some sid" "query ''fileId'' = Some fid"
      "query ''token'' = Some token" using fields by auto
    obtain dto slot where b: "begin_upload sid fid token addr (v2_session v2) = Inr (dto, slot)"
      using assms q by (cases "begin_upload sid fid token addr (v2_session v2)")
        (auto simp: upload_def require_v2_def)
    show ?thesis using q by (rule_tac begin_upload_cases [OF b]) auto
  qed
qed

definition open_state :: "lru_list v2_state" where
  "open_state = free_state\<lparr>v2_session := install_session ''s1'' (peer sample_client)
     (accepted_files id [(''f1'', sample_dto ''f1'' 2)] [''f1''])\<rparr>"

definition upload_query :: query where
  "upload_query = [''sessionId'' \<mapsto> ''s1'', ''fileId'' \<mapsto> ''f1'', ''token'' \<mapsto> ''f1'']"

lemma upload_example:
  "upload id (\<lambda>_. None) (Some open_state) upload_query (peer sample_client) True
     (Some (Path_Target plain_io)) [Data_Frame [1, 2]] None =
   (Inr (), Some free_state, [FileUpload ''s1'' ''f1'' (sample_dto ''f1'' 2), SessionEnd ''s1'' Finished])"
proof -
  have saved: "saved (save_req_to_target id [Data_Frame [1, 2]] None (Path_Target plain_io) 2 None
      \<lparr>ts_modified = None, ts_accessed = None\<rparr>) = Success"
    by code_simp
  show ?thesis
    using saved
    by (simp add: upload_def require_v2_def open_state_def free_state_def upload_query_def
        install_session_def accepted_files_def begin_upload_def finalize_file_def is_complete_def
        sample_dto_def file_timestamps_def Let_def)
qed

theorem upload_only_authorized_witness:
  "\<exists>s. v2_session open_state = Some (Active s) \<and> us_session_id s = ''s1''"
  using upload_only_authorized [OF upload_example] by (auto simp: upload_query_def)

text \<open>
  A register event carries a fingerprint the peer has proven whenever the peer presented a
  certificate: the claimed fingerprint is, in any letter case, the one of that certificate.
\<close>

theorem register_proven_with_certificate:
  assumes "register_v2 sha enabled room info has_download client body = (reply, events)"
    and "Register addr payload \<in> set events" and "cert client = Some der"
  shows "map to_ascii_uppercase (fingerprint payload) = fingerprint_from_cert_der sha der"
  using assms
  by (auto simp: register_v2_def fingerprint_valid_def cert_fingerprint_def
      split: sum.splits if_splits)

theorem register_proven_with_certificate_witness:
  "map to_ascii_uppercase (fingerprint sample_info) = fingerprint_from_cert_der id [171]"
  by (rule register_proven_with_certificate
      [of id True True info False sample_client "Inr sample_info" _ _ "peer sample_client", OF surjective_pairing])
    (simp_all add: register_v2_def fingerprint_valid_def cert_fingerprint_def sample_info_def
      sample_client_def fingerprint_from_cert_der_def hex_byte_def hex_digit_def lit_def
      to_ascii_uppercase_def)

end
