(* ===== verification/V2_Server.thy ===== *)
theory V2_Server
  imports V2_Session
begin

text \<open>
  The v2 server as its requests interleave (\<open>http/server/v2.rs\<close>): every request handler and every
  task its guards spawn is a task of the machine, and a step is what one of them does between two
  awaits. A task may be dropped wherever the handler awaits, as hyper does when the connection
  closes; \<open>PendingSessionGuard\<close> and \<open>UploadGuard\<close> then spawn their cleanup, if still armed.
\<close>

section \<open>Tasks\<close>

datatype task =
    PSending string peer_ip register_dto_v2 "rstring option" "(string \<times> file_dto) list"
      \<comment> \<open>prepare-upload, slot claimed, sending its event\<close>
  | PDeciding string peer_ip "(string \<times> file_dto) list"
      \<comment> \<open>waiting for the decision or a cancel\<close>
  | PClearing string prepare_reply
      \<comment> \<open>in \<open>pending_guard.clear()\<close>: disarmed, waiting for the lock\<close>
  | PInstalling string peer_ip "(string \<times> session_file) list"
      \<comment> \<open>waiting for the lock to install the session, guard armed\<close>
  | Cleanup string
      \<comment> \<open>spawned by the drop of \<open>PendingSessionGuard\<close>\<close>
  | USending string string file_dto
      \<comment> \<open>upload, file in progress, sending its event\<close>
  | USaving string string
      \<comment> \<open>waiting for the target, then receiving the body\<close>
  | UFinishing string string save_result
      \<comment> \<open>in \<open>upload_guard.finish()\<close>: disarmed, waiting for the lock\<close>
  | UFinalizer string string
      \<comment> \<open>spawned by the drop of \<open>UploadGuard\<close>\<close>
  | Cancelling peer_ip string
      \<comment> \<open>cancel, between its two sections\<close>
  | Notifying server_event
      \<comment> \<open>sending an event after the lock was released\<close>

text \<open>The state: \<open>fired\<close> are the cancelled tokens, \<open>used\<close> the session ids drawn, \<open>granted\<close> those of
  the sessions installed, \<open>acked\<close> those of the pending requests whose cancel was answered.\<close>

record server =
  sv_slot :: slot
  tasks :: "nat \<Rightarrow> task option"
  next_id :: nat
  fired :: "nat set"
  used :: "string set"
  granted :: "string set"
  acked :: "string set"
  log :: "server_event list"

definition start_server :: server where
  "start_server = \<lparr>sv_slot = None, tasks = (\<lambda>_. None), next_id = 0, fired = {}, used = {},
     granted = {}, acked = {}, log = []\<rparr>"

definition spawn :: "task \<Rightarrow> server \<Rightarrow> server" where
  "spawn t s = s\<lparr>tasks := (tasks s)(next_id s \<mapsto> t), next_id := Suc (next_id s)\<rparr>"

definition become :: "nat \<Rightarrow> task option \<Rightarrow> server \<Rightarrow> server" where
  "become n t s = s\<lparr>tasks := (tasks s)(n := t)\<rparr>"

text \<open>What is left of a handler dropped at an await, if it can be dropped: the first \<open>None\<close> is for
  the spawned tasks, which run to their end.\<close>

fun dropped :: "task \<Rightarrow> task option option" where
  "dropped (PSending sid addr info crt files) = Some (Some (Cleanup sid))"
| "dropped (PDeciding sid addr files) = Some (Some (Cleanup sid))"
| "dropped (PInstalling sid addr fs) = Some (Some (Cleanup sid))"
| "dropped (PClearing sid reply) = Some None"
| "dropped (USending sid fid dto) = Some (Some (UFinalizer sid fid))"
| "dropped (USaving sid fid) = Some (Some (UFinalizer sid fid))"
| "dropped (UFinishing sid fid r) = Some None"
| "dropped (Cancelling addr sid) = Some None"
| "dropped (Notifying ev) = Some None"
| "dropped (Cleanup sid) = None"
| "dropped (UFinalizer sid fid) = None"

section \<open>Steps\<close>

inductive sstep :: "server \<Rightarrow> server \<Rightarrow> bool" where
  claim:
    "\<lbrakk>sid \<notin> used s; files \<noteq> []; distinct (map fst files);
      claim_slot sid addr (next_id s) (sv_slot s) = Inr slot\<rbrakk> \<Longrightarrow>
     sstep s (spawn (PSending sid addr info crt files)
               (s\<lparr>sv_slot := slot, used := insert sid (used s)\<rparr>))"
| prepare_sent:
    "tasks s n = Some (PSending sid addr info crt files) \<Longrightarrow>
     sstep s (become n (Some (PDeciding sid addr files)) (s\<lparr>log := log s @ [PrepareUpload sid addr info crt files]\<rparr>))"
| prepare_send_failed:
    "tasks s n = Some (PSending sid addr info crt files) \<Longrightarrow>
     sstep s (become n (Some (Cleanup sid)) s)"
| prepare_returns_armed:
    "\<lbrakk>tasks s n = Some (PDeciding sid addr files); w = CancelledBySender \<longrightarrow> n \<in> fired s;
      after_decision new_token files w = ReturnArmed err\<rbrakk> \<Longrightarrow>
     sstep s (become n (Some (Cleanup sid)) s)"
| prepare_clears:
    "\<lbrakk>tasks s n = Some (PDeciding sid addr files);
      after_decision new_token files w = ClearAndReturn reply\<rbrakk> \<Longrightarrow>
     sstep s (become n (Some (PClearing sid reply)) s)"
| prepare_accepted:
    "\<lbrakk>tasks s n = Some (PDeciding sid addr files);
      after_decision new_token files w = Install fs\<rbrakk> \<Longrightarrow>
     sstep s (become n (Some (PInstalling sid addr fs)) s)"
| clear:
    "tasks s n = Some (PClearing sid reply) \<Longrightarrow>
     sstep s (become n None (s\<lparr>sv_slot := clear_pending_session (sv_slot s)\<rparr>))"
| install:
    "tasks s n = Some (PInstalling sid addr fs) \<Longrightarrow>
     sstep s (become n None
       (s\<lparr>sv_slot := install_session sid addr fs, granted := insert sid (granted s)\<rparr>))"
| cleanup:
    "tasks s n = Some (Cleanup sid) \<Longrightarrow>
     sstep s (become n (Some (Notifying (PrepareUploadAborted sid)))
       (s\<lparr>sv_slot := clear_pending_session (sv_slot s)\<rparr>))"
| upload_begins:
    "begin_upload sid fid token addr (sv_slot s) = Inr (dto, slot) \<Longrightarrow>
     sstep s (spawn (USending sid fid dto) (s\<lparr>sv_slot := slot\<rparr>))"
| upload_sent:
    "tasks s n = Some (USending sid fid dto) \<Longrightarrow>
     sstep s (become n (Some (USaving sid fid)) (s\<lparr>log := log s @ [FileUpload sid fid dto]\<rparr>))"
| upload_send_failed:
    "tasks s n = Some (USending sid fid dto) \<Longrightarrow>
     sstep s (become n (Some (UFinishing sid fid Failed)) s)"
| upload_saved:
    "tasks s n = Some (USaving sid fid) \<Longrightarrow>
     sstep s (become n (Some (UFinishing sid fid result)) s)"
| upload_finishes:
    "\<lbrakk>tasks s n = Some (UFinishing sid fid result);
      finalize_file sid fid result (sv_slot s) = (slot, ended)\<rbrakk> \<Longrightarrow>
     sstep s (become n (if ended then Some (Notifying (SessionEnd sid Finished)) else None)
               (s\<lparr>sv_slot := slot\<rparr>))"
| upload_cleanup:
    "\<lbrakk>tasks s n = Some (UFinalizer sid fid);
      finalize_file sid fid Failed (sv_slot s) = (slot, ended)\<rbrakk> \<Longrightarrow>
     sstep s (become n (if ended then Some (Notifying (SessionEnd sid Finished)) else None)
               (s\<lparr>sv_slot := slot\<rparr>))"
| cancel_pending_request:
    "\<lbrakk>cancel_pending addr osid (sv_slot s) = Some tok; sv_slot s = Some (Pending p)\<rbrakk> \<Longrightarrow>
     sstep s (s\<lparr>fired := insert tok (fired s), acked := insert (ps_session_id p) (acked s)\<rparr>)"
| cancel_not_pending:
    "cancel_pending addr (Some sid) (sv_slot s) = None \<Longrightarrow> sstep s (spawn (Cancelling addr sid) s)"
| cancel_active_session:
    "\<lbrakk>tasks s n = Some (Cancelling addr sid);
      cancel_active addr sid (sv_slot s) = (slot, cancelled)\<rbrakk> \<Longrightarrow>
     sstep s (become n (Some (Notifying
         (if cancelled then SessionEnd sid Cancelled else CancelReceived addr sid)))
       (s\<lparr>sv_slot := slot\<rparr>))"
| app_cancels:
    "cancel_v2_session sid (sv_slot s) = (slot, cancelled) \<Longrightarrow> sstep s (s\<lparr>sv_slot := slot\<rparr>)"
| notify:
    "tasks s n = Some (Notifying ev) \<Longrightarrow> sstep s (become n None (s\<lparr>log := log s @ [ev]\<rparr>))"
| drop:
    "\<lbrakk>tasks s n = Some t; dropped t = Some t'\<rbrakk> \<Longrightarrow> sstep s (become n t' s)"

inductive_cases sstepE: "sstep s t"

section \<open>Invariants\<close>

text \<open>The session whose pending slot a task still has to free or to fill.\<close>

fun owner :: "task \<Rightarrow> string option" where
  "owner (PSending sid addr info crt files) = Some sid"
| "owner (PDeciding sid addr files) = Some sid"
| "owner (PClearing sid reply) = Some sid"
| "owner (PInstalling sid addr fs) = Some sid"
| "owner (Cleanup sid) = Some sid"
| "owner _ = None"

text \<open>The file a task is receiving.\<close>

fun receives :: "task \<Rightarrow> (string \<times> string) option" where
  "receives (USending sid fid dto) = Some (sid, fid)"
| "receives (USaving sid fid) = Some (sid, fid)"
| "receives (UFinishing sid fid r) = Some (sid, fid)"
| "receives (UFinalizer sid fid) = Some (sid, fid)"
| "receives _ = None"

text \<open>What the tasks still have to install is a well-formed session.\<close>

fun task_ok :: "task \<Rightarrow> bool" where
  "task_ok (PSending sid addr info crt files) = distinct (map fst files)"
| "task_ok (PDeciding sid addr files) = distinct (map fst files)"
| "task_ok (PInstalling sid addr fs) = slot_ok (install_session sid addr fs)"
| "task_ok (Notifying ev) = (\<forall>sid fid dto. ev \<noteq> FileUpload sid fid dto)"
| "task_ok _ = True"

fun slot_sid :: "slot \<Rightarrow> string option" where
  "slot_sid None = None"
| "slot_sid (Some (Pending p)) = Some (ps_session_id p)"
| "slot_sid (Some (Active s)) = Some (us_session_id s)"

fun is_pending :: "slot \<Rightarrow> bool" where
  "is_pending (Some (Pending p)) = True"
| "is_pending _ = False"

definition ids_inv :: "server \<Rightarrow> bool" where
  "ids_inv s \<longleftrightarrow> (\<forall>n \<ge> next_id s. tasks s n = None)"

definition slot_inv :: "server \<Rightarrow> bool" where
  "slot_inv s \<longleftrightarrow> slot_ok (sv_slot s) \<and> granted s \<subseteq> used s \<and>
     (\<forall>sid. slot_sid (sv_slot s) = Some sid \<longrightarrow>
        sid \<in> used s \<and> (sid \<in> granted s \<longleftrightarrow> \<not> is_pending (sv_slot s)))"

definition tasks_inv :: "server \<Rightarrow> bool" where
  "tasks_inv s \<longleftrightarrow> (\<forall>n t. tasks s n = Some t \<longrightarrow>
     task_ok t \<and> (\<forall>x. receives t = Some x \<longrightarrow> fst x \<in> granted s))"

definition owned :: "server \<Rightarrow> nat \<Rightarrow> string option" where
  "owned s n = Option.bind (tasks s n) owner"

definition owner_inv :: "server \<Rightarrow> bool" where
  "owner_inv s \<longleftrightarrow>
     (\<forall>n sid. owned s n = Some sid \<longrightarrow> is_pending (sv_slot s) \<and> slot_sid (sv_slot s) = Some sid) \<and>
     (\<forall>n m. owned s n \<noteq> None \<and> owned s m \<noteq> None \<longrightarrow> n = m)"

subsection \<open>What the sections do to the shape of the slot\<close>

lemma claim_shape:
  "claim_slot sid addr tok slot = Inr slot' \<Longrightarrow>
   slot = None \<and> is_pending slot' \<and> slot_sid slot' = Some sid"
  by (auto simp: claim_slot_def split: if_splits)

lemma install_shape [simp]:
  "\<not> is_pending (install_session sid addr fs)" "slot_sid (install_session sid addr fs) = Some sid"
  by (simp_all add: install_session_def)

lemma clear_shape [simp]:
  "is_pending slot \<Longrightarrow> clear_pending_session slot = None"
  "\<not> is_pending slot \<Longrightarrow> clear_pending_session slot = slot"
  by (cases slot rule: clear_pending_session.cases; simp)+

lemma begin_shape:
  "begin_upload sid fid token addr slot = Inr (dto, slot') \<Longrightarrow>
   \<not> is_pending slot \<and> slot_sid slot = Some sid \<and> \<not> is_pending slot' \<and> slot_sid slot' = Some sid"
  by (auto elim!: begin_upload_cases)

lemma finalize_shape:
  "finalize_file sid fid result slot = (slot', ended) \<Longrightarrow>
   (if ended then slot' = None \<and> \<not> is_pending slot \<and> slot_sid slot = Some sid
    else is_pending slot' = is_pending slot \<and> slot_sid slot' = slot_sid slot)"
  by (auto simp: finalize_file_def Let_def split: option.splits session_state.splits if_splits)

lemma cancel_active_shape:
  "cancel_active addr sid slot = (slot', c) \<Longrightarrow>
   (if c then slot' = None \<and> \<not> is_pending slot \<and> slot_sid slot = Some sid else slot' = slot)"
  by (auto simp: cancel_active_def split: option.splits session_state.splits if_splits)

lemma cancel_v2_session_shape:
  "cancel_v2_session sid slot = (slot', c) \<Longrightarrow>
   (if c then slot' = None \<and> \<not> is_pending slot \<and> slot_sid slot = Some sid else slot' = slot)"
  by (auto simp: cancel_v2_session_def split: option.splits session_state.splits if_splits)

lemmas shapes = claim_shape begin_shape finalize_shape cancel_active_shape cancel_v2_session_shape

lemma finalize_slot_ok: "finalize_file sid fid r slot = (slot', e) \<Longrightarrow> slot_ok slot \<Longrightarrow> slot_ok slot'"
  using finalize_file_ok [of slot sid fid r] by simp

lemma cancel_active_slot_ok: "cancel_active addr sid slot = (slot', e) \<Longrightarrow> slot_ok slot \<Longrightarrow> slot_ok slot'"
  using cancel_active_ok [of slot addr sid] by simp

lemma cancel_v2_slot_ok: "cancel_v2_session sid slot = (slot', e) \<Longrightarrow> slot_ok slot \<Longrightarrow> slot_ok slot'"
  using cancel_v2_session_ok [of slot sid] by simp

lemmas slot_oks = claim_ok clear_ok begin_upload_ok finalize_slot_ok cancel_active_slot_ok
  cancel_v2_slot_ok

text \<open>A dropped task owns what its cleanup owns, or nothing, and never becomes ill-formed.\<close>

lemma dropped_facts:
  assumes "dropped t = Some (Some u)"
  shows "owner u = owner t" "receives u = receives t" "task_ok u"
  using assms by (auto elim!: dropped.elims)

lemma become_simps [simp]:
  "tasks (become n t s) = (tasks s)(n := t)" "sv_slot (become n t s) = sv_slot s"
  "next_id (become n t s) = next_id s" "fired (become n t s) = fired s"
  "used (become n t s) = used s" "granted (become n t s) = granted s"
  "log (become n t s) = log s" "acked (become n t s) = acked s"
  by (simp_all add: become_def)

lemma spawn_simps [simp]:
  "tasks (spawn t s) = (tasks s)(next_id s \<mapsto> t)" "sv_slot (spawn t s) = sv_slot s"
  "next_id (spawn t s) = Suc (next_id s)" "fired (spawn t s) = fired s"
  "used (spawn t s) = used s" "granted (spawn t s) = granted s"
  "log (spawn t s) = log s" "acked (spawn t s) = acked s"
  by (simp_all add: spawn_def)

lemma ids_next: "ids_inv s \<Longrightarrow> tasks s n = Some t \<Longrightarrow> n < next_id s"
  unfolding ids_inv_def by (metis linorder_not_le option.distinct(1))

subsection \<open>One owner of the pending slot\<close>

lemma owned_become [simp]: "owned (become n t s) = (owned s)(n := Option.bind t owner)"
  by (auto simp: owned_def)

lemma owned_spawn [simp]: "owned (spawn t s) = (owned s)(next_id s := owner t)"
  by (auto simp: owned_def)

lemma owned_eq: "tasks s = tasks t \<Longrightarrow> owned s = owned t"
  by (auto simp: owned_def)

lemma owned_update [simp]:
  "owned (s\<lparr>sv_slot := a\<rparr>) = owned s" "owned (s\<lparr>log := b\<rparr>) = owned s"
  "owned (s\<lparr>sv_slot := a, used := c\<rparr>) = owned s" "owned (s\<lparr>sv_slot := a, granted := c\<rparr>) = owned s"
  "owned (s\<lparr>fired := d, acked := c\<rparr>) = owned s"
  by (auto intro!: owned_eq)

lemma owned_task: "tasks s n = Some t \<Longrightarrow> owned s n = owner t"
  by (simp add: owned_def)

lemma owned_next: "ids_inv s \<Longrightarrow> owned s (next_id s) = None"
  by (simp add: ids_inv_def owned_def)

lemma owner_inv_same:
  "owner_inv s \<Longrightarrow> owned t = owned s \<Longrightarrow>
   (is_pending (sv_slot s) \<Longrightarrow> is_pending (sv_slot t) \<and> slot_sid (sv_slot t) = slot_sid (sv_slot s)) \<Longrightarrow>
   owner_inv t"
  unfolding owner_inv_def by metis

lemma owner_inv_release:
  assumes "owner_inv s" "owned s n \<noteq> None" "owned t = (owned s)(n := None)"
  shows "owner_inv t"
proof -
  have "owned t m = None" for m
    using assms unfolding owner_inv_def by (metis fun_upd_apply)
  then show ?thesis by (simp add: owner_inv_def)
qed

lemma owner_inv_become:
  assumes "owner_inv s" "tasks s n = Some t" "Option.bind u owner = None \<or> Option.bind u owner = owner t"
  shows "owner_inv (become n u s)"
proof (cases "Option.bind u owner = owned s n")
  case True
  then have "owned (become n u s) = owned s" by auto
  then show ?thesis using assms(1) by (rule_tac owner_inv_same [of s]) simp_all
next
  case False
  then have "owned s n \<noteq> None" "Option.bind u owner = None" using assms(2,3) owned_task by auto
  then show ?thesis using assms(1) by (rule_tac owner_inv_release [of s n]) simp_all
qed

lemma owner_step:
  assumes ids: "ids_inv s" and inv: "owner_inv s" and step: "sstep s t"
  shows "owner_inv t"
  using step
proof cases
  case (claim sid files addr slot info crt)
  then have "owned s n = None" for n
    using inv claim_shape unfolding owner_inv_def by (metis is_pending.simps(2) not_None_eq)
  then show ?thesis using claim claim_shape by (auto simp: owner_inv_def)
next
  case (drop n u u')
  have "Option.bind u' owner = None \<or> Option.bind u' owner = owner u"
    using dropped_facts(1) [of u] drop(3) by (cases u') auto
  then show ?thesis using owner_inv_become [OF inv drop(2)] drop(1) by blast
next
  case (cleanup n sid)
  then show ?thesis using inv owned_task [OF cleanup(2)] by (auto intro!: owner_inv_release [of s n])
next
  case (clear n sid)
  then show ?thesis using inv owned_task [OF clear(2)] by (auto intro!: owner_inv_release [of s n])
next
  case (install n sid addr fs)
  then show ?thesis using inv owned_task [OF install(2)] by (auto intro!: owner_inv_release [of s n])
next
  case (upload_begins sid fid token addr dto slot)
  then show ?thesis
    using inv begin_shape owned_next [OF ids] by (auto intro!: owner_inv_same [of s])
next
  case (cancel_not_pending addr sid)
  then show ?thesis using inv owned_next [OF ids] by (auto intro!: owner_inv_same [of s])
qed (use inv owned_task in \<open>auto intro!: owner_inv_same [of s] dest!: shapes split: if_splits\<close>)

subsection \<open>Ids, slot and tasks\<close>

lemma ids_step: "ids_inv s \<Longrightarrow> sstep s t \<Longrightarrow> ids_inv t"
  by (erule sstep.cases) (auto simp: ids_inv_def)

lemma task_ok_at: "tasks_inv s \<Longrightarrow> tasks s n = Some t \<Longrightarrow> task_ok t"
  by (simp add: tasks_inv_def)

lemma slot_ok_step:
  assumes "slot_ok (sv_slot s)" and "tasks_inv s" and "sstep s t"
  shows "slot_ok (sv_slot t)"
  using assms(3)
proof cases
  case (install n sid addr fs)
  then show ?thesis using task_ok_at [OF assms(2) install(2)] by simp
qed (use assms(1) in \<open>auto intro: slot_oks\<close>)

lemma slot_step:
  assumes "slot_inv s" and "tasks_inv s" and "owner_inv s" and "sstep s t"
  shows "slot_inv t"
proof -
  have ok: "slot_ok (sv_slot t)"
    by (rule slot_ok_step [OF _ assms(2,4)]) (use assms(1) in \<open>simp add: slot_inv_def\<close>)
  show ?thesis
  using assms(4)
proof cases
  case (install n sid addr fs)
  have "owned s n = Some sid" using owned_task [OF install(2)] by simp
  then have "slot_sid (sv_slot s) = Some sid" using assms(3) unfolding owner_inv_def by metis
  with ok show ?thesis using assms(1) install by (auto simp: slot_inv_def)
next
  case (clear n sid reply)
  then show ?thesis
    using assms(1) ok by (cases "is_pending (sv_slot s)") (auto simp: slot_inv_def)
next
  case (cleanup n sid)
  then show ?thesis
    using assms(1) ok by (cases "is_pending (sv_slot s)") (auto simp: slot_inv_def)
qed (use assms(1) ok in \<open>auto simp: slot_inv_def dest!: shapes split: if_splits\<close>)
qed

lemma tasks_step:
  assumes "tasks_inv s" and "slot_inv s" and "sstep s t"
  shows "tasks_inv t"
  using assms(3)
proof cases
  case (drop n u u')
  then show ?thesis
    using assms(1) dropped_facts(2,3) [of u] by (cases u') (auto simp: tasks_inv_def)
next
  case (upload_begins sid fid token addr dto slot)
  then show ?thesis using assms(1,2) begin_shape [OF upload_begins(2)]
    by (auto simp: tasks_inv_def slot_inv_def)
next
  case (prepare_accepted n sid addr files new_token w fs)
  then have "slot_ok (install_session sid addr fs)"
    using task_ok_at [OF assms(1) prepare_accepted(2)] install_ok [of files] by simp
  then show ?thesis using assms(1) prepare_accepted by (auto simp: tasks_inv_def)
next
  case (install n sid addr fs)
  then show ?thesis using assms(1) by (auto simp: tasks_inv_def)
qed (use assms(1) in \<open>fastforce simp: tasks_inv_def split: if_splits\<close>)+

subsection \<open>One upload of a file at a time, three in all\<close>

definition received :: "server \<Rightarrow> nat \<Rightarrow> (string \<times> string) option" where
  "received s n = Option.bind (tasks s n) receives"

definition recv_inv :: "server \<Rightarrow> bool" where
  "recv_inv s \<longleftrightarrow>
     (\<forall>n fid ses. received s n = Some (us_session_id ses, fid) \<and> sv_slot s = Some (Active ses) \<longrightarrow>
        (\<exists>f. map_of (us_files ses) fid = Some f \<and> sf_status f = FInProgress)) \<and>
     (\<forall>n m. received s n = received s m \<and> received s n \<noteq> None \<longrightarrow> n = m)"

lemma received_become [simp]: "received (become n t s) = (received s)(n := Option.bind t receives)"
  by (auto simp: received_def)

lemma received_spawn [simp]: "received (spawn t s) = (received s)(next_id s := receives t)"
  by (auto simp: received_def)

lemma received_eq: "tasks s = tasks t \<Longrightarrow> received s = received t"
  by (auto simp: received_def)

lemma received_update [simp]:
  "received (s\<lparr>sv_slot := a\<rparr>) = received s" "received (s\<lparr>log := b\<rparr>) = received s"
  "received (s\<lparr>sv_slot := a, used := c\<rparr>) = received s"
  "received (s\<lparr>sv_slot := a, granted := c\<rparr>) = received s"
  "received (s\<lparr>fired := d, acked := c\<rparr>) = received s"
  by (auto intro!: received_eq)

lemma received_task: "tasks s n = Some t \<Longrightarrow> received s n = receives t"
  by (simp add: received_def)

lemma received_granted: "tasks_inv s \<Longrightarrow> received s n = Some (sid, fid) \<Longrightarrow> sid \<in> granted s"
  unfolding received_def tasks_inv_def by (cases "tasks s n") fastforce+

text \<open>A step that starts no upload keeps the invariant if it leaves the active session or ends it.\<close>

lemma recv_inv_sub:
  assumes "recv_inv s" "\<And>n. received t n = received s n \<or> received t n = None"
    "sv_slot t = sv_slot s \<or> (\<forall>ses. sv_slot t \<noteq> Some (Active ses))"
  shows "recv_inv t"
proof -
  have same: "received t n = received s n" if "received t n \<noteq> None" for n
    using assms(2) [of n] that by auto
  have "n = m" if "received t n = received t m" "received t n \<noteq> None" for n m
    using assms(1) same [of n] same [of m] that unfolding recv_inv_def by metis
  moreover have "\<exists>f. map_of (us_files ses) fid = Some f \<and> sf_status f = FInProgress"
    if "received t n = Some (us_session_id ses, fid)" "sv_slot t = Some (Active ses)" for n fid ses
    using assms(1,3) same [of n] that unfolding recv_inv_def by (metis option.distinct(1))
  ultimately show ?thesis unfolding recv_inv_def by blast
qed

text \<open>A task that ends its upload: the other files of the session are as they were.\<close>

lemma finalize_others:
  assumes "finalize_file sid fid r slot = (Some (Active ses'), False)"
  shows "\<exists>ses. slot = Some (Active ses) \<and> us_session_id ses' = us_session_id ses \<and>
    (\<forall>i. us_session_id ses \<noteq> sid \<or> i \<noteq> fid \<longrightarrow> map_of (us_files ses') i = map_of (us_files ses) i)"
  using assms
  by (auto simp: finalize_file_def Let_def map_of_map_entry_eq
      split: option.splits session_state.splits if_splits)

lemma recv_inv_finalize:
  assumes inv: "recv_inv s" and n: "received s n = Some (sid, fid)"
    and fin: "finalize_file sid fid r (sv_slot s) = (slot, ended)"
    and t: "received t = (received s)(n := None)" "sv_slot t = slot"
  shows "recv_inv t"
proof -
  have uniq: "received t m = Some x \<Longrightarrow> received s m = Some x \<and> x \<noteq> (sid, fid)" for m x
    using inv n t(1) unfolding recv_inv_def by (auto split: if_splits)
  have "\<exists>f. map_of (us_files ses) i = Some f \<and> sf_status f = FInProgress"
    if m: "received t m = Some (us_session_id ses, i)" and act: "sv_slot t = Some (Active ses)" for m i ses
  proof -
    have "\<not> ended" using fin t(2) act finalize_shape by fastforce
    then obtain old where old: "sv_slot s = Some (Active old)" "us_session_id ses = us_session_id old"
      "us_session_id old \<noteq> sid \<or> i \<noteq> fid \<longrightarrow> map_of (us_files ses) i = map_of (us_files old) i"
      using fin t(2) act finalize_others [of sid fid r "sv_slot s" ses] by auto
    have "received s m = Some (us_session_id old, i)" "(us_session_id old, i) \<noteq> (sid, fid)"
      using uniq [OF m] old(2) by simp_all
    then show ?thesis using inv old unfolding recv_inv_def by auto
  qed
  moreover have "n' = m'" if "received t n' = received t m'" "received t n' \<noteq> None" for n' m'
    using that uniq inv unfolding recv_inv_def by (metis option.exhaust)
  ultimately show ?thesis unfolding recv_inv_def by blast
qed

lemma recv_inv_begin:
  assumes inv: "recv_inv s" and b: "begin_upload sid fid token addr (sv_slot s) = Inr (dto, slot)"
    and n: "received s n = None"
    and t: "received t = (received s)(n \<mapsto> (sid, fid))" "sv_slot t = slot"
  shows "recv_inv t"
proof (rule begin_upload_cases [OF b])
  let ?g = "\<lambda>f. f\<lparr>sf_status := FInProgress, sf_attempts := saturating_inc (sf_attempts f)\<rparr>"
  fix ses f
  assume s: "sv_slot s = Some (Active ses)" "us_session_id ses = sid"
    "map_of (us_files ses) fid = Some f" "sf_status f = FPending"
    and slot: "slot = Some (Active (ses\<lparr>us_files := AList.map_entry fid ?g (us_files ses)\<rparr>))"
  have none: "received s m \<noteq> Some (sid, fid)" for m
    using inv s unfolding recv_inv_def by (metis file_status.distinct(1) option.inject)
  have "\<exists>f. map_of (us_files x) i = Some f \<and> sf_status f = FInProgress"
    if m: "received t m = Some (us_session_id x, i)" and act: "sv_slot t = Some (Active x)" for m i x
  proof (cases "i = fid")
    case True
    then show ?thesis using act slot t(2) s by (auto simp: map_of_map_entry_eq)
  next
    case False
    have x: "us_session_id x = sid" "map_of (us_files x) i = map_of (us_files ses) i"
      using act slot t(2) s(2) False by (auto simp: map_of_map_entry_eq)
    then have "received s m = Some (us_session_id ses, i)"
      using m t(1) s(2) False by (auto split: if_splits)
    then show ?thesis using inv s(1) x(2) unfolding recv_inv_def by auto
  qed
  moreover have "n' = m'" if "received t n' = received t m'" "received t n' \<noteq> None" for n' m'
    using that none inv t(1) unfolding recv_inv_def by (auto split: if_splits)
  ultimately show ?thesis unfolding recv_inv_def by blast
qed

lemma recv_inv_become:
  assumes "recv_inv s" "tasks s n = Some t"
    "Option.bind u receives = None \<or> Option.bind u receives = receives t"
    "sv_slot s' = sv_slot s \<or> (\<forall>ses. sv_slot s' \<noteq> Some (Active ses))" "tasks s' = tasks s"
  shows "recv_inv (become n u s')"
proof (rule recv_inv_sub [OF assms(1)])
  show "received (become n u s') m = received s m \<or> received (become n u s') m = None" for m
    using assms(2,3,5) received_task [OF assms(2)] received_eq [of s' s] by auto
  show "sv_slot (become n u s') = sv_slot s \<or> (\<forall>ses. sv_slot (become n u s') \<noteq> Some (Active ses))"
    using assms(4) by simp
qed

lemma clear_keeps_active:
  "clear_pending_session slot = slot \<or> (\<forall>ses. clear_pending_session slot \<noteq> Some (Active ses))"
  by (cases slot rule: clear_pending_session.cases) simp_all

lemma received_next: "ids_inv s \<Longrightarrow> received s (next_id s) = None"
  by (simp add: ids_inv_def received_def)

lemma cancel_active_slot:
  "cancel_active addr sid slot = (slot', c) \<Longrightarrow> slot' = slot \<or> (\<forall>ses. slot' \<noteq> Some (Active ses))"
  "cancel_v2_session sid slot = (slot', c) \<Longrightarrow> slot' = slot \<or> (\<forall>ses. slot' \<noteq> Some (Active ses))"
  by (cases c; auto dest: cancel_active_shape cancel_v2_session_shape)+

lemma recv_step:
  assumes ids: "ids_inv s" and own: "owner_inv s" and sl: "slot_inv s" and tk: "tasks_inv s"
    and inv: "recv_inv s" and step: "sstep s t"
  shows "recv_inv t"
  using step
proof cases
  case (claim sid files addr slot info crt)
  have "\<forall>ses. slot \<noteq> Some (Active ses)" using claim_shape [OF claim(5)] by auto
  then show ?thesis
    unfolding claim using received_next [OF ids] by (intro recv_inv_sub [OF inv]) auto
next
  case (install n sid addr fs)
  have "owned s n = Some sid" using owned_task [OF install(2)] by simp
  then have "is_pending (sv_slot s)" "slot_sid (sv_slot s) = Some sid"
    using own unfolding owner_inv_def by metis+
  then have "sid \<notin> granted s" using sl unfolding slot_inv_def by metis
  then have none: "received s m \<noteq> Some (sid, i)" for m i using received_granted [OF tk] by blast
  have n: "received s n = None" using received_task [OF install(2)] by simp
  have rt: "received t = received s" unfolding install using n by auto
  have "us_session_id ses = sid" if "sv_slot t = Some (Active ses)" for ses
    using that unfolding install by (auto simp: install_session_def)
  then show ?thesis using inv none unfolding recv_inv_def rt by auto
next
  case (upload_begins sid fid token addr dto slot)
  show ?thesis
    unfolding upload_begins
    by (rule recv_inv_begin [OF inv upload_begins(2) received_next [OF ids]]) simp_all
next
  case (upload_finishes n sid fid result slot ended)
  show ?thesis
    by (rule recv_inv_finalize [OF inv _ upload_finishes(3)])
      (use received_task [OF upload_finishes(2)] in \<open>simp_all add: upload_finishes(1)\<close>)
next
  case (upload_cleanup n sid fid slot ended)
  show ?thesis
    by (rule recv_inv_finalize [OF inv _ upload_cleanup(3)])
      (use received_task [OF upload_cleanup(2)] in \<open>simp_all add: upload_cleanup(1)\<close>)
next
  case (drop n u u')
  have "Option.bind u' receives = None \<or> Option.bind u' receives = receives u"
    using dropped_facts(2) [of u] drop(3) by (cases u') auto
  then show ?thesis unfolding drop(1) by (intro recv_inv_become [OF inv drop(2)]) simp_all
next
  case (cancel_pending_request addr osid tok p)
  then show ?thesis by (intro recv_inv_sub [OF inv]) auto
next
  case (cancel_not_pending addr sid)
  then show ?thesis using received_next [OF ids] by (intro recv_inv_sub [OF inv]) auto
next
  case (app_cancels sid slot cancelled)
  then show ?thesis using cancel_active_slot(2) by (intro recv_inv_sub [OF inv]) auto
next
  case (cancel_active_session n addr sid slot cancelled)
  show ?thesis unfolding cancel_active_session(1)
    by (rule recv_inv_become [OF inv cancel_active_session(2)])
      (use cancel_active_slot(1) [OF cancel_active_session(3)] in simp_all)
next
  case (clear n sid reply)
  show ?thesis unfolding clear(1)
    by (rule recv_inv_become [OF inv clear(2)]) (use clear_keeps_active in simp_all)
next
  case (cleanup n sid)
  show ?thesis unfolding cleanup(1)
    by (rule recv_inv_become [OF inv cleanup(2)]) (use clear_keeps_active in simp_all)
qed (auto intro!: recv_inv_become [OF inv])

text \<open>The uploads of a file the application was told of, and those about to be.\<close>

fun starts_of :: "server_event \<Rightarrow> (string \<times> string) option" where
  "starts_of (FileUpload sid fid dto) = Some (sid, fid)"
| "starts_of _ = None"

definition started :: "server \<Rightarrow> string \<times> string \<Rightarrow> nat" where
  "started s x = length (filter (\<lambda>ev. starts_of ev = Some x) (log s))"

fun sends :: "task \<Rightarrow> (string \<times> string) option" where
  "sends (USending sid fid dto) = Some (sid, fid)"
| "sends _ = None"

definition sending :: "server \<Rightarrow> nat \<Rightarrow> (string \<times> string) option" where
  "sending s n = Option.bind (tasks s n) sends"

definition total_starts :: "server \<Rightarrow> string \<times> string \<Rightarrow> nat" where
  "total_starts s x = started s x + (if \<exists>n. sending s n = Some x then 1 else 0)"

definition count_inv :: "server \<Rightarrow> bool" where
  "count_inv s \<longleftrightarrow> (\<forall>x. total_starts s x \<le> 3 \<and> (0 < total_starts s x \<longrightarrow> fst x \<in> granted s)) \<and>
     (\<forall>ses fid f. sv_slot s = Some (Active ses) \<and> map_of (us_files ses) fid = Some f \<longrightarrow>
        total_starts s (us_session_id ses, fid) \<le> unat (sf_attempts f))"

lemma sending_become [simp]: "sending (become n t s) = (sending s)(n := Option.bind t sends)"
  by (auto simp: sending_def)

lemma sending_spawn [simp]: "sending (spawn t s) = (sending s)(next_id s := sends t)"
  by (auto simp: sending_def)

lemma sending_eq: "tasks s = tasks t \<Longrightarrow> sending s = sending t"
  by (auto simp: sending_def)

lemma sending_update [simp]:
  "sending (s\<lparr>sv_slot := a\<rparr>) = sending s" "sending (s\<lparr>log := b\<rparr>) = sending s"
  "sending (s\<lparr>sv_slot := a, used := c\<rparr>) = sending s"
  "sending (s\<lparr>sv_slot := a, granted := c\<rparr>) = sending s"
  "sending (s\<lparr>fired := d, acked := c\<rparr>) = sending s"
  by (auto intro!: sending_eq)

lemma sending_task: "tasks s n = Some t \<Longrightarrow> sending s n = sends t"
  by (simp add: sending_def)

lemma sending_received: "sending s n = Some x \<Longrightarrow> received s n = Some x"
  unfolding sending_def received_def by (cases "tasks s n") (auto elim!: sends.elims)

text \<open>The active session of \<open>t\<close> is one of \<open>s\<close>, with the attempts of each file as they were.\<close>

definition attempts_kept :: "server \<Rightarrow> server \<Rightarrow> bool" where
  "attempts_kept s t \<longleftrightarrow> (\<forall>ses fid f. sv_slot t = Some (Active ses) \<and> map_of (us_files ses) fid = Some f \<longrightarrow>
     (\<exists>old g. sv_slot s = Some (Active old) \<and> us_session_id old = us_session_id ses \<and>
        map_of (us_files old) fid = Some g \<and> sf_attempts g = sf_attempts f))"

lemma count_inv_sub:
  assumes inv: "count_inv s" and le: "\<And>x. total_starts t x \<le> total_starts s x" and gr: "granted s \<subseteq> granted t"
    and kept: "attempts_kept s t"
  shows "count_inv t"
proof -
  have "total_starts t x \<le> 3" "0 < total_starts t x \<longrightarrow> fst x \<in> granted t" for x
    using inv le [of x] gr unfolding count_inv_def by (metis le_trans, metis less_le_trans subsetD)
  moreover have "total_starts t (us_session_id ses, fid) \<le> unat (sf_attempts f)"
    if act: "sv_slot t = Some (Active ses)" "map_of (us_files ses) fid = Some f" for ses fid f
  proof -
    obtain old g where old: "sv_slot s = Some (Active old)" "us_session_id old = us_session_id ses"
      "map_of (us_files old) fid = Some g" "sf_attempts g = sf_attempts f"
      using kept act unfolding attempts_kept_def by metis
    then have "total_starts s (us_session_id ses, fid) \<le> unat (sf_attempts f)"
      using inv unfolding count_inv_def by metis
    then show ?thesis using le le_trans by blast
  qed
  ultimately show ?thesis unfolding count_inv_def by blast
qed

lemma attempts_kept_same:
  "sv_slot t = sv_slot s \<or> (\<forall>ses. sv_slot t \<noteq> Some (Active ses)) \<Longrightarrow> attempts_kept s t"
  unfolding attempts_kept_def by auto

lemma attempts_kept_finalize:
  assumes "finalize_file sid fid r (sv_slot s) = (slot, ended)" "sv_slot t = slot"
  shows "attempts_kept s t"
  using assms unfolding attempts_kept_def
  by (auto simp: finalize_file_def Let_def AList.map_of_map_entry
      split: option.splits session_state.splits if_splits)

lemma total_mono:
  assumes "started t x = started s x" "\<And>n. sending t n = sending s n \<or> sending t n = None"
  shows "total_starts t x \<le> total_starts s x"
proof -
  have "(\<exists>n. sending t n = Some x) \<longrightarrow> (\<exists>n. sending s n = Some x)"
    using assms(2) by (metis option.distinct(1))
  then show ?thesis using assms(1) by (auto simp: total_starts_def)
qed

lemma started_eq: "log s = log t \<Longrightarrow> started s = started t"
  by (auto simp: started_def)

lemma started_append: "log t = log s @ [ev] \<Longrightarrow>
   started t x = started s x + (if starts_of ev = Some x then 1 else 0)"
  by (simp add: started_def)

lemma count_inv_become:
  assumes inv: "count_inv s" and n: "tasks s n = Some t"
    and u: "Option.bind u sends = None \<or> Option.bind u sends = sends t"
    and s': "tasks s' = tasks s" "started s' = started s" "granted s' = granted s"
      "sv_slot s' = sv_slot s \<or> (\<forall>ses. sv_slot s' \<noteq> Some (Active ses))"
  shows "count_inv (become n u s')"
proof (rule count_inv_sub [OF inv])
  have "sending (become n u s') m = sending s m \<or> sending (become n u s') m = None" for m
    using u sending_task [OF n] sending_eq [OF s'(1)] by auto
  moreover have "started (become n u s') = started s" using s'(2) started_eq [of "become n u s'" s'] by simp
  ultimately show "total_starts (become n u s') x \<le> total_starts s x" for x by (intro total_mono) simp_all
  show "attempts_kept s (become n u s')" using s'(4) by (intro attempts_kept_same) simp
qed (simp add: s'(3))

lemma total_ungranted: "count_inv s \<Longrightarrow> sid \<notin> granted s \<Longrightarrow> total_starts s (sid, fid) = 0"
  unfolding count_inv_def by (metis fst_conv neq0_conv)

lemma sending_next: "ids_inv s \<Longrightarrow> sending s (next_id s) = None"
  by (simp add: ids_inv_def sending_def)

lemma count_inv_begin:
  assumes inv: "count_inv s" and recv: "recv_inv s" and sl: "slot_inv s" and ids: "ids_inv s"
    and b: "begin_upload sid fid token addr (sv_slot s) = Inr (dto, slot)"
    and t: "t = spawn (USending sid fid dto) (s\<lparr>sv_slot := slot\<rparr>)"
  shows "count_inv t"
proof (rule begin_upload_cases [OF b])
  let ?g = "\<lambda>f. f\<lparr>sf_status := FInProgress, sf_attempts := saturating_inc (sf_attempts f)\<rparr>"
  fix ses f
  assume s: "sv_slot s = Some (Active ses)" "us_session_id ses = sid"
    "map_of (us_files ses) fid = Some f" "sf_status f = FPending"
    and slot: "slot = Some (Active (ses\<lparr>us_files := AList.map_entry fid ?g (us_files ses)\<rparr>))"
  have "sid \<in> granted s" using sl s(1,2) unfolding slot_inv_def by fastforce
  have "received s m \<noteq> Some (sid, fid)" for m
    using recv s unfolding recv_inv_def by (metis file_status.distinct(1) option.inject)
  then have none: "sending s m \<noteq> Some (sid, fid)" for m using sending_received by blast
  have st: "started t = started s" unfolding t by (rule started_eq) simp
  have send: "sending t = (sending s)(next_id s \<mapsto> (sid, fid))"
    unfolding t using sending_eq [of "s\<lparr>sv_slot := slot\<rparr>" s] by simp
  have old: "total_starts s (sid, fid) = started s (sid, fid)" using none by (simp add: total_starts_def)
  have new: "total_starts t (sid, fid) = Suc (total_starts s (sid, fid))" using send st old by (auto simp: total_starts_def)
  have other: "total_starts t x = total_starts s x" if "x \<noteq> (sid, fid)" for x
  proof -
    have "(\<exists>n. sending t n = Some x) \<longleftrightarrow> (\<exists>n. sending s n = Some x)"
      using send that sending_next [OF ids] by (metis fun_upd_apply option.distinct(1) option.inject)
    then show ?thesis using st by (simp add: total_starts_def)
  qed
  have le: "total_starts s (sid, fid) \<le> unat (sf_attempts f)" using inv s(1,2,3) unfolding count_inv_def by metis
  have "file_ok f"
    using sl s(1,3) list_all_map_of [of file_ok "us_files ses" fid f] by (simp add: slot_inv_def session_ok_def)
  then have lt: "unat (sf_attempts f) < 3" using s(4) by (simp add: file_ok_def word_less_nat_alt)
  then have inc: "unat (saturating_inc (sf_attempts f)) = Suc (unat (sf_attempts f))"
    by (auto simp: saturating_inc_def unat_word_ariths)
  have "total_starts t x \<le> 3 \<and> (0 < total_starts t x \<longrightarrow> fst x \<in> granted t)" for x
    using inv new other [of x] le lt \<open>sid \<in> granted s\<close> t
    unfolding count_inv_def by (cases x; cases "x = (sid, fid)") auto
  moreover have "total_starts t (us_session_id x, i) \<le> unat (sf_attempts h)"
    if "sv_slot t = Some (Active x)" "map_of (us_files x) i = Some h" for x i h
  proof (cases "i = fid")
    case True
    then show ?thesis using that slot t s(2,3) new le inc by (auto simp: map_of_map_entry_eq)
  next
    case False
    then have "map_of (us_files ses) i = Some h" "us_session_id x = sid"
      using that slot t s(2) by (auto simp: map_of_map_entry_eq)
    then show ?thesis using inv s(1,2) other [of "(sid, i)"] False unfolding count_inv_def by auto
  qed
  ultimately show ?thesis unfolding count_inv_def by blast
qed

lemma count_inv_sent:
  assumes inv: "count_inv s" and recv: "recv_inv s" and n: "tasks s n = Some (USending sid fid dto)"
    and t: "t = become n (Some (USaving sid fid)) (s\<lparr>log := log s @ [FileUpload sid fid dto]\<rparr>)"
  shows "count_inv t"
proof (rule count_inv_sub [OF inv])
  have sn: "sending s n = Some (sid, fid)" using sending_task [OF n] by simp
  have "m = n" if "sending s m = Some (sid, fid)" for m
    using recv sending_received [OF that] sending_received [OF sn] unfolding recv_inv_def by auto
  moreover have send: "sending t = (sending s)(n := None)"
    unfolding t using sending_eq [of "s\<lparr>log := log s @ [FileUpload sid fid dto]\<rparr>" s] by simp
  ultimately have none: "sending t m \<noteq> Some (sid, fid)" for m by auto
  have st: "started t x = started s x + (if x = (sid, fid) then 1 else 0)" for x
    using started_append [of t s "FileUpload sid fid dto" x] t by auto
  show "total_starts t x \<le> total_starts s x" for x
  proof (cases "x = (sid, fid)")
    case True
    then show ?thesis using none st sn by (auto simp: total_starts_def)
  next
    case False
    then show ?thesis using st send by (intro total_mono) auto
  qed
  show "attempts_kept s t" unfolding t by (rule attempts_kept_same) simp
qed (simp add: t)

lemma count_step:
  assumes ids: "ids_inv s" and own: "owner_inv s" and sl: "slot_inv s" and tk: "tasks_inv s"
    and recv: "recv_inv s" and inv: "count_inv s" and step: "sstep s t"
  shows "count_inv t"
  using step
proof cases
  case (claim sid files addr slot info crt)
  have "\<forall>ses. slot \<noteq> Some (Active ses)" using claim_shape [OF claim(5)] by auto
  moreover have "sending t = sending s"
    unfolding claim(1) using sending_next [OF ids] by (auto intro: sending_eq)
  moreover have "started t = started s" unfolding claim(1) by (rule started_eq) simp
  ultimately show ?thesis
    by (intro count_inv_sub [OF inv] total_mono attempts_kept_same) (auto simp: claim(1))
next
  case (install n sid addr fs)
  have "owned s n = Some sid" using owned_task [OF install(2)] by simp
  then have "is_pending (sv_slot s)" "slot_sid (sv_slot s) = Some sid"
    using own unfolding owner_inv_def by metis+
  then have new: "sid \<notin> granted s" using sl unfolding slot_inv_def by metis
  have "sending t = sending s" using sending_task [OF install(2)]
    unfolding install(1) by (auto intro: sending_eq)
  moreover have "started t = started s" unfolding install(1) by (rule started_eq) simp
  ultimately have tot: "total_starts t = total_starts s" by (auto simp: total_starts_def)
  have "us_session_id ses = sid" if "sv_slot t = Some (Active ses)" for ses
    using that unfolding install(1) by (auto simp: install_session_def)
  then show ?thesis
    using inv total_ungranted [OF inv new] unfolding count_inv_def tot by (auto simp: install(1))
next
  case (prepare_sent n sid addr info crt files)
  show ?thesis unfolding prepare_sent(1)
    by (rule count_inv_become [OF inv prepare_sent(2)]) (auto simp: started_def)
next
  case (upload_begins sid fid token addr dto slot)
  show ?thesis by (rule count_inv_begin [OF inv recv sl ids upload_begins(2) upload_begins(1)])
next
  case (upload_sent n sid fid dto)
  show ?thesis by (rule count_inv_sent [OF inv recv upload_sent(2) upload_sent(1)])
next
  case (upload_finishes n sid fid result slot ended)
  have "sending t = sending s" using sending_task [OF upload_finishes(2)]
    unfolding upload_finishes(1) by (auto intro: sending_eq)
  moreover have "started t = started s" unfolding upload_finishes(1) by (rule started_eq) simp
  ultimately show ?thesis using attempts_kept_finalize [OF upload_finishes(3), of t]
    by (intro count_inv_sub [OF inv] total_mono) (auto simp: upload_finishes(1))
next
  case (upload_cleanup n sid fid slot ended)
  have "sending t = sending s" using sending_task [OF upload_cleanup(2)]
    unfolding upload_cleanup(1) by (auto intro: sending_eq)
  moreover have "started t = started s" unfolding upload_cleanup(1) by (rule started_eq) simp
  ultimately show ?thesis using attempts_kept_finalize [OF upload_cleanup(3), of t]
    by (intro count_inv_sub [OF inv] total_mono) (auto simp: upload_cleanup(1))
next
  case (drop n u u')
  have "Option.bind u' sends = None" using drop(3) by (auto elim!: dropped.elims)
  then show ?thesis unfolding drop(1) by (intro count_inv_become [OF inv drop(2)]) simp_all
next
  case (cancel_pending_request addr osid tok p)
  have "started t = started s" "sending t = sending s" unfolding cancel_pending_request(1)
    by (auto intro: started_eq sending_eq)
  then show ?thesis
    by (intro count_inv_sub [OF inv] total_mono attempts_kept_same) (auto simp: cancel_pending_request(1))
next
  case (cancel_not_pending addr sid)
  have "started t = started s" "sending t = sending s"
    unfolding cancel_not_pending(1) using sending_next [OF ids] by (auto intro: started_eq)
  then show ?thesis
    by (intro count_inv_sub [OF inv] total_mono attempts_kept_same) (auto simp: cancel_not_pending(1))
next
  case (app_cancels sid slot cancelled)
  have "started t = started s" "sending t = sending s" unfolding app_cancels(1)
    by (auto intro: started_eq sending_eq)
  then show ?thesis using cancel_active_slot(2) [OF app_cancels(2)]
    by (intro count_inv_sub [OF inv] total_mono attempts_kept_same) (auto simp: app_cancels(1))
next
  case (cancel_active_session n addr sid slot cancelled)
  show ?thesis unfolding cancel_active_session(1)
    by (rule count_inv_become [OF inv cancel_active_session(2)])
      (use cancel_active_slot(1) [OF cancel_active_session(3)] in \<open>auto simp: started_def\<close>)
next
  case (clear n sid reply)
  show ?thesis unfolding clear(1)
    by (rule count_inv_become [OF inv clear(2)])
      (use clear_keeps_active in \<open>simp_all add: started_def fun_eq_iff\<close>)
next
  case (cleanup n sid)
  show ?thesis unfolding cleanup(1)
    by (rule count_inv_become [OF inv cleanup(2)])
      (use clear_keeps_active in \<open>simp_all add: started_def fun_eq_iff\<close>)
next
  case (notify n ev)
  have "starts_of ev = None" using task_ok_at [OF tk notify(2)] by (cases ev) auto
  then have "started (s\<lparr>log := log s @ [ev]\<rparr>) = started s" by (auto simp: started_def)
  then show ?thesis unfolding notify(1) by (intro count_inv_become [OF inv notify(2)]) simp_all
qed (auto intro!: count_inv_become [OF inv])

subsection \<open>A session ends once\<close>

fun ends_of :: "server_event \<Rightarrow> string option" where
  "ends_of (SessionEnd sid reason) = Some sid"
| "ends_of _ = None"

fun announces :: "task \<Rightarrow> string option" where
  "announces (Notifying ev) = ends_of ev"
| "announces _ = None"

definition announcing :: "server \<Rightarrow> nat \<Rightarrow> string option" where
  "announcing s n = Option.bind (tasks s n) announces"

definition ended_count :: "server \<Rightarrow> string \<Rightarrow> nat" where
  "ended_count s sid = length (filter (\<lambda>ev. ends_of ev = Some sid) (log s))"

text \<open>No value occurs twice.\<close>

definition one_each :: "('k \<Rightarrow> 'v option) \<Rightarrow> bool" where
  "one_each f \<longleftrightarrow> (\<forall>n m. f n = f m \<and> f n \<noteq> None \<longrightarrow> n = m)"

lemma one_each_remove: "one_each f \<Longrightarrow> one_each (f(n := None))"
  unfolding one_each_def by (metis fun_upd_apply)

lemma one_each_add: "one_each f \<Longrightarrow> \<forall>m. f m \<noteq> Some x \<Longrightarrow> one_each (f(n \<mapsto> x))"
  unfolding one_each_def by (metis fun_upd_apply)

definition end_inv :: "server \<Rightarrow> bool" where
  "end_inv s \<longleftrightarrow>
     one_each (announcing s) \<and>
     (\<forall>n sid. announcing s n = Some sid \<longrightarrow> ended_count s sid = 0 \<and> sid \<in> granted s \<and>
        slot_sid (sv_slot s) \<noteq> Some sid) \<and>
     (\<forall>sid. ended_count s sid \<le> 1 \<and>
        (0 < ended_count s sid \<longrightarrow> sid \<in> granted s \<and> slot_sid (sv_slot s) \<noteq> Some sid))"

lemma announcing_become [simp]: "announcing (become n t s) = (announcing s)(n := Option.bind t announces)"
  by (auto simp: announcing_def)

lemma announcing_spawn [simp]: "announcing (spawn t s) = (announcing s)(next_id s := announces t)"
  by (auto simp: announcing_def)

lemma announcing_eq: "tasks s = tasks t \<Longrightarrow> announcing s = announcing t"
  by (auto simp: announcing_def)

lemma announcing_update [simp]:
  "announcing (s\<lparr>sv_slot := a\<rparr>) = announcing s" "announcing (s\<lparr>log := b\<rparr>) = announcing s"
  "announcing (s\<lparr>sv_slot := a, used := c\<rparr>) = announcing s"
  "announcing (s\<lparr>sv_slot := a, granted := c\<rparr>) = announcing s"
  "announcing (s\<lparr>fired := d, acked := c\<rparr>) = announcing s"
  by (auto intro!: announcing_eq)

lemma announcing_task: "tasks s n = Some t \<Longrightarrow> announcing s n = announces t"
  by (simp add: announcing_def)

lemma announcing_next: "ids_inv s \<Longrightarrow> announcing s (next_id s) = None"
  by (simp add: ids_inv_def announcing_def)

lemma ended_count_eq: "filter (\<lambda>ev. ends_of ev \<noteq> None) (log s) = filter (\<lambda>ev. ends_of ev \<noteq> None) (log t) \<Longrightarrow>
   ended_count s = ended_count t"
proof
  fix sid
  assume eq: "filter (\<lambda>ev. ends_of ev \<noteq> None) (log s) = filter (\<lambda>ev. ends_of ev \<noteq> None) (log t)"
  have "filter (\<lambda>ev. ends_of ev = Some sid) xs =
      filter (\<lambda>ev. ends_of ev = Some sid) (filter (\<lambda>ev. ends_of ev \<noteq> None) xs)" for xs
    unfolding filter_filter by (rule filter_cong) auto
  then show "ended_count s sid = ended_count t sid" using eq unfolding ended_count_def by metis
qed

text \<open>A step that announces nothing new and moves the slot to a fresh session, if to another one.\<close>

lemma end_inv_sub:
  assumes inv: "end_inv s" and ann: "\<And>n. announcing t n = announcing s n \<or> announcing t n = None"
    and cnt: "ended_count t = ended_count s" and gr: "granted s \<subseteq> granted t"
    and slot: "\<And>sid. slot_sid (sv_slot t) = Some sid \<Longrightarrow> slot_sid (sv_slot s) = Some sid \<or> sid \<notin> granted s"
  shows "end_inv t"
proof -
  have same: "announcing t n = announcing s n" if "announcing t n \<noteq> None" for n
    using ann [of n] that by auto
  have "one_each (announcing t)"
    using inv same unfolding end_inv_def one_each_def by metis
  moreover have "ended_count t sid = 0 \<and> sid \<in> granted t \<and> slot_sid (sv_slot t) \<noteq> Some sid"
    if "announcing t n = Some sid" for n sid
  proof -
    have "announcing s n = Some sid" using same [of n] that by simp
    then have "ended_count s sid = 0" "sid \<in> granted s" "slot_sid (sv_slot s) \<noteq> Some sid"
      using inv unfolding end_inv_def by blast+
    then show ?thesis using cnt gr slot [of sid] by auto
  qed
  moreover have "ended_count t sid \<le> 1 \<and>
      (0 < ended_count t sid \<longrightarrow> sid \<in> granted t \<and> slot_sid (sv_slot t) \<noteq> Some sid)" for sid
  proof -
    have "ended_count s sid \<le> 1"
      "0 < ended_count s sid \<longrightarrow> sid \<in> granted s \<and> slot_sid (sv_slot s) \<noteq> Some sid"
      using inv unfolding end_inv_def by blast+
    then show ?thesis using cnt gr slot [of sid] by auto
  qed
  ultimately show ?thesis unfolding end_inv_def by blast
qed

text \<open>The end of the active session: its announcement is the first.\<close>

lemma end_inv_end:
  assumes inv: "end_inv s" and sl: "slot_inv s" and sid: "slot_sid (sv_slot s) = Some sid"
    "\<not> is_pending (sv_slot s)" and n: "announcing s n = None"
    and t: "announcing t = (announcing s)(n \<mapsto> sid)" "log t = log s" "granted t = granted s" "sv_slot t = None"
  shows "end_inv t"
proof -
  have cnt: "ended_count t = ended_count s" using t(2) by (intro ended_count_eq) simp
  have "sid \<in> granted s" using sl sid unfolding slot_inv_def by metis
  moreover have "ended_count s sid = 0" "\<forall>m. announcing s m \<noteq> Some sid"
    using inv sid(1) unfolding end_inv_def by (metis neq0_conv, metis)
  moreover have "one_each (announcing t)"
    using inv calculation(3) one_each_add t(1) unfolding end_inv_def by metis
  ultimately show ?thesis
    using inv n t unfolding end_inv_def cnt by (auto split: if_splits)
qed

lemma end_inv_notify:
  assumes inv: "end_inv s" and n: "tasks s n = Some (Notifying ev)"
    and t: "t = become n None (s\<lparr>log := log s @ [ev]\<rparr>)"
  shows "end_inv t"
proof (cases "ends_of ev")
  case None
  then have "ended_count t = ended_count s" unfolding t by (intro ended_count_eq) simp
  then show ?thesis unfolding t by (intro end_inv_sub [OF inv]) simp_all
next
  case (Some sid)
  have ann: "announcing s n = Some sid" using announcing_task [OF n] Some by simp
  have cnt: "ended_count t x = ended_count s x + (if x = sid then 1 else 0)" for x
    using Some by (auto simp: t ended_count_def)
  have at: "announcing t = (announcing s)(n := None)" unfolding t by simp
  have "m = n" if "announcing s m = Some sid" for m
    using inv ann that unfolding end_inv_def one_each_def by (metis option.distinct(1))
  then have none: "m \<noteq> n \<Longrightarrow> announcing s m \<noteq> Some sid" for m by blast
  have "ended_count s sid = 0" "sid \<in> granted s" "slot_sid (sv_slot s) \<noteq> Some sid"
    using inv ann unfolding end_inv_def by blast+
  moreover have "one_each (announcing t)"
    using inv one_each_remove [of "announcing s" n] by (simp add: at end_inv_def)
  moreover have same: "granted t = granted s" "sv_slot t = sv_slot s" by (simp_all add: t)
  moreover have "ended_count t x = 0 \<and> x \<in> granted t \<and> slot_sid (sv_slot t) \<noteq> Some x"
    if "announcing t m = Some x" for m x
  proof -
    have "announcing s m = Some x" "x \<noteq> sid" using that at none by (auto split: if_splits)
    then show ?thesis using inv cnt same unfolding end_inv_def by simp
  qed
  moreover have "ended_count t x \<le> 1 \<and>
      (0 < ended_count t x \<longrightarrow> x \<in> granted t \<and> slot_sid (sv_slot t) \<noteq> Some x)" for x
    using inv cnt [of x] same calculation(1-3) unfolding end_inv_def by (cases "x = sid") simp_all
  ultimately show ?thesis unfolding end_inv_def by blast
qed

lemma end_inv_become:
  assumes inv: "end_inv s" and u: "Option.bind u announces = None \<or> Option.bind u announces = announcing s n"
    and s': "tasks s' = tasks s" "ended_count s' = ended_count s" "granted s' = granted s"
    and slot: "\<And>sid. slot_sid (sv_slot s') = Some sid \<Longrightarrow> slot_sid (sv_slot s) = Some sid"
  shows "end_inv (become n u s')"
proof (rule end_inv_sub [OF inv])
  show "announcing (become n u s') m = announcing s m \<or> announcing (become n u s') m = None" for m
    using u announcing_eq [OF s'(1)] by auto
  have "ended_count (become n u s') = ended_count s'" by (rule ended_count_eq) simp
  then show "ended_count (become n u s') = ended_count s" using s'(2) by simp
qed (use s'(3) slot in auto)

lemma clear_sid: "slot_sid (clear_pending_session slot) = Some sid \<Longrightarrow> slot_sid slot = Some sid"
  by (cases slot rule: clear_pending_session.cases) simp_all

lemma end_step:
  assumes ids: "ids_inv s" and own: "owner_inv s" and sl: "slot_inv s"
    and inv: "end_inv s" and step: "sstep s t"
  shows "end_inv t"
  using step
proof cases
  case (claim sid files addr slot info crt)
  have "ended_count t = ended_count s" unfolding claim(1) by (rule ended_count_eq) simp
  moreover have "sid \<notin> granted s" using claim(2) sl unfolding slot_inv_def by blast
  ultimately show ?thesis
    using claim_shape [OF claim(5)] announcing_next [OF ids]
    by (intro end_inv_sub [OF inv]) (auto simp: claim(1))
next
  case (install n sid addr fs)
  have "owned s n = Some sid" using owned_task [OF install(2)] by simp
  then have "is_pending (sv_slot s)" "slot_sid (sv_slot s) = Some sid"
    using own unfolding owner_inv_def by metis+
  moreover have "ended_count t = ended_count s" unfolding install(1) by (rule ended_count_eq) simp
  ultimately show ?thesis by (intro end_inv_sub [OF inv]) (auto simp: install(1))
next
  case (upload_begins sid fid token addr dto slot)
  have "ended_count t = ended_count s" unfolding upload_begins(1) by (rule ended_count_eq) simp
  then show ?thesis
    using begin_shape [OF upload_begins(2)] announcing_next [OF ids]
    by (intro end_inv_sub [OF inv]) (auto simp: upload_begins(1))
next
  case (upload_finishes n sid fid result slot ended)
  note f = finalize_shape [OF upload_finishes(3)]
  show ?thesis
  proof (cases ended)
    case True
    show ?thesis
      by (rule end_inv_end [OF inv sl _ _ announcing_task [OF upload_finishes(2), simplified]])
        (use f True in \<open>simp_all add: upload_finishes(1)\<close>)
  next
    case False
    then show ?thesis unfolding upload_finishes(1)
      using f by (auto intro!: end_inv_become [OF inv] ended_count_eq)
  qed
next
  case (upload_cleanup n sid fid slot ended)
  note f = finalize_shape [OF upload_cleanup(3)]
  show ?thesis
  proof (cases ended)
    case True
    show ?thesis
      by (rule end_inv_end [OF inv sl _ _ announcing_task [OF upload_cleanup(2), simplified]])
        (use f True in \<open>simp_all add: upload_cleanup(1)\<close>)
  next
    case False
    then show ?thesis unfolding upload_cleanup(1)
      using f by (auto intro!: end_inv_become [OF inv] ended_count_eq)
  qed
next
  case (cancel_active_session n addr sid slot cancelled)
  note f = cancel_active_shape [OF cancel_active_session(3)]
  show ?thesis
  proof (cases cancelled)
    case True
    show ?thesis
      by (rule end_inv_end [OF inv sl _ _ announcing_task [OF cancel_active_session(2), simplified]])
        (use f True in \<open>simp_all add: cancel_active_session(1)\<close>)
  next
    case False
    then show ?thesis unfolding cancel_active_session(1)
      using f by (auto intro!: end_inv_become [OF inv] ended_count_eq)
  qed
next
  case (notify n ev)
  show ?thesis by (rule end_inv_notify [OF inv notify(2) notify(1)])
next
  case (drop n u u')
  have "Option.bind u' announces = None" using drop(3) by (auto elim!: dropped.elims)
  then show ?thesis unfolding drop(1) by (intro end_inv_become [OF inv]) simp_all
next
  case (cancel_pending_request addr osid tok p)
  have "ended_count t = ended_count s" unfolding cancel_pending_request(1) by (rule ended_count_eq) simp
  then show ?thesis by (intro end_inv_sub [OF inv]) (auto simp: cancel_pending_request(1))
next
  case (cancel_not_pending addr sid)
  have "ended_count t = ended_count s" unfolding cancel_not_pending(1) by (rule ended_count_eq) simp
  then show ?thesis using announcing_next [OF ids]
    by (intro end_inv_sub [OF inv]) (auto simp: cancel_not_pending(1))
next
  case (app_cancels sid slot cancelled)
  have "ended_count t = ended_count s" unfolding app_cancels(1) by (rule ended_count_eq) simp
  then show ?thesis using cancel_v2_session_shape [OF app_cancels(2)]
    by (intro end_inv_sub [OF inv]) (auto simp: app_cancels(1) split: if_splits)
next
  case (clear n sid reply)
  show ?thesis unfolding clear(1)
    by (rule end_inv_become [OF inv]) (auto intro!: ended_count_eq dest: clear_sid)
next
  case (cleanup n sid)
  show ?thesis unfolding cleanup(1)
    by (rule end_inv_become [OF inv]) (auto intro!: ended_count_eq dest: clear_sid)
qed (auto intro!: end_inv_become [OF inv] ended_count_eq)

section \<open>The machine\<close>

definition server_inv :: "server \<Rightarrow> bool" where
  "server_inv s \<longleftrightarrow> ids_inv s \<and> owner_inv s \<and> slot_inv s \<and> tasks_inv s \<and> recv_inv s \<and>
     count_inv s \<and> end_inv s"

lemma server_inv_start: "server_inv start_server"
proof -
  have f: "owned start_server = (\<lambda>_. None)" "received start_server = (\<lambda>_. None)"
    "sending start_server = (\<lambda>_. None)" "announcing start_server = (\<lambda>_. None)"
    by (auto simp: start_server_def owned_def received_def sending_def announcing_def)
  show ?thesis
    unfolding server_inv_def ids_inv_def owner_inv_def slot_inv_def tasks_inv_def recv_inv_def
      count_inv_def end_inv_def total_starts_def f one_each_def
    by (simp add: start_server_def started_def ended_count_def)
qed

lemma server_inv_step: "server_inv s \<Longrightarrow> sstep s t \<Longrightarrow> server_inv t"
  unfolding server_inv_def
  using ids_step owner_step slot_step tasks_step recv_step count_step end_step by blast

interpretation v2: transition_system "\<lambda>s. s = start_server" sstep server_inv
  by unfold_locales (auto intro: server_inv_start server_inv_step)

definition reachable :: "server \<Rightarrow> bool" where
  "reachable s \<longleftrightarrow> rtranclp sstep start_server s"

lemma reachable_invs:
  assumes "reachable s"
  shows "owner_inv s" "slot_inv s" "recv_inv s" "count_inv s" "end_inv s"
  using v2.reachable_inv [OF refl] assms by (simp_all add: reachable_def server_inv_def)

lemma reachable_start [simp]: "reachable start_server"
  by (simp add: reachable_def)

lemma reachable_step: "reachable s \<Longrightarrow> sstep s t \<Longrightarrow> reachable t"
  by (simp add: reachable_def)

section \<open>A run\<close>

text \<open>A prepare-upload request of one file, up to its wait for the decision.\<close>

definition sample_files :: "(string \<times> file_dto) list" where
  "sample_files = [(''f1'', sample_dto ''f1'' 2)]"

definition sample_pending :: pending_session where
  "sample_pending = \<lparr>ps_session_id = ''s1'', ps_sender_ip = peer sample_client, ps_cancel = 0\<rparr>"

definition asked :: server where
  "asked = spawn (PSending ''s1'' (peer sample_client) sample_info None sample_files)
     (start_server\<lparr>sv_slot := Some (Pending sample_pending), used := {''s1''}\<rparr>)"

definition deciding :: server where
  "deciding = become 0 (Some (PDeciding ''s1'' (peer sample_client) sample_files))
     (asked\<lparr>log := [PrepareUpload ''s1'' (peer sample_client) sample_info None sample_files]\<rparr>)"

lemma asked_facts:
  "tasks asked 0 = Some (PSending ''s1'' (peer sample_client) sample_info None sample_files)"
  "sv_slot asked = Some (Pending sample_pending)" "log asked = []"
  by (simp_all add: asked_def start_server_def)

lemma reachable_asked: "reachable asked"
proof (rule reachable_step [OF reachable_start])
  have "sstep start_server (spawn (PSending ''s1'' (peer sample_client) sample_info None sample_files)
      (start_server\<lparr>sv_slot := Some (Pending sample_pending), used := insert ''s1'' (used start_server)\<rparr>))"
    by (rule sstep.claim)
      (simp_all add: start_server_def sample_files_def claim_slot_def sample_pending_def)
  then show "sstep start_server asked" by (simp add: asked_def start_server_def)
qed

lemma reachable_deciding: "reachable deciding"
  using reachable_step [OF reachable_asked sstep.prepare_sent [OF asked_facts(1)]] asked_facts(3)
  by (simp add: deciding_def)

lemma deciding_facts:
  "tasks deciding = [0 \<mapsto> PDeciding ''s1'' (peer sample_client) sample_files]"
  "sv_slot deciding = Some (Pending sample_pending)"
  by (auto simp: deciding_def asked_facts asked_def start_server_def)

section \<open>Properties\<close>

text \<open>
  C2. However requests interleave, and wherever they are dropped, a prepare-upload handler past its
  claim, or the cleanup its guard spawned, is the only one, and the pending entry in the slot is its
  own: clearing the slot without looking at the session id never frees another request's slot, and
  installing a session unconditionally never overwrites another one.
\<close>

theorem pending_slot_single_owner:
  assumes "reachable s" and "tasks s n = Some t" and "owner t = Some sid"
  shows "(\<exists>p. sv_slot s = Some (Pending p) \<and> ps_session_id p = sid) \<and>
    {m. owned s m \<noteq> None} = {n}"
proof -
  have own: "owner_inv s" using reachable_invs(1) [OF assms(1)] .
  have n: "owned s n = Some sid" using owned_task [OF assms(2)] assms(3) by simp
  then have "is_pending (sv_slot s)" "slot_sid (sv_slot s) = Some sid"
    using own unfolding owner_inv_def by metis+
  then have "\<exists>p. sv_slot s = Some (Pending p) \<and> ps_session_id p = sid"
    by (cases "sv_slot s" rule: is_pending.cases) auto
  moreover have "{m. owned s m \<noteq> None} = {n}" using own n unfolding owner_inv_def by blast
  ultimately show ?thesis ..
qed

theorem pending_slot_single_owner_witness:
  "{m. owned deciding m \<noteq> None} = {0}"
  using pending_slot_single_owner [OF reachable_deciding, of 0] deciding_facts(1) by simp

text \<open>
  C3. However uploads interleave, and wherever they are dropped, no two of them receive the same file
  of a session at once, and the application is asked for a target for it at most three times.
\<close>

theorem uploads_exclusive_and_bounded:
  assumes "reachable s"
  shows "one_each (received s) \<and> started s (sid, fid) \<le> 3"
proof -
  have "one_each (received s)" using reachable_invs(3) [OF assms] unfolding recv_inv_def one_each_def by blast
  moreover have "started s (sid, fid) \<le> total_starts s (sid, fid)" by (simp add: total_starts_def)
  then have "started s (sid, fid) \<le> 3"
    using reachable_invs(4) [OF assms] unfolding count_inv_def by (metis le_trans)
  ultimately show ?thesis ..
qed

theorem uploads_exclusive_and_bounded_witness:
  "one_each (received deciding) \<and> started deciding (''s1'', ''f1'') \<le> 3"
  by (rule uploads_exclusive_and_bounded [OF reachable_deciding])

text \<open>
  C10. The application is told at most once that a session ended, whether its last file finished, a
  dropped upload was cleaned up or the sender cancelled, and by then the session is out of the slot.
\<close>

theorem session_ends_once:
  assumes "reachable s"
  shows "ended_count s sid \<le> 1 \<and> (ended_count s sid = 0 \<or> slot_sid (sv_slot s) \<noteq> Some sid)"
  using reachable_invs(5) [OF assms] unfolding end_inv_def by auto

theorem session_ends_once_witness:
  "ended_count deciding ''s1'' \<le> 1"
  using session_ends_once [OF reachable_deciding] by blast

text \<open>
  The slot leaks: \<open>PendingSessionGuard::clear\<close> disarms the guard before it waits for the lock, so
  a request dropped at that moment leaves its pending entry behind. From then on no request, cancel or
  application call frees the slot, and every prepare-upload is refused.
\<close>

definition stuck :: "server \<Rightarrow> bool" where
  "stuck s \<longleftrightarrow> is_pending (sv_slot s) \<and> (\<forall>n. owned s n = None)"

lemma stuck_step:
  assumes "stuck s" and "sstep s t"
  shows "stuck t"
proof -
  have own: "owner u = None" if "tasks s n = Some u" for n u
    using assms(1) owned_task [OF that] by (simp add: stuck_def)
  have slot: "is_pending (sv_slot s)" using assms(1) by (simp add: stuck_def)
  show ?thesis
    using assms(2)
  proof cases
    case (drop n u u')
    have "Option.bind u' owner = None"
      using dropped_facts(1) [of u] drop(3) own [OF drop(2)] by (cases u') auto
    then show ?thesis using assms(1) by (auto simp: stuck_def drop(1))
  next
    case (claim sid files addr slot info crt)
    then show ?thesis using slot claim_shape [OF claim(5)] by simp
  next
    case (upload_begins sid fid token addr dto slot)
    then show ?thesis using slot begin_shape [OF upload_begins(2)] by simp
  next
    case (upload_finishes n sid fid result slot ended)
    then show ?thesis using assms(1) finalize_shape [OF upload_finishes(3)]
      by (auto simp: stuck_def split: if_splits)
  next
    case (upload_cleanup n sid fid slot ended)
    then show ?thesis using assms(1) finalize_shape [OF upload_cleanup(3)]
      by (auto simp: stuck_def split: if_splits)
  next
    case (cancel_active_session n addr sid slot cancelled)
    then show ?thesis using assms(1) cancel_active_shape [OF cancel_active_session(3)]
      by (auto simp: stuck_def split: if_splits)
  next
    case (app_cancels sid slot cancelled)
    then show ?thesis using assms(1) cancel_v2_session_shape [OF app_cancels(2)]
      by (auto simp: stuck_def split: if_splits)
  qed (use assms(1) own in \<open>auto simp: stuck_def dest!: own\<close>)
qed

lemma stuck_steps: "rtranclp sstep s t \<Longrightarrow> stuck s \<Longrightarrow> stuck t"
  by (induction rule: rtranclp_induct) (auto intro: stuck_step)

definition leaked :: server where
  "leaked = become 0 None (become 0 (Some (PClearing ''s1'' (Inl (Message 403 ''Rejected'')))) deciding)"

lemma leaked_facts: "reachable leaked" "stuck leaked"
proof -
  have "tasks deciding 0 = Some (PDeciding ''s1'' (peer sample_client) sample_files)"
    by (simp add: deciding_facts)
  then have "reachable (become 0 (Some (PClearing ''s1'' (Inl (Message 403 ''Rejected'')))) deciding)"
    by (rule reachable_step [OF reachable_deciding sstep.prepare_clears [where w = "Decided Decline"]]) simp
  then show "reachable leaked" unfolding leaked_def by (rule reachable_step) (rule sstep.drop, simp, simp)
  show "stuck leaked" by (auto simp: stuck_def leaked_def deciding_facts owned_def)
qed

theorem pending_slot_leaks:
  "\<exists>s. reachable s \<and>
    {t. rtranclp sstep s t} \<subseteq> {t. \<forall>sid addr tok slot. claim_slot sid addr tok (sv_slot t) \<noteq> Inr slot}"
proof (intro exI conjI subsetI CollectI allI notI)
  show "reachable leaked" by (rule leaked_facts)
  fix t sid addr tok slot
  assume "t \<in> {t. rtranclp sstep leaked t}"
  then have "stuck t" using stuck_steps leaked_facts(2) by blast
  moreover assume "claim_slot sid addr tok (sv_slot t) = Inr slot"
  ultimately show False using claim_shape by (fastforce simp: stuck_def)
qed

text \<open>
  A cancel that was answered with success may be lost: the decision may have been taken already
  when the sender cancels the pending request, and the session then becomes active all the same.
\<close>

theorem cancelled_request_granted:
  "\<exists>s sid ses. reachable s \<and> sid \<in> acked s \<and> sv_slot s = Some (Active ses) \<and> us_session_id ses = sid"
proof -
  let ?fs = "accepted_files id sample_files [''f1'']"
  let ?acc = "become 0 (Some (PInstalling ''s1'' (peer sample_client) ?fs)) deciding"
  have "tasks deciding 0 = Some (PDeciding ''s1'' (peer sample_client) sample_files)"
    by (simp add: deciding_facts)
  then have "reachable ?acc"
    by (rule reachable_step [OF reachable_deciding
          sstep.prepare_accepted [where w = "Decided (Accept [''f1''])" and new_token = id]])
      (simp add: sample_files_def accepted_files_def)
  then have r: "reachable (?acc\<lparr>fired := insert 0 (fired ?acc), acked := insert (ps_session_id sample_pending) (acked ?acc)\<rparr>)"
    (is "reachable ?ack")
    by (rule reachable_step)
      (rule sstep.cancel_pending_request [of "peer sample_client" None],
        simp_all add: cancel_pending_def deciding_facts sample_pending_def)
  have "reachable (become 0 None (?ack\<lparr>sv_slot := install_session ''s1'' (peer sample_client) ?fs,
      granted := insert ''s1'' (granted ?ack)\<rparr>))" (is "reachable ?end")
    by (rule reachable_step [OF r]) (rule sstep.install, simp)
  moreover have "''s1'' \<in> acked ?end" by (simp add: sample_pending_def)
  moreover have "\<exists>ses. sv_slot ?end = Some (Active ses) \<and> us_session_id ses = ''s1''"
    by (simp add: install_session_def)
  ultimately show ?thesis by blast
qed

end
