(* ===== verification/Web_Download.thy ===== *)
theory Web_Download
  imports V2_Session
begin

text \<open>
  The browser-facing pages and the download API (\<open>http/server/web.rs\<close>): which page is served, the
  prepare-download and download handlers, and the map of download sessions as requests interleave.
  A session is keyed by the rendered address of its client (\<open>show_ip\<close>); the application's answers,
  the PIN cache and the percent-encoding crate are arguments.
\<close>

section \<open>State\<close>

record web_pages =
  download_html :: "string option"
  upload_html :: "string option"
  error_403_html :: "string option"

record web_session =
  ws_ip :: peer_ip
  ws_accepted :: bool

type_synonym sessions = "string \<Rightarrow> web_session option"

record 'c web_download_state =
  wd_files :: "string \<Rightarrow> file_dto option"
  wd_pin :: "string option"
  wd_sessions :: sessions
  wd_pin_attempts :: 'c

datatype 'c web_share = Disabled | Download "'c web_download_state" | Upload

fun share_download :: "'c web_share \<Rightarrow> 'c web_download_state option" where
  "share_download (Download d) = Some d"
| "share_download Disabled = None"
| "share_download Upload = None"

datatype web_event =
    PrepareDownload peer_ip string "string option"
  | FileDownload string string file_dto

section \<open>Pages\<close>

text \<open>\<open>assets\<close> holds the pages embedded at compile time.\<close>

definition or_asset :: "string option \<Rightarrow> string \<Rightarrow> string" where
  "or_asset page asset = (case page of Some p \<Rightarrow> p | None \<Rightarrow> asset)"

record assets =
  DOWNLOAD_HTML :: string
  UPLOAD_HTML :: string
  ERROR_403_HTML :: string

definition index :: "assets \<Rightarrow> web_pages \<Rightarrow> 'c web_share \<Rightarrow> status_code \<times> string" where
  "index assets pages share =
     (case share of
        Download _ \<Rightarrow> (200, or_asset (download_html pages) (DOWNLOAD_HTML assets))
      | Upload \<Rightarrow> (200, or_asset (upload_html pages) (UPLOAD_HTML assets))
      | Disabled \<Rightarrow> (403, or_asset (error_403_html pages) (ERROR_403_HTML assets)))"

section \<open>Sections of the handlers\<close>

definition require_web :: "'c web_share \<Rightarrow> app_error + 'c web_download_state" where
  "require_web share =
     (case share_download share of
        Some d \<Rightarrow> Inr d
      | None \<Rightarrow> Inl (Message 403 ''Web download not initialized.''))"

definition session_valid :: "peer_ip \<Rightarrow> string \<Rightarrow> sessions \<Rightarrow> bool" where
  "session_valid addr sid m =
     (case m sid of Some w \<Rightarrow> ws_accepted w \<and> ws_ip w = addr | None \<Rightarrow> False)"

definition insert_pending :: "peer_ip \<Rightarrow> string \<Rightarrow> sessions \<Rightarrow> sessions" where
  "insert_pending addr sid m = m(sid \<mapsto> \<lparr>ws_ip = addr, ws_accepted = False\<rparr>)"

definition accept_session :: "string \<Rightarrow> sessions \<Rightarrow> sessions" where
  "accept_session sid m =
     (case m sid of Some w \<Rightarrow> m(sid \<mapsto> w\<lparr>ws_accepted := True\<rparr>) | None \<Rightarrow> m)"

definition clear_web_session :: "string \<Rightarrow> sessions \<Rightarrow> sessions" where
  "clear_web_session sid m =
     (case m sid of Some w \<Rightarrow> if \<not> ws_accepted w then m(sid := None) else m | None \<Rightarrow> m)"

section \<open>Prepare-download\<close>

record file_list =
  fl_info :: info_response_v2
  fl_session_id :: string
  fl_files :: "string \<Rightarrow> file_dto option"

definition file_list_response ::
  "client_info \<Rightarrow> 'c web_download_state \<Rightarrow> string \<Rightarrow> file_list" where
  "file_list_response info d sid =
     \<lparr>fl_info = info_response info True, fl_session_id = sid, fl_files = wd_files d\<rparr>"

text \<open>
  The handler when nothing interleaves with it. \<open>sent\<close> tells whether the application receives events
  and \<open>decision\<close> is its answer (\<open>None\<close>: the channel was dropped).
\<close>

definition prepare_download ::
  "'c lru_ops \<Rightarrow> (peer_ip \<Rightarrow> string) \<Rightarrow> client_info \<Rightarrow> 'c web_share \<Rightarrow> query \<Rightarrow> peer_ip \<Rightarrow>
   string option \<Rightarrow> bool \<Rightarrow> bool option \<Rightarrow>
   (app_error + file_list) \<times> 'c web_share \<times> web_event list" where
  "prepare_download ops show_ip info share query addr user_agent sent decision =
     (case require_web share of
        Inl err \<Rightarrow> (Inl err, share, [])
      | Inr d \<Rightarrow>
          (let refetch = (case query ''sessionId'' of
             Some old \<Rightarrow> if session_valid addr old (wd_sessions d) then Some old else None
           | None \<Rightarrow> None)
           in case refetch of
            Some old \<Rightarrow> (Inr (file_list_response info d old), share, [])
          | None \<Rightarrow>
              (case check_pin ops (wd_pin d) (wd_pin_attempts d) query (ip addr) of
                 (Inl err, attempts) \<Rightarrow> (Inl err, Download (d\<lparr>wd_pin_attempts := attempts\<rparr>), [])
               | (Inr _, attempts) \<Rightarrow>
                   let sid = show_ip addr;
                       m = insert_pending addr sid (wd_sessions d);
                       d = d\<lparr>wd_pin_attempts := attempts\<rparr>;
                       cleared = Download (d\<lparr>wd_sessions := clear_web_session sid m\<rparr>);
                       asked = PrepareDownload addr sid user_agent
                   in if \<not> sent then (Inl (Status 500), cleared, [])
                      else case decision of
                        None \<Rightarrow> (Inl (Status 500), cleared, [asked])
                      | Some False \<Rightarrow> (Inl (Message 403 ''File transfer rejected.''), cleared, [asked])
                      | Some True \<Rightarrow>
                          (Inr (file_list_response info d sid),
                           Download (d\<lparr>wd_sessions := accept_session sid m\<rparr>), [asked]))))"

section \<open>Download\<close>

record download_response =
  dl_file_name :: rstring   \<comment> \<open>of the content disposition, percent-encoded\<close>
  dl_length :: u64
  dl_chunks :: "bytes list"

definition dash_slashes :: "rstring \<Rightarrow> rstring" where
  "dash_slashes name = map (\<lambda>c. if c = 47 then 45 else c) name"

text \<open>
  \<open>content\<close> are the chunks the application provides (\<open>None\<close>: the channel was dropped), \<open>encode\<close> is
  \<open>utf8_percent_encode\<close> and \<open>header_ok\<close> whether a string is a legal header value.
\<close>

definition download_file ::
  "(rstring \<Rightarrow> rstring) \<Rightarrow> (rstring \<Rightarrow> bool) \<Rightarrow> 'c web_share \<Rightarrow> query \<Rightarrow> peer_ip \<Rightarrow> bool \<Rightarrow>
   bytes list option \<Rightarrow> (app_error + download_response) \<times> web_event list" where
  "download_file encode header_ok share query addr sent given =
     (case require_web share of
        Inl err \<Rightarrow> (Inl err, [])
      | Inr d \<Rightarrow>
          (case query ''sessionId'' of
             None \<Rightarrow> (Inl (BadRequest ''Missing sessionId.''), [])
           | Some sid \<Rightarrow>
               if \<not> session_valid addr sid (wd_sessions d)
               then (Inl (Message 403 ''Invalid sessionId.''), [])
               else (case query ''fileId'' of
                 None \<Rightarrow> (Inl (BadRequest ''Missing fileId.''), [])
               | Some fid \<Rightarrow>
                   (case wd_files d fid of
                      None \<Rightarrow> (Inl (Message 403 ''Invalid fileId.''), [])
                    | Some file \<Rightarrow>
                        if \<not> sent then (Inl (Status 500), [])
                        else (case given of
                          None \<Rightarrow> (Inl (Status 500), [FileDownload sid fid file])
                        | Some chunks \<Rightarrow>
                            let name = encode (dash_slashes (file_name file))
                            in (if header_ok name
                                then Inr \<lparr>dl_file_name = name, dl_length = size_of file,
                                          dl_chunks = chunks\<rparr>
                                else Inl (Status 500),
                                [FileDownload sid fid file]))))))"

section \<open>Interleaved requests\<close>

text \<open>
  Prepare-download requests as tasks: \<open>WAsking\<close> waits for the application with its guard armed,
  \<open>WClearing\<close> waits for the lock in \<open>pending_guard.clear()\<close>, \<open>WAccepting\<close> waits for it to accept and
  \<open>WCleanup\<close> is spawned by the drop of an armed guard.
\<close>

datatype web_task =
    WAsking peer_ip string
  | WClearing peer_ip string
  | WAccepting peer_ip string
  | WCleanup string

record web_server =
  w_sessions :: sessions
  w_tasks :: "nat \<Rightarrow> web_task option"
  w_approved :: "peer_ip set"             \<comment> \<open>clients of which the application accepted a request\<close>
  w_served :: "(nat \<times> peer_ip) list"      \<comment> \<open>requests answered with the file list\<close>

definition start_web :: web_server where
  "start_web = \<lparr>w_sessions = (\<lambda>_. None), w_tasks = (\<lambda>_. None), w_approved = {}, w_served = []\<rparr>"

definition w_become :: "nat \<Rightarrow> web_task option \<Rightarrow> web_server \<Rightarrow> web_server" where
  "w_become n t s = s\<lparr>w_tasks := (w_tasks s)(n := t)\<rparr>"

fun w_dropped :: "web_task \<Rightarrow> web_task option option" where
  "w_dropped (WAsking addr sid) = Some (Some (WCleanup sid))"
| "w_dropped (WAccepting addr sid) = Some (Some (WCleanup sid))"
| "w_dropped (WClearing addr sid) = Some None"
| "w_dropped (WCleanup sid) = None"

inductive wstep :: "(peer_ip \<Rightarrow> string) \<Rightarrow> web_server \<Rightarrow> web_server \<Rightarrow> bool" for show_ip where
  w_insert:
    "w_tasks s n = None \<Longrightarrow>
     wstep show_ip s (w_become n (Some (WAsking addr (show_ip addr)))
       (s\<lparr>w_sessions := insert_pending addr (show_ip addr) (w_sessions s)\<rparr>))"
| w_failed:
    "w_tasks s n = Some (WAsking addr sid) \<Longrightarrow> wstep show_ip s (w_become n (Some (WCleanup sid)) s)"
| w_declined:
    "w_tasks s n = Some (WAsking addr sid) \<Longrightarrow> wstep show_ip s (w_become n (Some (WClearing addr sid)) s)"
| w_approved_by_app:
    "w_tasks s n = Some (WAsking addr sid) \<Longrightarrow>
     wstep show_ip s (w_become n (Some (WAccepting addr sid)) (s\<lparr>w_approved := insert addr (w_approved s)\<rparr>))"
| w_clear:
    "w_tasks s n = Some (WClearing addr sid) \<Longrightarrow>
     wstep show_ip s (w_become n None (s\<lparr>w_sessions := clear_web_session sid (w_sessions s)\<rparr>))"
| w_accept:
    "w_tasks s n = Some (WAccepting addr sid) \<Longrightarrow>
     wstep show_ip s (w_become n None (s\<lparr>w_sessions := accept_session sid (w_sessions s),
       w_served := w_served s @ [(n, addr)]\<rparr>))"
| w_cleanup:
    "w_tasks s n = Some (WCleanup sid) \<Longrightarrow>
     wstep show_ip s (w_become n None (s\<lparr>w_sessions := clear_web_session sid (w_sessions s)\<rparr>))"
| w_drop:
    "\<lbrakk>w_tasks s n = Some t; w_dropped t = Some t'\<rbrakk> \<Longrightarrow> wstep show_ip s (w_become n t' s)"

lemma w_become_simps [simp]:
  "w_tasks (w_become n t s) = (w_tasks s)(n := t)" "w_sessions (w_become n t s) = w_sessions s"
  "w_approved (w_become n t s) = w_approved s" "w_served (w_become n t s) = w_served s"
  by (simp_all add: w_become_def)

text \<open>Every session is keyed by its address, and an accepted one was approved by the application.\<close>

fun asks_for :: "web_task \<Rightarrow> (peer_ip \<times> string) option" where
  "asks_for (WAsking addr sid) = Some (addr, sid)"
| "asks_for (WAccepting addr sid) = Some (addr, sid)"
| "asks_for _ = None"

definition web_inv :: "(peer_ip \<Rightarrow> string) \<Rightarrow> web_server \<Rightarrow> bool" where
  "web_inv show_ip s \<longleftrightarrow>
     (\<forall>sid w. w_sessions s sid = Some w \<longrightarrow> sid = show_ip (ws_ip w) \<and>
        (ws_accepted w \<longrightarrow> ws_ip w \<in> w_approved s)) \<and>
     (\<forall>n t addr sid. w_tasks s n = Some t \<and> asks_for t = Some (addr, sid) \<longrightarrow> sid = show_ip addr) \<and>
     (\<forall>n addr sid. w_tasks s n = Some (WAccepting addr sid) \<longrightarrow> addr \<in> w_approved s)"

lemma clear_web_cases: "clear_web_session sid m i = m i \<or> clear_web_session sid m i = None"
  by (auto simp: clear_web_session_def split: option.split)

lemma web_start_inv: "web_inv show_ip start_web"
  by (simp add: web_inv_def start_web_def)

lemma web_step_inv:
  assumes inj: "inj show_ip" and inv: "web_inv show_ip s" and step: "wstep show_ip s t"
  shows "web_inv show_ip t"
  using step
proof cases
  case (w_insert n addr)
  then show ?thesis using inv by (auto simp: web_inv_def insert_pending_def)
next
  case (w_accept n addr sid)
  have "sid = show_ip addr" "addr \<in> w_approved s"
    using inv w_accept(2) unfolding web_inv_def by (metis asks_for.simps(2), metis)
  then show ?thesis
    using inv injD [OF inj] unfolding w_accept(1)
    by (auto simp: web_inv_def accept_session_def split: option.splits if_splits)
next
  case (w_clear n addr sid)
  have "web_inv show_ip (s\<lparr>w_sessions := clear_web_session sid (w_sessions s)\<rparr>)"
    using inv clear_web_cases [of sid "w_sessions s"] unfolding web_inv_def
    by simp (metis option.distinct(1))
  then show ?thesis unfolding w_clear(1) by (auto simp: web_inv_def)
next
  case (w_cleanup n sid)
  have "web_inv show_ip (s\<lparr>w_sessions := clear_web_session sid (w_sessions s)\<rparr>)"
    using inv clear_web_cases [of sid "w_sessions s"] unfolding web_inv_def
    by simp (metis option.distinct(1))
  then show ?thesis unfolding w_cleanup(1) by (auto simp: web_inv_def)
next
  case (w_drop n u u')
  then show ?thesis using inv by (auto simp: web_inv_def elim!: w_dropped.elims)
next
  case (w_failed n addr sid)
  then show ?thesis using inv by (auto simp: web_inv_def)
next
  case (w_declined n addr sid)
  then show ?thesis using inv by (auto simp: web_inv_def)
next
  case (w_approved_by_app n addr sid)
  then show ?thesis using inv by (fastforce simp: web_inv_def)
qed

interpretation web: transition_system "\<lambda>s. s = start_web" "wstep show_ip"
  "\<lambda>s. inj show_ip \<longrightarrow> web_inv show_ip s" for show_ip
  by unfold_locales (auto intro: web_start_inv web_step_inv)

section \<open>Properties\<close>

text \<open>
  C24. However prepare-download requests interleave, a download is only served to a client that the
  application accepted a request of, for a file on offer, under the session of that very address.
\<close>

theorem download_only_approved:
  assumes "inj show_ip" and "rtranclp (wstep show_ip) start_web s"
    and "download_file encode header_ok (Download (d\<lparr>wd_sessions := w_sessions s\<rparr>)) query addr sent given =
      (Inr r, events)"
  shows "addr \<in> w_approved s \<and> query ''sessionId'' = Some (show_ip addr) \<and>
    (\<exists>fid file. query ''fileId'' = Some fid \<and> wd_files d fid = Some file \<and> dl_length r = size_of file \<and>
      events = [FileDownload (show_ip addr) fid file])"
proof -
  have inv: "web_inv show_ip s" using web.reachable_inv [OF refl assms(2)] assms(1) by blast
  obtain sid where sid: "query ''sessionId'' = Some sid" and valid: "session_valid addr sid (w_sessions s)"
    using assms(3) by (auto simp: download_file_def require_web_def split: option.splits if_splits)
  have "sid = show_ip addr \<and> addr \<in> w_approved s"
    using inv valid unfolding web_inv_def session_valid_def by (auto split: option.splits)
  then show ?thesis
    using assms(3) sid by (auto simp: download_file_def require_web_def Let_def split: option.splits if_splits)
qed

text \<open>A rendering of addresses that keeps them apart, to instantiate \<open>show_ip\<close> with.\<close>

definition render_ip :: "ip_addr \<Rightarrow> string" where
  "render_ip i = (case i of V4 a \<Rightarrow> CHR ''4'' # replicate (unat a) CHR ''1''
                          | V6 a \<Rightarrow> CHR ''6'' # replicate (unat a) CHR ''1'')"

definition render_peer :: "peer_ip \<Rightarrow> string" where
  "render_peer p = render_ip (ip p) @
     (case scope_id p of None \<Rightarrow> [] | Some k \<Rightarrow> CHR ''%'' # replicate (unat k) CHR ''1'')"

lemma render_ip_inj: "render_ip i = render_ip j \<Longrightarrow> i = j"
  by (cases i; cases j)
    (auto simp: render_ip_def intro: word_unat_eq_iff [THEN iffD2] dest: arg_cong [of _ _ length])

lemma render_ip_plain: "c \<in> set (render_ip i) \<Longrightarrow> c \<noteq> CHR ''%''"
  by (cases i) (auto simp: render_ip_def)

lemma render_peer_parts:
  "takeWhile (\<lambda>c. c \<noteq> CHR ''%'') (render_peer p) = render_ip (ip p)"
  "dropWhile (\<lambda>c. c \<noteq> CHR ''%'') (render_peer p) =
     (case scope_id p of None \<Rightarrow> [] | Some k \<Rightarrow> CHR ''%'' # replicate (unat k) CHR ''1'')"
  using render_ip_plain by (auto simp: render_peer_def takeWhile_append2 dropWhile_append2 split: option.split)

lemma render_peer_inj: "inj render_peer"
proof (rule injI)
  fix p q :: peer_ip
  assume eq: "render_peer p = render_peer q"
  then have "ip p = ip q" using render_peer_parts(1) render_ip_inj by metis
  moreover have "(case scope_id p of None \<Rightarrow> [] | Some k \<Rightarrow> CHR ''%'' # replicate (unat k) CHR ''1'') =
      (case scope_id q of None \<Rightarrow> [] | Some k \<Rightarrow> CHR ''%'' # replicate (unat k) CHR ''1'')"
    using eq render_peer_parts(2) by metis
  then have "scope_id p = scope_id q"
    by (auto split: option.splits intro: word_unat_eq_iff [THEN iffD2] dest: arg_cong [of _ _ length])
  ultimately show "p = q" by (cases p; cases q) simp
qed

definition web_client :: peer_ip where
  "web_client = \<lparr>ip = V4 5, scope_id = None\<rparr>"

definition served_web :: web_server where
  "served_web = start_web\<lparr>w_sessions := [render_peer web_client \<mapsto> \<lparr>ws_ip = web_client, ws_accepted = True\<rparr>],
     w_approved := {web_client}, w_served := [(0, web_client)]\<rparr>"

lemma served_web_reachable: "rtranclp (wstep render_peer) start_web served_web"
proof -
  let ?sid = "render_peer web_client"
  let ?s1 = "w_become 0 (Some (WAsking web_client ?sid))
      (start_web\<lparr>w_sessions := insert_pending web_client ?sid (w_sessions start_web)\<rparr>)"
  let ?s2 = "w_become 0 (Some (WAccepting web_client ?sid)) (?s1\<lparr>w_approved := insert web_client (w_approved ?s1)\<rparr>)"
  let ?s3 = "w_become 0 None (?s2\<lparr>w_sessions := accept_session ?sid (w_sessions ?s2),
      w_served := w_served ?s2 @ [(0, web_client)]\<rparr>)"
  have "wstep render_peer start_web ?s1" by (rule wstep.w_insert) (simp add: start_web_def)
  moreover have "wstep render_peer ?s1 ?s2" by (rule wstep.w_approved_by_app) simp
  moreover have "wstep render_peer ?s2 ?s3" by (rule wstep.w_accept) simp
  moreover have "?s3 = served_web"
    by (auto simp: served_web_def start_web_def w_become_def insert_pending_def accept_session_def)
  ultimately show ?thesis
    by (metis rtranclp.rtrancl_into_rtrancl rtranclp.rtrancl_refl)
qed

theorem download_only_approved_witness:
  "web_client \<in> w_approved served_web"
proof -
  have "download_file id (\<lambda>_. True)
      (Download ((\<lparr>wd_files = [''f1'' \<mapsto> sample_dto ''f1'' 2], wd_pin = None, wd_sessions = Map.empty,
         wd_pin_attempts = ()\<rparr>)\<lparr>wd_sessions := w_sessions served_web\<rparr>))
      [''sessionId'' \<mapsto> render_peer web_client, ''fileId'' \<mapsto> ''f1''] web_client True (Some [[1, 2]]) =
    (Inr \<lparr>dl_file_name = lit ''a.txt'', dl_length = 2, dl_chunks = [[1, 2]]\<rparr>,
     [FileDownload (render_peer web_client) ''f1'' (sample_dto ''f1'' 2)])"
    by (simp add: download_file_def require_web_def session_valid_def served_web_def sample_dto_def
        dash_slashes_def lit_def)
  from download_only_approved [OF render_peer_inj served_web_reachable this] show ?thesis by blast
qed

text \<open>
  Two prepare-downloads of one client share one session entry: when the application accepts the
  first and declines the second, the decline can remove the entry before the first handler marks it,
  which is then answered with the file list although no session exists.
\<close>

theorem accepted_download_without_session:
  "\<exists>s t n addr. rtranclp (wstep show_ip) start_web s \<and> wstep show_ip s t \<and>
     w_served t = w_served s @ [(n, addr)] \<and> addr \<in> w_approved s \<and>
     \<not> session_valid addr (show_ip addr) (w_sessions t)"
proof -
  let ?sid = "show_ip web_client"
  let ?ins = "\<lambda>n s. w_become n (Some (WAsking web_client ?sid))
      (s\<lparr>w_sessions := insert_pending web_client ?sid (w_sessions s)\<rparr>)"
  let ?s1 = "?ins 0 start_web"
  let ?s2 = "?ins 1 ?s1"
  let ?s3 = "w_become 0 (Some (WAccepting web_client ?sid)) (?s2\<lparr>w_approved := insert web_client (w_approved ?s2)\<rparr>)"
  let ?s4 = "w_become 1 (Some (WClearing web_client ?sid)) ?s3"
  let ?s5 = "w_become 1 None (?s4\<lparr>w_sessions := clear_web_session ?sid (w_sessions ?s4)\<rparr>)"
  let ?s6 = "w_become 0 None (?s5\<lparr>w_sessions := accept_session ?sid (w_sessions ?s5),
      w_served := w_served ?s5 @ [(0, web_client)]\<rparr>)"
  note step = rtranclp.rtrancl_into_rtrancl
  have "rtranclp (wstep show_ip) start_web ?s1"
    by (rule step [OF rtranclp.rtrancl_refl]) (rule wstep.w_insert, simp add: start_web_def)
  then have "rtranclp (wstep show_ip) start_web ?s2"
    by (rule step) (rule wstep.w_insert, simp add: start_web_def)
  then have "rtranclp (wstep show_ip) start_web ?s3"
    by (rule step) (rule wstep.w_approved_by_app, simp)
  then have "rtranclp (wstep show_ip) start_web ?s4" by (rule step) (rule wstep.w_declined, simp)
  then have "rtranclp (wstep show_ip) start_web ?s5" by (rule step) (rule wstep.w_clear, simp)
  moreover have "wstep show_ip ?s5 ?s6" by (rule wstep.w_accept) simp
  moreover have "w_sessions ?s6 ?sid = None"
    by (simp add: clear_web_session_def accept_session_def insert_pending_def)
  ultimately show ?thesis
    by (intro exI [of _ ?s5] exI [of _ ?s6] exI [of _ 0] exI [of _ web_client])
      (simp add: session_valid_def)
qed

end
