(* ===== verification/Http_Routes.thy ===== *)
theory Http_Routes
  imports Web_Download
begin

text \<open>
  How requests find their handlers: the URLs the clients build (\<open>http/client/url.rs\<close>, the requests of
  \<open>http/client/v2.rs\<close> and \<open>v3.rs\<close>), the dispatch of \<open>http/server/mod.rs\<close>, how a client reads a failed
  response, and the two small handlers \<open>internal::show\<close> and \<open>v3::nonce_exchange\<close>. Base64, JSON, the
  random generator, the nonce caches and the encoding of scoped hosts are arguments.
\<close>

section \<open>Client URLs\<close>

datatype http_method = GET | POST

definition endpoint :: "string \<Rightarrow> string" where
  "endpoint path =
     (if path = ''/register'' then ''/v1/node/handshake''
      else if path = ''/info'' then ''/v1/node/status''
      else if path = ''/prepare-upload'' then ''/v1/transfer/initiate''
      else if path = ''/upload'' then ''/v1/transfer/stream''
      else if path = ''/cancel'' then ''/v1/transfer/abort''
      else if path = ''/show'' then ''/v1/system/bring-to-front''
      else if path = ''/prepare-download'' then ''/v1/download/initiate''
      else if path = ''/download'' then ''/v1/download/stream''
      else path)"

record target_url =
  tu_protocol :: string
  tu_host :: string
  tu_port :: string       \<comment> \<open>the decimal digits of the port\<close>
  tu_path :: string
  tu_params :: "(string \<times> string) list"

text \<open>\<open>encode\<close> is \<open>scoped_host::encode\<close>. The API version of the URL takes no part in it.\<close>

definition url_host :: "(string \<Rightarrow> string option) \<Rightarrow> string \<Rightarrow> string" where
  "url_host encode host =
     (case encode host of
        Some h \<Rightarrow> h
      | None \<Rightarrow> if CHR '':'' \<in> set host then ''['' @ host @ '']'' else host)"

fun join_params :: "(string \<times> string) list \<Rightarrow> string" where
  "join_params [] = []"
| "join_params [(k, v)] = k @ ''='' @ v"
| "join_params ((k, v) # kvs) = k @ ''='' @ v @ ''&'' @ join_params kvs"

definition target_url_to_string :: "(string \<Rightarrow> string option) \<Rightarrow> target_url \<Rightarrow> string" where
  "target_url_to_string encode u =
     (let base = tu_protocol u @ ''://'' @ url_host encode (tu_host u) @ '':'' @ tu_port u @
                 endpoint (tu_path u)
      in if tu_params u = [] then base else base @ ''?'' @ join_params (tu_params u))"

text \<open>The requests the clients make.\<close>

datatype client_op =
    C2_Register | C2_PrepareUpload | C2_Upload | C2_Cancel | C2_Info | C2_PrepareDownload | C2_Download
  | C3_Nonce | C3_Register | C3_PrepareUpload | C3_Upload | C3_Cancel

fun op_request :: "client_op \<Rightarrow> http_method \<times> string" where
  "op_request C2_Register = (POST, ''/register'')"
| "op_request C2_PrepareUpload = (POST, ''/prepare-upload'')"
| "op_request C2_Upload = (POST, ''/upload'')"
| "op_request C2_Cancel = (POST, ''/cancel'')"
| "op_request C2_Info = (GET, ''/info'')"
| "op_request C2_PrepareDownload = (POST, ''/prepare-download'')"
| "op_request C2_Download = (GET, ''/download'')"
| "op_request C3_Nonce = (POST, ''/nonce'')"
| "op_request C3_Register = (POST, ''/register'')"
| "op_request C3_PrepareUpload = (POST, ''/prepare-upload'')"
| "op_request C3_Upload = (POST, ''/upload'')"
| "op_request C3_Cancel = (POST, ''/cancel'')"

section \<open>Dispatch\<close>

datatype route =
    R_Index | R_I18n | R_PrepareDownload | R_Download | R_Register | R_Info | R_PrepareUpload
  | R_Upload | R_Cancel | R_Show | R_Nonce | R_V3_Register

text \<open>The match on method and path; \<open>None\<close> is the fallback 404.\<close>

definition match_route :: "http_method \<Rightarrow> string \<Rightarrow> route option" where
  "match_route meth path =
     (if meth = GET then
        (if path = ''/'' then Some R_Index
         else if path = ''/i18n.json'' then Some R_I18n
         else if path = ''/v1/download/stream'' \<or> path = ''/api/linko/v2/download'' then Some R_Download
         else if path = ''/v1/node/status'' \<or> path = ''/api/linko/v1/info'' \<or>
                 path = ''/api/linko/v2/info'' then Some R_Info
         else None)
      else
        (if path = ''/v1/download/initiate'' \<or> path = ''/api/linko/v2/prepare-download''
         then Some R_PrepareDownload
         else if path = ''/v1/node/handshake'' \<or> path = ''/api/linko/v2/register'' then Some R_Register
         else if path = ''/v1/transfer/initiate'' \<or> path = ''/api/linko/v2/prepare-upload''
         then Some R_PrepareUpload
         else if path = ''/v1/transfer/stream'' \<or> path = ''/api/linko/v2/upload'' then Some R_Upload
         else if path = ''/v1/transfer/abort'' \<or> path = ''/api/linko/v2/cancel'' then Some R_Cancel
         else if path = ''/v1/system/bring-to-front'' \<or> path = ''/api/linko/v2/show'' then Some R_Show
         else if path = ''/v1/security/nonce'' \<or> path = ''/api/linko/v3/nonce'' then Some R_Nonce
         else if path = ''/v1/security/register'' \<or> path = ''/api/linko/v3/register''
         then Some R_V3_Register
         else None))"

definition needs_v2 :: "route \<Rightarrow> bool" where
  "needs_v2 r \<longleftrightarrow> r \<in> {R_Register, R_Info, R_PrepareUpload, R_Upload, R_Cancel}"

text \<open>The handler a request reaches, or the 404 of a disabled or unknown route.\<close>

definition dispatch :: "bool \<Rightarrow> http_method \<Rightarrow> string \<Rightarrow> app_error + route" where
  "dispatch v2_enabled meth path =
     (case match_route meth path of
        None \<Rightarrow> Inl (Status 404)
      | Some r \<Rightarrow> if needs_v2 r \<and> \<not> v2_enabled then Inl (Status 404) else Inr r)"

section \<open>Reading a failed response\<close>

record status_code_error =
  sce_status :: status_code
  sce_message :: "string option"

text \<open>\<open>parse\<close> reads the message of a JSON error body.\<close>

definition into_error :: "(string \<Rightarrow> string option) \<Rightarrow> status_code \<Rightarrow> string \<Rightarrow> status_code_error" where
  "into_error parse status body =
     (let message = (case parse body of Some m \<Rightarrow> m | None \<Rightarrow> body)
      in \<lparr>sce_status = status, sce_message = (if message = [] then None else Some message)\<rparr>)"

section \<open>The show handler\<close>

record internal_state =
  show_token :: string

text \<open>\<open>parse\<close> reads the arguments from a non-empty body. The event is sent whatever comes of it.\<close>

definition show_instance :: "internal_state option \<Rightarrow> (bytes \<Rightarrow> string list option) \<Rightarrow> query \<Rightarrow> app_error + bytes \<Rightarrow>
    (app_error + unit) \<times> string list list" where
  "show_instance internal parse query body =
     (case internal of
        None \<Rightarrow> (Inl (Status 404), [])
      | Some st \<Rightarrow>
          if query ''token'' \<noteq> Some (show_token st) then (Inl (Message 403 ''Invalid token''), [])
          else (case body of
            Inl err \<Rightarrow> (Inl err, [])
          | Inr bs \<Rightarrow>
              if bs = [] then (Inr (), [[]])
              else (case parse bs of
                None \<Rightarrow> (Inl (BadRequest ''Invalid JSON body''), [])
              | Some args \<Rightarrow> (Inr (), [args]))))"

section \<open>The nonce exchange\<close>

definition validate_nonce :: "bytes \<Rightarrow> bool" where
  "validate_nonce nonce \<longleftrightarrow> length nonce \<ge> 16 \<and> length nonce \<le> 128"

text \<open>The key of a client: its public key, or its address without a usable certificate.\<close>

definition client_identifier :: "(bytes \<Rightarrow> string option) \<Rightarrow> (peer_ip \<Rightarrow> string) \<Rightarrow> request_client_info \<Rightarrow> string" where
  "client_identifier public_key show_ip client =
     (case Option.bind (cert client) public_key of Some k \<Rightarrow> k | None \<Rightarrow> show_ip (peer client))"

type_synonym nonce_map = "(string \<times> bytes) list"

text \<open>The two caches are lists of puts, newest first; \<open>new_nonce\<close> is the generated one.\<close>

definition nonce_exchange ::
  "(string \<Rightarrow> bytes option) \<Rightarrow> (bytes \<Rightarrow> string) \<Rightarrow> (bytes \<Rightarrow> string option) \<Rightarrow> (peer_ip \<Rightarrow> string) \<Rightarrow>
   request_client_info \<Rightarrow> app_error + string \<Rightarrow> bytes \<Rightarrow> nonce_map \<times> nonce_map \<Rightarrow>
   (app_error + string) \<times> nonce_map \<times> nonce_map" where
  "nonce_exchange decode encode public_key show_ip client body new_nonce maps =
     (case body of
        Inl err \<Rightarrow> (Inl err, maps)
      | Inr text \<Rightarrow>
          (case decode text of
             None \<Rightarrow> (Inl (BadRequest ''Invalid nonce format''), maps)
           | Some nonce \<Rightarrow>
               if \<not> validate_nonce nonce then (Inl (BadRequest ''Invalid nonce''), maps)
               else let key = client_identifier public_key show_ip client;
                        (received, generated) = maps
                    in (Inr (encode new_nonce), (key, nonce) # received, (key, new_nonce) # generated)))"

section \<open>Properties\<close>

fun op_route :: "client_op \<Rightarrow> route" where
  "op_route C2_Register = R_Register"
| "op_route C2_PrepareUpload = R_PrepareUpload"
| "op_route C2_Upload = R_Upload"
| "op_route C2_Cancel = R_Cancel"
| "op_route C2_Info = R_Info"
| "op_route C2_PrepareDownload = R_PrepareDownload"
| "op_route C2_Download = R_Download"
| "op_route C3_Nonce = R_Nonce"
| "op_route C3_Register = R_V3_Register"
| "op_route C3_PrepareUpload = R_PrepareUpload"
| "op_route C3_Upload = R_Upload"
| "op_route C3_Cancel = R_Cancel"

definition sent_to :: "bool \<Rightarrow> client_op \<Rightarrow> app_error + route" where
  "sent_to v2_enabled c = (case op_request c of (meth, path) \<Rightarrow> dispatch v2_enabled meth (endpoint path))"


end
