(* ===== verification/Accept_Loop.thy ===== *)
theory Accept_Loop
  imports Prelude
begin

text \<open>
  The accept loop of the server (\<open>start_server_with_listener\<close> in \<open>http/server/mod.rs\<close>): which errors of
  \<open>accept\<close> keep it alive, how long it backs off and when it gives up. The results of \<open>accept\<close> are a
  list; the loop also stops when the list does.
\<close>

section \<open>Errors\<close>

datatype error_kind = ConnectionAborted | ConnectionReset | Interrupted | OutOfMemory | OtherKind

record io_error =
  err_kind :: error_kind
  raw_os_error :: "int option"

definition is_transient_accept_error :: "io_error \<Rightarrow> bool" where
  "is_transient_accept_error err \<longleftrightarrow> err_kind err \<in> {ConnectionAborted, ConnectionReset, Interrupted}"

text \<open>\<open>codes\<close> are the error numbers of the platform: \<open>EMFILE\<close>, \<open>ENFILE\<close>, \<open>ENOBUFS\<close>, \<open>ENOMEM\<close> on Unix,
  10024 and 10055 on Windows, none elsewhere.\<close>

definition is_resource_accept_error :: "int set \<Rightarrow> io_error \<Rightarrow> bool" where
  "is_resource_accept_error codes err =
     (if err_kind err = OutOfMemory then True
      else case raw_os_error err of Some c \<Rightarrow> c \<in> codes | None \<Rightarrow> False)"

section \<open>The loop\<close>

text \<open>Milliseconds.\<close>

definition ACCEPT_BACKOFF_MIN :: nat where
  "ACCEPT_BACKOFF_MIN = 50"

definition ACCEPT_BACKOFF_MAX :: nat where
  "ACCEPT_BACKOFF_MAX = 1000"

definition ACCEPT_FAILURE_LIMIT :: u32 where
  "ACCEPT_FAILURE_LIMIT = 100"

datatype accept_step =
    Spawn nat        \<comment> \<open>the connection is served\<close>
  | Sleep nat        \<comment> \<open>a back-off of so many milliseconds\<close>
  | Retry
  | GiveUp u32       \<comment> \<open>the error reported, with the failures in a row\<close>

fun accept_loop ::
  "int set \<Rightarrow> nat \<Rightarrow> u32 \<Rightarrow> (io_error + nat) list \<Rightarrow> accept_step list" where
  "accept_loop codes backoff failures [] = []"
| "accept_loop codes backoff failures (Inr conn # rs) =
     Spawn conn # accept_loop codes ACCEPT_BACKOFF_MIN 0 rs"
| "accept_loop codes backoff failures (Inl err # rs) =
     (if is_resource_accept_error codes err
      then Sleep backoff # accept_loop codes (min (backoff * 2) ACCEPT_BACKOFF_MAX) failures rs
      else let failures = failures + 1
           in if is_transient_accept_error err \<and> failures < ACCEPT_FAILURE_LIMIT
              then Retry # accept_loop codes backoff failures rs
              else [GiveUp failures])"

definition start_server_with_listener :: "int set \<Rightarrow> (io_error + nat) list \<Rightarrow> accept_step list" where
  "start_server_with_listener codes rs = accept_loop codes ACCEPT_BACKOFF_MIN 0 rs"

fun gave_up :: "accept_step list \<Rightarrow> bool" where
  "gave_up [] = False"
| "gave_up (GiveUp n # xs) = True"
| "gave_up (_ # xs) = gave_up xs"

section \<open>When it gives up\<close>

text \<open>
  The reference: the listener is given up at the first error that is neither kind, or when a hundred
  errors of a single connection came without a connection between them; resource errors count for
  nothing. \<open>run\<close> is the number of the former so far.
\<close>

fun broken :: "int set \<Rightarrow> nat \<Rightarrow> (io_error + nat) list \<Rightarrow> bool" where
  "broken codes run [] = False"
| "broken codes run (Inr conn # rs) = broken codes 0 rs"
| "broken codes run (Inl err # rs) =
     (if is_resource_accept_error codes err then broken codes run rs
      else if is_transient_accept_error err then Suc run = 100 \<or> broken codes (Suc run) rs
      else True)"

lemma accept_loop_gives_up:
  "unat failures < 100 \<Longrightarrow> gave_up (accept_loop codes backoff failures rs) \<longleftrightarrow> broken codes (unat failures) rs"
proof (induction codes backoff failures rs rule: accept_loop.induct)
  case (3 codes backoff failures err rs)
  have suc: "unat (failures + 1) = Suc (unat failures)" using 3(3) by (simp add: unat_word_ariths)
  have lim: "failures + 1 < ACCEPT_FAILURE_LIMIT \<longleftrightarrow> Suc (unat failures) < 100"
    by (simp add: ACCEPT_FAILURE_LIMIT_def word_less_nat_alt suc)
  show ?case
    using 3 suc lim by (auto simp: Let_def)
qed simp_all

lemma accept_loop_backoff:
  "ACCEPT_BACKOFF_MIN \<le> backoff \<Longrightarrow> backoff \<le> ACCEPT_BACKOFF_MAX \<Longrightarrow>
   Sleep d \<in> set (accept_loop codes backoff failures rs) \<Longrightarrow>
   ACCEPT_BACKOFF_MIN \<le> d \<and> d \<le> ACCEPT_BACKOFF_MAX"
  by (induction codes backoff failures rs rule: accept_loop.induct)
    (auto simp: ACCEPT_BACKOFF_MIN_def ACCEPT_BACKOFF_MAX_def Let_def split: if_splits)

lemma accept_loop_spawns:
  "\<not> gave_up (accept_loop codes backoff failures rs) \<Longrightarrow>
   [c. Spawn c \<leftarrow> accept_loop codes backoff failures rs] = [c. Inr c \<leftarrow> rs]"
  by (induction codes backoff failures rs rule: accept_loop.induct)
    (auto simp: Let_def split: if_splits)

section \<open>Properties\<close>

text \<open>
  The accept loop gives up exactly when the listener is broken: at an error that concerns neither
  one connection nor the resources of the process, or at the hundredth error of a single connection
  since the last one that succeeded; it survives any number of resource errors.
\<close>

theorem accept_loop_survives_unless_broken:
  "gave_up (start_server_with_listener codes rs) \<longleftrightarrow> broken codes 0 rs"
  using accept_loop_gives_up [of 0] by (simp add: start_server_with_listener_def)

text \<open>
  While it has not given up, the accept loop serves every connection it is given, in order, and
  the back-offs in between last from 50 milliseconds to a second.
\<close>

theorem accept_loop_serves_all:
  assumes "\<not> broken codes 0 rs" and "Sleep d \<in> set (start_server_with_listener codes rs)"
  shows "[c. Spawn c \<leftarrow> start_server_with_listener codes rs] = [c. Inr c \<leftarrow> rs] \<and> 50 \<le> d \<and> d \<le> 1000"
  using assms accept_loop_gives_up [of 0 codes ACCEPT_BACKOFF_MIN rs]
    accept_loop_spawns [of codes ACCEPT_BACKOFF_MIN 0 rs]
    accept_loop_backoff [of ACCEPT_BACKOFF_MIN d codes 0 rs]
  by (simp add: start_server_with_listener_def ACCEPT_BACKOFF_MIN_def ACCEPT_BACKOFF_MAX_def)

definition out_of_files :: io_error where
  "out_of_files = \<lparr>err_kind = OtherKind, raw_os_error = Some 24\<rparr>"

theorem accept_loop_serves_all_witness:
  "[c. Spawn c \<leftarrow> start_server_with_listener {24} [Inr 1, Inl out_of_files, Inl out_of_files, Inr 2]] = [1, 2]"
proof -
  have "Sleep 100 \<in> set (start_server_with_listener {24} [Inr 1, Inl out_of_files, Inl out_of_files, Inr 2])"
    by (simp add: start_server_with_listener_def is_resource_accept_error_def out_of_files_def
        ACCEPT_BACKOFF_MIN_def ACCEPT_BACKOFF_MAX_def)
  moreover have "\<not> broken {24} 0 [Inr 1, Inl out_of_files, Inl out_of_files, Inr 2]"
    by (simp add: is_resource_accept_error_def out_of_files_def)
  ultimately show ?thesis
    using accept_loop_serves_all [of "{24}" "[Inr 1, Inl out_of_files, Inl out_of_files, Inr 2]" 100] by simp
qed

end
