(* ===== verification/Token.thy ===== *)
theory Token
  imports Http_Common
begin

text \<open>
  Identity tokens (\<open>crypto/token.rs\<close>): five base64 fields joined by dots that bind a public key to a
  nonce or to a time. The signature schemes, SHA-256 and base64 are arguments; a panic of the source
  is the result \<open>None\<close>.
\<close>

section \<open>Bytes of a 64 bit integer\<close>

text \<open>\<open>u64::to_le_bytes\<close> and \<open>u64::from_le_bytes\<close>.\<close>

fun le_bytes :: "nat \<Rightarrow> nat \<Rightarrow> bytes" where
  "le_bytes 0 n = []"
| "le_bytes (Suc k) n = of_nat (n mod 256) # le_bytes k (n div 256)"

fun le_value :: "bytes \<Rightarrow> nat" where
  "le_value [] = 0"
| "le_value (b # bs) = unat b + 256 * le_value bs"

definition to_le_bytes :: "u64 \<Rightarrow> bytes" where
  "to_le_bytes w = le_bytes 8 (unat w)"

definition from_le_bytes :: "bytes \<Rightarrow> u64" where
  "from_le_bytes bs = of_nat (le_value bs)"

lemma length_le_bytes [simp]: "length (le_bytes k n) = k"
  by (induction k arbitrary: n) simp_all

lemma le_value_bytes: "le_value (le_bytes k n) = n mod 256 ^ k"
proof (induction k arbitrary: n)
  case (Suc k)
  have "unat (of_nat (n mod 256) :: u8) = n mod 256"
    by (simp add: unat_of_nat take_bit_nat_eq_self)
  moreover have "n mod (256 * 256 ^ k) = 256 * (n div 256 mod 256 ^ k) + n mod 256"
    by (rule mod_mult2_eq)
  ultimately show ?case using Suc.IH [of "n div 256"] by simp
qed simp

lemma from_to_le_bytes [simp]: "from_le_bytes (to_le_bytes w) = w"
proof -
  have "unat w < 256 ^ 8" using unsigned_less [of w, where ?'a = nat] by simp
  then show ?thesis by (simp add: from_le_bytes_def to_le_bytes_def le_value_bytes)
qed

section \<open>Keys\<close>

text \<open>A \<open>VerifyingTokenKey\<close>: its encoding may fail.\<close>

record verifying_key =
  signature_method :: string
  to_der :: "bytes option"
  verify_sig :: "bytes \<Rightarrow> bytes \<Rightarrow> bool"

text \<open>What the tokens use of other crates.\<close>

record token_crypto =
  tk_sha256 :: "bytes \<Rightarrow> bytes"
  b64_encode :: "bytes \<Rightarrow> string"
  b64_decode :: "string \<Rightarrow> bytes option"

section \<open>Tokens\<close>

text \<open>\<open>token.split('.')\<close>\<close>

fun split_dots :: "string \<Rightarrow> string list" where
  "split_dots [] = [[]]"
| "split_dots (c # cs) =
     (if c = CHR ''.'' then [] # split_dots cs
      else case split_dots cs of [] \<Rightarrow> [[c]] | p # ps \<Rightarrow> (c # p) # ps)"

definition digest_of :: "token_crypto \<Rightarrow> bytes \<Rightarrow> bytes \<Rightarrow> bytes" where
  "digest_of tc der salt = tk_sha256 tc (der @ salt)"

text \<open>\<open>der\<close> and \<open>sign\<close> are those of the ed25519 signing key.\<close>

definition generate_token_nonce ::
  "token_crypto \<Rightarrow> bytes option \<Rightarrow> (bytes \<Rightarrow> bytes) \<Rightarrow> bytes \<Rightarrow> string + string" where
  "generate_token_nonce tc der sign salt =
     (case der of
        None \<Rightarrow> Inl ''key encoding''
      | Some der \<Rightarrow>
          (let digest = digest_of tc der salt
           in Inr (''sha256'' @ ''.'' @ b64_encode tc digest @ ''.'' @ b64_encode tc salt @ ''.'' @
                   ''ed25519'' @ ''.'' @ b64_encode tc (sign digest))))"

definition generate_token_timestamp ::
  "token_crypto \<Rightarrow> bytes option \<Rightarrow> (bytes \<Rightarrow> bytes) \<Rightarrow> u64 \<Rightarrow> string + string" where
  "generate_token_timestamp tc der sign now = generate_token_nonce tc der sign (to_le_bytes now)"

definition extract_signature_identifier :: "string \<Rightarrow> string option" where
  "extract_signature_identifier token =
     (let parts = split_dots token in if 3 < length parts then Some (parts ! 3) else None)"

text \<open>
  \<open>parts[0..5]\<close> panics when the token has fewer than five parts and drops those beyond; on the five it
  leaves, the pattern always matches.
\<close>

definition verify_token_with_result ::
  "token_crypto \<Rightarrow> verifying_key \<Rightarrow> string \<Rightarrow> (bytes \<Rightarrow> (string + unit) option) \<Rightarrow> (string + unit) option" where
  "verify_token_with_result tc key token verify_salt =
     (let parts = split_dots token
      in if length parts < 5 then None
         else if parts ! 0 \<noteq> ''sha256'' then Some (Inl ''Invalid hash method'')
         else if parts ! 3 \<noteq> signature_method key then Some (Inl ''Invalid sign method'')
         else (case b64_decode tc (parts ! 2) of
           None \<Rightarrow> Some (Inl ''base64'')
         | Some salt \<Rightarrow>
             (case verify_salt salt of
                None \<Rightarrow> None
              | Some (Inl err) \<Rightarrow> Some (Inl err)
              | Some (Inr _) \<Rightarrow>
                  (case to_der key of
                     None \<Rightarrow> Some (Inl ''key encoding'')
                   | Some der \<Rightarrow>
                       (let digest = digest_of tc der salt
                        in if b64_encode tc digest \<noteq> parts ! 1 then Some (Inl ''Hash mismatch'')
                           else (case b64_decode tc (parts ! 4) of
                             None \<Rightarrow> Some (Inl ''Invalid signature base64 encoding'')
                           | Some signature \<Rightarrow>
                               if verify_sig key digest signature then Some (Inr ())
                               else Some (Inl ''Invalid signature'')))))))"

text \<open>\<open>is_ok\<close> of the result; \<open>None\<close> is still a panic.\<close>

definition verify_token_nonce ::
  "token_crypto \<Rightarrow> verifying_key \<Rightarrow> string \<Rightarrow> bytes \<Rightarrow> bool option" where
  "verify_token_nonce tc key token nonce =
     map_option is_ok (verify_token_with_result tc key token
       (\<lambda>salt. Some (if salt \<noteq> nonce then Inl ''Invalid nonce'' else Inr ())))"

text \<open>
  \<open>now - salt\<close> on \<open>u64\<close>: with overflow checks (debug builds) it panics when the token is from the future,
  without them it wraps.
\<close>

definition check_age :: "bool \<Rightarrow> u64 \<Rightarrow> bytes \<Rightarrow> (string + unit) option" where
  "check_age checked now salt =
     (if length salt \<noteq> 8 then Some (Inl ''Invalid salt length'')
      else let salt = from_le_bytes salt
           in if checked \<and> now < salt then None
              else if now - salt > 60 * 60 then Some (Inl ''Fingerprint timestamp expired'')
              else Some (Inr ()))"

definition verify_token_timestamp ::
  "token_crypto \<Rightarrow> bool \<Rightarrow> verifying_key \<Rightarrow> string \<Rightarrow> u64 \<Rightarrow> bool option" where
  "verify_token_timestamp tc checked key token now =
     map_option is_ok (verify_token_with_result tc key token (check_age checked now))"

section \<open>Facts\<close>

definition no_dot :: "string \<Rightarrow> bool" where
  "no_dot s \<longleftrightarrow> CHR ''.'' \<notin> set s"

lemma split_dots_not_Nil [simp]: "split_dots s \<noteq> []"
  by (cases s) (auto split: list.split)

lemma split_dots_single: "no_dot s \<Longrightarrow> split_dots s = [s]"
  by (induction s) (auto simp: no_dot_def)

lemma split_dots_append: "no_dot s \<Longrightarrow> split_dots (s @ CHR ''.'' # t) = s # split_dots t"
  by (induction s) (auto simp: no_dot_def)

text \<open>What the tokens rely on: base64 decodes what it encodes and has no dot in its alphabet, and a
  key verifies what it signed.\<close>

definition b64_ok :: "token_crypto \<Rightarrow> bool" where
  "b64_ok tc \<longleftrightarrow> (\<forall>bs. b64_decode tc (b64_encode tc bs) = Some bs \<and> no_dot (b64_encode tc bs))"

definition signs_for :: "(bytes \<Rightarrow> bytes) \<Rightarrow> verifying_key \<Rightarrow> bool" where
  "signs_for sign key \<longleftrightarrow> signature_method key = ''ed25519'' \<and> (\<forall>m. verify_sig key m (sign m))"

lemma generated_parts:
  assumes "b64_ok tc" and "generate_token_nonce tc (Some der) sign salt = Inr token"
  shows "split_dots token =
    [''sha256'', b64_encode tc (digest_of tc der salt), b64_encode tc salt, ''ed25519'',
     b64_encode tc (sign (digest_of tc der salt))]"
proof -
  have "no_dot (b64_encode tc bs)" for bs using assms(1) by (simp add: b64_ok_def)
  moreover have "no_dot ''sha256''" "no_dot ''ed25519''" by (simp_all add: no_dot_def)
  ultimately show ?thesis
    using assms(2) split_dots_append [of "''sha256''"] split_dots_append [of "''ed25519''"]
    by (auto simp: generate_token_nonce_def Let_def split_dots_append split_dots_single)
qed

lemma verify_generated:
  assumes "b64_ok tc" and "signs_for sign key" and "to_der key = Some der"
    and "generate_token_nonce tc (Some der) sign salt = Inr token"
  shows "verify_token_with_result tc key token f = f salt"
  using generated_parts [OF assms(1,4)] assms(1-3)
  by (auto simp: verify_token_with_result_def signs_for_def b64_ok_def Let_def
      split: option.split sum.split)

section \<open>Properties\<close>

text \<open>
  C29. A token a device generates for a nonce is accepted by everyone who verifies it with that
  device's key and that nonce, and by no one who expects another nonce.
\<close>

theorem token_nonce_roundtrip:
  assumes "b64_ok tc" and "signs_for sign key" and "to_der key = Some der"
    and "generate_token_nonce tc (Some der) sign salt = Inr token"
  shows "verify_token_nonce tc key token nonce = Some (nonce = salt)"
  unfolding verify_token_nonce_def verify_generated [OF assms] by auto

text \<open>A base64 stand-in for the witnesses: two letters for each byte.\<close>

definition nibbles :: "bytes \<Rightarrow> string" where
  "nibbles bs = map (\<lambda>c. char_of c) (to_hex bs)"

definition unhex :: "char \<Rightarrow> nat" where
  "unhex c = (if of_char c < (58 :: nat) then of_char c - 48 else of_char c - 87)"

fun unnibbles :: "string \<Rightarrow> bytes option" where
  "unnibbles [] = Some []"
| "unnibbles [c] = None"
| "unnibbles (a # b # cs) = map_option (\<lambda>bs. of_nat (16 * unhex a + unhex b) # bs) (unnibbles cs)"

definition sample_crypto :: token_crypto where
  "sample_crypto = \<lparr>tk_sha256 = rev, b64_encode = nibbles, b64_decode = unnibbles\<rparr>"

lemma unhex_digit: "d < 16 \<Longrightarrow> unhex (char_of (hex_digit 97 d)) = d"
  by (auto simp: unhex_def hex_digit_def)

lemma digit_no_dot: "d < 16 \<Longrightarrow> char_of (hex_digit 97 d) \<noteq> CHR ''.''"
proof
  assume "d < 16" "char_of (hex_digit 97 d) = CHR ''.''"
  then have "of_char (char_of (hex_digit 97 d)) = (of_char (CHR ''.'') :: nat)" by simp
  then show False using \<open>d < 16\<close> by (auto simp: hex_digit_def split: if_splits)
qed

lemma nibbles_Cons:
  "nibbles (b # bs) = char_of (hex_digit 97 (unat b div 16)) # char_of (hex_digit 97 (unat b mod 16)) # nibbles bs"
  by (simp add: nibbles_def to_hex_def hex_byte_def)

lemma sample_crypto_ok: "b64_ok sample_crypto"
proof -
  have "unnibbles (nibbles bs) = Some bs \<and> no_dot (nibbles bs)" for bs
  proof (induction bs)
    case (Cons b bs)
    have d: "unat b div 16 < 16" "unat b mod 16 < 16" using unat_byte_less [of b] by auto
    have "16 * (unat b div 16) + unat b mod 16 = unat b" by simp
    moreover have "no_dot (nibbles (b # bs))"
      using Cons digit_no_dot [OF d(1)] digit_no_dot [OF d(2)]
      unfolding nibbles_Cons no_dot_def by (metis set_ConsD)
    ultimately show ?case using Cons d by (simp add: nibbles_Cons unhex_digit)
  qed (simp add: nibbles_def to_hex_def no_dot_def)
  then show ?thesis by (simp add: b64_ok_def sample_crypto_def)
qed

definition sample_key :: verifying_key where
  "sample_key = \<lparr>signature_method = ''ed25519'', to_der = Some [1, 2],
     verify_sig = (\<lambda>m s. s = map (\<lambda>b. b + 1) m)\<rparr>"

lemma sample_key_signs: "signs_for (map (\<lambda>b. b + 1)) sample_key"
  by (simp add: signs_for_def sample_key_def)

definition sample_token :: "bytes \<Rightarrow> string" where
  "sample_token salt =
     (case generate_token_nonce sample_crypto (Some [1, 2]) (map (\<lambda>b. b + 1)) salt of
        Inr t \<Rightarrow> t | Inl _ \<Rightarrow> [])"

lemma sample_token_generated:
  "generate_token_nonce sample_crypto (Some [1, 2]) (map (\<lambda>b. b + 1)) salt = Inr (sample_token salt)"
  by (simp add: sample_token_def generate_token_nonce_def Let_def)

theorem token_nonce_roundtrip_witness:
  "verify_token_nonce sample_crypto sample_key (sample_token [7, 8]) [7, 9] = Some False"
  using token_nonce_roundtrip [OF sample_crypto_ok sample_key_signs _ sample_token_generated, of "[7, 8]" "[7, 9]"]
  by (simp add: sample_key_def)

text \<open>
  A timestamp token is accepted for one hour: without overflow checks exactly from the second it
  was made until 3600 seconds later, and a token from the future is refused because the age wraps
  around. With overflow checks the same tokens are accepted, but one from the future is a panic.
\<close>

theorem token_timestamp_one_hour:
  assumes "b64_ok tc" and "signs_for sign key" and "to_der key = Some der"
    and "generate_token_timestamp tc (Some der) sign made = Inr token" and "60 * 60 \<le> now"
  shows "verify_token_timestamp tc False key token now = Some (made \<le> now \<and> now - made \<le> 60 * 60) \<and>
    verify_token_timestamp tc True key token now =
      (if now < made then None else Some (now - made \<le> 60 * 60))"
proof -
  have gen: "verify_token_with_result tc key token f = f (to_le_bytes made)" for f
    using verify_generated [OF assms(1-3)] assms(4) by (simp add: generate_token_timestamp_def)
  have len: "length (to_le_bytes made) = 8" by (simp add: to_le_bytes_def)
  have wrap: "now - made > 60 * 60" if "now < made"
  proof -
    have "unat now < unat made" "3600 \<le> unat now"
      using that assms(5) by (simp_all add: word_less_nat_alt word_le_nat_alt)
    moreover have "unat made < 2 ^ 64" using unsigned_less [of made, where ?'a = nat] by simp
    ultimately have "3600 < unat (now - made)" by (simp add: unat_sub_if')
    then show ?thesis by (simp add: word_less_nat_alt)
  qed
  show ?thesis
    using wrap
    by (auto simp: verify_token_timestamp_def gen check_age_def len Let_def not_le not_less)
qed

theorem token_timestamp_one_hour_witness:
  "verify_token_timestamp sample_crypto True sample_key (sample_token (to_le_bytes 5000)) 4000 = None"
  using token_timestamp_one_hour [OF sample_crypto_ok sample_key_signs, of "[1, 2]" 5000
      "sample_token (to_le_bytes 5000)" 4000] sample_token_generated [of "to_le_bytes 5000"]
  by (simp add: sample_key_def generate_token_timestamp_def)

text \<open>
  Verification panics on every token of fewer than five parts, whatever the key: the slice
  \<open>parts[0..5]\<close> is taken before the pattern that is to refuse them.
\<close>

theorem short_token_panics:
  assumes "length (split_dots token) < 5"
  shows "verify_token_nonce tc key token nonce = None \<and>
    verify_token_timestamp tc checked key token now = None"
  using assms
  by (simp add: verify_token_nonce_def verify_token_timestamp_def verify_token_with_result_def Let_def)

theorem short_token_panics_witness:
  "verify_token_nonce sample_crypto sample_key ''sha256.abc'' [] = None"
  using short_token_panics [of "''sha256.abc''"] by simp

end
