(* ===== verification/Discovery_Store.thy ===== *)
theory Discovery_Store
  imports Http_Common "HOL-Library.Product_Lexorder" "HOL-Library.Option_ord" "HOL-Library.Multiset"
begin

text \<open>
  Discovery (\<open>discovery/store.rs\<close>, \<open>discovery/mod.rs\<close>): the store of confirmed devices with their
  channels and logs, the ranking of channels, and how probes, subnet scans and answers to
  announcements feed the store. What a host answers to a register request is an argument, and so is
  the test whether a host is an IPv6 address.
\<close>

section \<open>Devices\<close>

record http_channel =
  host :: string
  ch_port :: u16
  ch_protocol :: protocol_type

datatype device_channel = Http_Channel http_channel

record discovered_device =
  d_alias :: string
  d_version :: string
  d_device_model :: "string option"
  d_device_type :: "device_type option"
  d_fingerprint :: string
  d_channel :: device_channel
  d_download :: bool

datatype channel_status = Available | NotReachable

datatype device_log_kind = LDiscovered | LUpdated

record device_log =
  l_timestamp :: nat
  l_kind :: device_log_kind
  l_channel :: device_channel

record stateful_device =
  device :: discovered_device
  channels :: "(device_channel \<times> channel_status) list"
  logs :: "device_log list"

datatype discovery_event =
    Discovered discovered_device
  | Updated discovered_device
  | MulticastFailed

definition MAX_LOGS :: nat where
  "MAX_LOGS = 100"

fun channel_host :: "device_channel \<Rightarrow> string" where
  "channel_host (Http_Channel c) = host c"

definition same_endpoint :: "device_channel \<Rightarrow> device_channel \<Rightarrow> bool" where
  "same_endpoint a b \<longleftrightarrow> channel_host a = channel_host b"

text \<open>\<open>is_v6\<close>: whether a string parses as an IPv6 address; the scope is stripped first.\<close>

definition is_ipv6 :: "(string \<Rightarrow> bool) \<Rightarrow> device_channel \<Rightarrow> bool" where
  "is_ipv6 is_v6 c = is_v6 (takeWhile (\<lambda>x. x \<noteq> CHR ''%'') (channel_host c))"

section \<open>The store\<close>

type_synonym store = "stateful_device list"

definition same_fingerprint :: "string \<Rightarrow> stateful_device \<Rightarrow> bool" where
  "same_fingerprint fp known \<longleftrightarrow> d_fingerprint (device known) = fp"

text \<open>The first match is updated in place.\<close>

fun update_first :: "('a \<Rightarrow> bool) \<Rightarrow> ('a \<Rightarrow> 'a) \<Rightarrow> 'a list \<Rightarrow> 'a list" where
  "update_first P f [] = []"
| "update_first P f (x # xs) = (if P x then f x # xs else x # update_first P f xs)"

definition merge_device :: "discovered_device \<Rightarrow> nat \<Rightarrow> stateful_device \<Rightarrow> stateful_device" where
  "merge_device dev t known =
     (let chans = filter (\<lambda>(c, _). \<not> same_endpoint c (d_channel dev)) (channels known);
          entries = logs known @ [\<lparr>l_timestamp = t, l_kind = LUpdated, l_channel = d_channel dev\<rparr>]
      in \<lparr>device = dev,
          channels = (d_channel dev, Available) # chans,
          logs = (if length entries > MAX_LOGS then drop (length entries - MAX_LOGS) entries
                  else entries)\<rparr>)"

definition new_device :: "discovered_device \<Rightarrow> nat \<Rightarrow> stateful_device" where
  "new_device dev t =
     \<lparr>device = dev, channels = [(d_channel dev, Available)],
      logs = [\<lparr>l_timestamp = t, l_kind = LDiscovered, l_channel = d_channel dev\<rparr>]\<rparr>"

definition by_fingerprint :: "store \<Rightarrow> string \<Rightarrow> stateful_device option" where
  "by_fingerprint s fp = List.find (same_fingerprint fp) s"

definition upsert :: "store \<Rightarrow> discovered_device \<Rightarrow> nat \<Rightarrow> discovery_event \<times> stateful_device \<times> store" where
  "upsert s dev t =
     (case by_fingerprint s (d_fingerprint dev) of
        Some known \<Rightarrow> (Updated dev, merge_device dev t known,
          update_first (same_fingerprint (d_fingerprint dev)) (merge_device dev t) s)
      | None \<Rightarrow> (Discovered dev, new_device dev t, s @ [new_device dev t]))"

definition upsert_into :: "store \<Rightarrow> discovered_device \<times> nat \<Rightarrow> store" where
  "upsert_into s d = snd (snd (upsert s (fst d) (snd d)))"

section \<open>Ranking\<close>

fun rposition :: "('a \<Rightarrow> bool) \<Rightarrow> 'a list \<Rightarrow> nat option" where
  "rposition P [] = None"
| "rposition P (x # xs) =
     (case rposition P xs of Some i \<Rightarrow> Some (Suc i) | None \<Rightarrow> if P x then Some 0 else None)"

definition last_confirmed :: "stateful_device \<Rightarrow> device_channel \<Rightarrow> nat option" where
  "last_confirmed d c = rposition (\<lambda>l. l_channel l = c) (logs d)"

definition rank :: "(string \<Rightarrow> bool) \<Rightarrow> stateful_device \<Rightarrow> device_channel \<times> channel_status \<Rightarrow>
    bool \<times> bool \<times> nat option" where
  "rank is_v6 d x = (snd x = Available, is_ipv6 is_v6 (fst x), last_confirmed d (fst x))"

text \<open>A stable sort by the reversed key.\<close>

definition get_ranked_channels :: "(string \<Rightarrow> bool) \<Rightarrow> stateful_device \<Rightarrow> device_channel list" where
  "get_ranked_channels is_v6 d = map fst (rev (sort_key (rank is_v6 d) (rev (channels d))))"

definition get_best_channel :: "(string \<Rightarrow> bool) \<Rightarrow> stateful_device \<Rightarrow> device_channel option" where
  "get_best_channel is_v6 d =
     (case get_ranked_channels is_v6 d of [] \<Rightarrow> None | c # cs \<Rightarrow> Some c)"

section \<open>Facts on the store\<close>

lemma by_fingerprint_Some: "by_fingerprint s fp = Some k \<Longrightarrow> k \<in> set s \<and> d_fingerprint (device k) = fp"
  unfolding by_fingerprint_def by (auto dest: find_Some_in simp: same_fingerprint_def)

lemma by_fingerprint_None:
  "by_fingerprint s fp = None \<longleftrightarrow> fp \<notin> (d_fingerprint \<circ> device) ` set s"
  unfolding by_fingerprint_def find_None_all same_fingerprint_def by auto

lemma merge_device_simps [simp]:
  "device (merge_device dev t k) = dev" "device (new_device dev t) = dev"
  by (simp_all add: merge_device_def new_device_def Let_def)

lemma find_append: "List.find P (xs @ ys) = (case List.find P xs of Some x \<Rightarrow> Some x | None \<Rightarrow> List.find P ys)"
  by (induction xs) auto

lemma find_update_first_same:
  "(\<And>x. P x \<Longrightarrow> P (f x)) \<Longrightarrow> List.find P (update_first P f xs) = map_option f (List.find P xs)"
  by (induction xs) auto

lemma find_update_first_other:
  "(\<And>x. P x \<Longrightarrow> \<not> Q x \<and> \<not> Q (f x)) \<Longrightarrow> List.find Q (update_first P f xs) = List.find Q xs"
  by (induction xs) auto

lemma upsert_lookup:
  "by_fingerprint (upsert_into s (dev, t)) (d_fingerprint dev) =
     Some (case by_fingerprint s (d_fingerprint dev) of
             Some k \<Rightarrow> merge_device dev t k | None \<Rightarrow> new_device dev t)"
  by (auto simp: upsert_into_def upsert_def by_fingerprint_def find_append find_update_first_same
      same_fingerprint_def split: option.split)

lemma upsert_lookup_other:
  "fp \<noteq> d_fingerprint dev \<Longrightarrow> by_fingerprint (upsert_into s (dev, t)) fp = by_fingerprint s fp"
proof -
  assume ne: "fp \<noteq> d_fingerprint dev"
  then have "List.find (same_fingerprint fp)
      (update_first (same_fingerprint (d_fingerprint dev)) (merge_device dev t) s) =
    List.find (same_fingerprint fp) s"
    by (intro find_update_first_other) (simp add: same_fingerprint_def)
  then show ?thesis
    using ne by (simp add: upsert_into_def upsert_def by_fingerprint_def find_append
        same_fingerprint_def split: option.split)
qed

interpretation device_store: upsert_store by_fingerprint upsert_into "\<lambda>d. d_fingerprint (fst d)"
proof unfold_locales
  fix s d
  show "by_fingerprint (upsert_into s d) (d_fingerprint (fst d)) \<noteq> None"
    using upsert_lookup [of s "fst d" "snd d"] by simp
  fix k assume "k \<noteq> d_fingerprint (fst d)"
  then show "by_fingerprint (upsert_into s d) k = by_fingerprint s k"
    using upsert_lookup_other [of k "fst d" s "snd d"] by simp
qed

text \<open>
  A device of the store: one channel per endpoint, the channel of its last confirmation available
  among them, at least one and at most a hundred log entries, the last of them for that channel.
\<close>

definition device_ok :: "stateful_device \<Rightarrow> bool" where
  "device_ok k \<longleftrightarrow> distinct (map (channel_host \<circ> fst) (channels k)) \<and>
     (d_channel (device k), Available) \<in> set (channels k) \<and>
     logs k \<noteq> [] \<and> length (logs k) \<le> MAX_LOGS \<and> l_channel (last (logs k)) = d_channel (device k)"

definition store_ok :: "store \<Rightarrow> bool" where
  "store_ok s \<longleftrightarrow> distinct (map (d_fingerprint \<circ> device) s) \<and> list_all device_ok s"

lemma new_device_ok: "device_ok (new_device dev t)"
  by (simp add: device_ok_def new_device_def MAX_LOGS_def)

lemma merge_device_ok: "device_ok k \<Longrightarrow> device_ok (merge_device dev t k)"
  by (auto simp: device_ok_def merge_device_def MAX_LOGS_def same_endpoint_def Let_def
      distinct_map_filter case_prod_unfold)

lemma update_first_keys:
  "(\<And>x. P x \<Longrightarrow> g (f x) = g x) \<Longrightarrow> map g (update_first P f xs) = map g xs"
  by (induction xs) auto

lemma update_first_all: "list_all Q xs \<Longrightarrow> (\<And>x. Q x \<Longrightarrow> Q (f x)) \<Longrightarrow> list_all Q (update_first P f xs)"
  by (induction xs) auto

lemma upsert_ok: "store_ok s \<Longrightarrow> store_ok (upsert_into s d)"
proof (cases "by_fingerprint s (d_fingerprint (fst d))")
  case None
  moreover assume "store_ok s"
  moreover have "d_fingerprint (fst d) \<notin> (d_fingerprint \<circ> device) ` set s"
    using None by (simp only: by_fingerprint_None not_False_eq_True)
  ultimately show ?thesis
    using new_device_ok by (auto simp: store_ok_def upsert_into_def upsert_def)
next
  case (Some k)
  assume ok: "store_ok s"
  have "map (d_fingerprint \<circ> device)
      (update_first (same_fingerprint (d_fingerprint (fst d))) (merge_device (fst d) (snd d)) s) =
    map (d_fingerprint \<circ> device) s"
    by (rule update_first_keys) (simp add: same_fingerprint_def)
  moreover have "list_all device_ok
      (update_first (same_fingerprint (d_fingerprint (fst d))) (merge_device (fst d) (snd d)) s)"
    using ok by (intro update_first_all) (auto simp: store_ok_def merge_device_ok)
  ultimately show ?thesis using Some ok by (simp add: store_ok_def upsert_into_def upsert_def)
qed

lemma upserts_ok: "store_ok s \<Longrightarrow> store_ok (fold (\<lambda>d s. upsert_into s d) ds s)"
  by (induction ds arbitrary: s) (simp_all add: upsert_ok)

section \<open>Feeding the store\<close>

record discovery_state =
  own_fingerprint :: string
  ds_store :: store
  answering :: bool
  scanning :: "u32 set"
  confirmations :: nat

text \<open>The answer of a host to a register request: the body and the fingerprint of the certificate it
  was received over.\<close>

record register_answer =
  body :: info_response_v2
  peer_cert_fingerprint :: "string option"

type_synonym network = "string \<Rightarrow> u16 \<Rightarrow> protocol_type \<Rightarrow> string + register_answer"

definition confirmed_device ::
  "info_response_v2 \<Rightarrow> string \<Rightarrow> u16 \<Rightarrow> protocol_type \<Rightarrow> string \<Rightarrow> discovered_device" where
  "confirmed_device response h p prot fp =
     \<lparr>d_alias = ir_alias response, d_version = ir_version response,
      d_device_model = ir_device_model response, d_device_type = ir_device_type response,
      d_fingerprint = fp, d_channel = Http_Channel \<lparr>host = h, ch_port = p, ch_protocol = prot\<rparr>,
      d_download = ir_download response\<rparr>"

definition found :: "discovery_state \<Rightarrow> discovered_device \<Rightarrow> nat \<Rightarrow>
    bool \<times> stateful_device \<times> discovery_event \<times> discovery_state" where
  "found st dev now =
     (case upsert (ds_store st) dev now of
        (event, merged, s) \<Rightarrow>
          ((case event of Discovered _ \<Rightarrow> True | _ \<Rightarrow> False), merged, event,
           st\<lparr>ds_store := s, confirmations := confirmations st + 1\<rparr>))"

definition probe :: "network \<Rightarrow> discovery_state \<Rightarrow> string \<Rightarrow> u16 \<Rightarrow> protocol_type \<Rightarrow> nat \<Rightarrow>
    (string + stateful_device option) \<times> discovery_state" where
  "probe net st h p prot now =
     (case net h p prot of
        Inl err \<Rightarrow> (Inl err, st)
      | Inr response \<Rightarrow>
          (case (case prot of
                   Https \<Rightarrow> peer_cert_fingerprint response
                 | Http \<Rightarrow> Some (ir_fingerprint (body response))) of
             None \<Rightarrow> (Inl ''HTTPS response carried no peer certificate'', st)
           | Some fp \<Rightarrow>
               if fp = own_fingerprint st then (Inr None, st)
               else (case found st (confirmed_device (body response) h p prot fp) now of
                       (_, merged, _, st') \<Rightarrow> (Inr (Some merged), st'))))"

text \<open>
  Hosts probed concurrently, in the order in which their probes complete; \<open>now\<close> is the clock of each.
  Those that do not answer are skipped.
\<close>

fun probe_all :: "network \<Rightarrow> u16 \<Rightarrow> protocol_type \<Rightarrow> (string \<times> nat) list \<Rightarrow> discovery_state \<Rightarrow>
    stateful_device list \<times> discovery_state" where
  "probe_all net p prot [] st = ([], st)"
| "probe_all net p prot ((h, now) # hs) st =
     (case probe net st h p prot now of
        (r, st) \<Rightarrow>
          (case probe_all net p prot hs st of
             (ds, st) \<Rightarrow> ((case r of Inr (Some d) \<Rightarrow> d # ds | _ \<Rightarrow> ds), st)))"

text \<open>The other addresses of the \<open>/24\<close> of \<open>interface\<close>; \<open>show_v4\<close> renders an address.\<close>

definition subnet_hosts :: "u32 \<Rightarrow> u32 list" where
  "subnet_hosts interface =
     filter (\<lambda>a. a \<noteq> interface)
       (map (\<lambda>h. push_bit 8 (drop_bit 8 interface) + of_nat h) [0..<256])"

text \<open>
  A scan: \<open>completion\<close> is the order in which the concurrent probes of the hosts complete, each with
  the clock at that time.
\<close>

definition scan_subnet :: "(u32 \<Rightarrow> string) \<Rightarrow> network \<Rightarrow> u32 \<Rightarrow> u16 \<Rightarrow> protocol_type \<Rightarrow>
    (u32 list \<Rightarrow> (u32 \<times> nat) list) \<Rightarrow> discovery_state \<Rightarrow> stateful_device list \<times> discovery_state" where
  "scan_subnet show_v4 net interface p prot completion st =
     (if interface \<in> scanning st then ([], st)
      else case probe_all net p prot
                  (map (\<lambda>(a, now). (show_v4 a, now)) (completion (subnet_hosts interface)))
                  (st\<lparr>scanning := insert interface (scanning st)\<rparr>) of
             (ds, st) \<Rightarrow> (ds, st\<lparr>scanning := scanning st - {interface}\<rparr>))"

definition add_device :: "discovery_state \<Rightarrow> discovered_device \<Rightarrow> nat \<Rightarrow> bool \<times> discovery_state" where
  "add_device st dev now = (case found st dev now of (is_new, _, _, st') \<Rightarrow> (is_new, st'))"

text \<open>
  The answer to an announcement: the request is pinned to the announced fingerprint under HTTPS, so
  \<open>net\<close> is given it; the device is stored under it.
\<close>

definition answer_announcement ::
  "(string option \<Rightarrow> network) \<Rightarrow> discovery_state \<Rightarrow> string \<Rightarrow> u16 \<Rightarrow> protocol_type \<Rightarrow> string \<Rightarrow> nat \<Rightarrow>
   discovery_state" where
  "answer_announcement pinned_net st h p prot fp now =
     (if \<not> answering st then st
      else case pinned_net (case prot of Https \<Rightarrow> Some fp | Http \<Rightarrow> None) h p prot of
             Inl err \<Rightarrow> st
           | Inr response \<Rightarrow>
               (case found st (confirmed_device (body response) h p prot fp) now of
                  (_, _, _, st') \<Rightarrow> st'))"

section \<open>Facts on ranking and probing\<close>

lemma ranked_perm: "mset (get_ranked_channels is_v6 d) = mset (map fst (channels d))"
  by (simp add: get_ranked_channels_def)

lemma ranked_first:
  assumes "x \<in> set (channels d)"
  shows "\<exists>y \<in> set (channels d). get_best_channel is_v6 d = Some (fst y) \<and>
    (\<forall>z \<in> set (channels d). rank is_v6 d z \<le> rank is_v6 d y)"
proof -
  let ?s = "sort_key (rank is_v6 d) (rev (channels d))"
  have ne: "?s \<noteq> []" using assms by (metis set_rev set_sort empty_iff list.set(1))
  then have best: "get_best_channel is_v6 d = Some (fst (last ?s))"
    unfolding get_best_channel_def get_ranked_channels_def
    by (cases ?s rule: rev_cases) simp_all
  have sorted: "sorted (map (rank is_v6 d) ?s)" by simp
  have "rank is_v6 d z \<le> rank is_v6 d (last ?s)" if "z \<in> set (channels d)" for z
  proof -
    obtain ys where ys: "?s = ys @ [last ?s]" using ne by (metis append_butlast_last_id)
    have "z \<in> set ?s" using that by simp
    moreover have "\<forall>y \<in> set ys. rank is_v6 d y \<le> rank is_v6 d (last ?s)"
      using sorted by (subst (asm) ys) (simp add: sorted_append)
    ultimately show ?thesis by (subst (asm) ys) auto
  qed
  moreover have "last ?s \<in> set (channels d)" using ne by (metis last_in_set set_rev set_sort)
  ultimately show ?thesis using best by blast
qed

lemma probe_all_own: "own_fingerprint (snd (probe_all net p prot hs st)) = own_fingerprint st"
proof (induction net p prot hs st rule: probe_all.induct)
  case (2 net p prot h now hs st)
  have "own_fingerprint (snd (probe net st h p prot now)) = own_fingerprint st"
    by (auto simp: probe_def found_def split: sum.splits option.splits protocol_type.splits prod.splits)
  then show ?case using 2 by (auto split: prod.splits)
qed simp

text \<open>The store after a probe: as before, or with one device, known by its certificate.\<close>

definition proven :: "network \<Rightarrow> u16 \<Rightarrow> string \<Rightarrow> bool" where
  "proven net p fp \<longleftrightarrow> (\<exists>h r. net h p Https = Inr r \<and> peer_cert_fingerprint r = Some fp)"

lemma probe_store:
  "ds_store (snd (probe net st h p Https now)) = ds_store st \<or>
   (\<exists>dev. ds_store (snd (probe net st h p Https now)) = upsert_into (ds_store st) (dev, now) \<and>
      proven net p (d_fingerprint dev) \<and> d_fingerprint dev \<noteq> own_fingerprint st)"
proof (cases "net h p Https")
  case (Inr r)
  show ?thesis
  proof (cases "peer_cert_fingerprint r")
    case (Some fp)
    let ?dev = "confirmed_device (body r) h p Https fp"
    have dev: "d_fingerprint ?dev = fp" by (simp add: confirmed_device_def)
    have proven: "proven net p fp" using Inr Some unfolding proven_def by blast
    show ?thesis
    proof (cases "fp = own_fingerprint st")
      case False
      then have "ds_store (snd (probe net st h p Https now)) = upsert_into (ds_store st) (?dev, now)"
        using Inr Some by (simp add: probe_def found_def upsert_into_def split: prod.split)
      then show ?thesis using dev proven False by metis
    qed (simp add: probe_def Inr Some)
  qed (simp add: probe_def Inr)
qed (simp add: probe_def)

lemma probe_all_fingerprints:
  "dom (by_fingerprint (ds_store (snd (probe_all net p Https hs st)))) \<subseteq>
   dom (by_fingerprint (ds_store st)) \<union> ({fp. proven net p fp} - {own_fingerprint st})"
proof (induction hs arbitrary: st)
  case (Cons hn hs)
  obtain h now where hn: "hn = (h, now)" by (cases hn)
  let ?st = "snd (probe net st h p Https now)"
  have own: "own_fingerprint ?st = own_fingerprint st"
    using probe_all_own [of net p Https "[(h, now)]" st] by (auto split: prod.splits)
  have "dom (by_fingerprint (ds_store ?st)) \<subseteq>
      dom (by_fingerprint (ds_store st)) \<union> ({fp. proven net p fp} - {own_fingerprint st})"
    using probe_store [of net st h p now]
  proof (elim disjE exE conjE)
    fix dev
    assume "ds_store ?st = upsert_into (ds_store st) (dev, now)"
      "proven net p (d_fingerprint dev)" "d_fingerprint dev \<noteq> own_fingerprint st"
    then show ?thesis
      using device_store.dom_ups [of "ds_store st" "(dev, now)"] by (simp del: domIff)
  qed simp
  moreover have "ds_store (snd (probe_all net p Https (hn # hs) st)) = ds_store (snd (probe_all net p Https hs ?st))"
    by (simp add: hn split: prod.splits)
  ultimately show ?case using Cons.IH [of ?st] own by (simp del: domIff) blast
qed simp

section \<open>Properties\<close>

text \<open>
  C26. Whatever confirmations arrive in whatever order, the store holds exactly the fingerprints
  confirmed, each once; every device has one channel per endpoint, the last confirmed one available
  among them, and at most a hundred log entries that end with that confirmation.
\<close>

theorem store_well_formed:
  "store_ok (fold (\<lambda>d s. upsert_into s d) ds []) \<and>
   dom (by_fingerprint (fold (\<lambda>d s. upsert_into s d) ds [])) = (\<lambda>d. d_fingerprint (fst d)) ` set ds"
proof -
  have "dom (by_fingerprint []) = {}" by (simp add: by_fingerprint_def dom_def)
  then show ?thesis
    using upserts_ok [of "[]" ds] device_store.dom_ups_list [of ds "[]"] by (simp add: store_ok_def)
qed

text \<open>
  A confirmation is reported as a discovery exactly when the device was unknown, it becomes what
  the store knows of that device, and it leaves every other device as it was.
\<close>

theorem upsert_effect:
  "(fst (upsert s dev t) = Discovered dev \<longleftrightarrow> by_fingerprint s (d_fingerprint dev) = None) \<and>
   map_option device (by_fingerprint (upsert_into s (dev, t)) (d_fingerprint dev)) = Some dev \<and>
   by_fingerprint (upsert_into s (dev, t)) (d_fingerprint dev) = Some (fst (snd (upsert s dev t))) \<and>
   by_fingerprint (upsert_into s (dev, t)) |` (- {d_fingerprint dev}) =
     by_fingerprint s |` (- {d_fingerprint dev})"
proof -
  have "by_fingerprint (upsert_into s (dev, t)) |` (- {d_fingerprint dev}) =
      by_fingerprint s |` (- {d_fingerprint dev})"
    using upsert_lookup_other by (auto simp: restrict_map_def fun_eq_iff)
  moreover have "map_option device (by_fingerprint (upsert_into s (dev, t)) (d_fingerprint dev)) = Some dev"
    by (simp add: upsert_lookup split: option.split)
  moreover have "by_fingerprint (upsert_into s (dev, t)) (d_fingerprint dev) = Some (fst (snd (upsert s dev t)))"
    unfolding upsert_lookup by (simp add: upsert_def split: option.split)
  ultimately show ?thesis by (simp add: upsert_def split: option.split)
qed

text \<open>
  The channel dialed first is the best one known: no other channel is available when it is not,
  an IPv6 one comes first among equals, then the one confirmed last.
\<close>

theorem best_channel_is_best:
  assumes "x \<in> set (channels d)"
  shows "\<exists>y. y \<in> set (channels d) \<and> get_best_channel is_v6 d = Some (fst y) \<and>
    rank is_v6 d ` set (channels d) \<subseteq> {..rank is_v6 d y}"
proof -
  obtain y where "y \<in> set (channels d)" "get_best_channel is_v6 d = Some (fst y)"
    "\<forall>z \<in> set (channels d). rank is_v6 d z \<le> rank is_v6 d y"
    using ranked_first [OF assms] by blast
  then show ?thesis by (intro exI [of _ y]) (simp add: image_subset_iff)
qed

definition sample_channel :: "string \<Rightarrow> device_channel" where
  "sample_channel h = Http_Channel \<lparr>host = h, ch_port = 48855, ch_protocol = Https\<rparr>"

definition sample_device :: stateful_device where
  "sample_device =
     \<lparr>device = \<lparr>d_alias = ''A'', d_version = ''2.2'', d_device_model = None, d_device_type = None,
        d_fingerprint = ''FP'', d_channel = sample_channel ''10.0.0.2'', d_download = False\<rparr>,
      channels = [(sample_channel ''10.0.0.1'', NotReachable), (sample_channel ''10.0.0.2'', Available)],
      logs = [\<lparr>l_timestamp = 1, l_kind = LDiscovered, l_channel = sample_channel ''10.0.0.2''\<rparr>]\<rparr>"

theorem best_channel_is_best_witness:
  "\<exists>y. y \<in> set (channels sample_device) \<and> get_best_channel (\<lambda>_. False) sample_device = Some (fst y)"
  using best_channel_is_best [of "(sample_channel ''10.0.0.1'', NotReachable)" sample_device "\<lambda>_. False"]
  by (auto simp: sample_device_def)

text \<open>
  C28. A subnet scan over HTTPS only brings in devices under the fingerprint of the certificate they
  answered with, never this device itself; it forgets no device, and the interface can be scanned
  again afterwards.
\<close>

theorem scan_identifies_by_certificate:
  assumes "interface \<notin> scanning st"
    and "scan_subnet show_v4 net interface p Https completion st = (ds, st')"
  shows "dom (by_fingerprint (ds_store st')) - dom (by_fingerprint (ds_store st)) \<subseteq>
      {fp. proven net p fp} - {own_fingerprint st} \<and> interface \<notin> scanning st'"
proof -
  let ?hosts = "map (\<lambda>(a, now). (show_v4 a, now)) (completion (subnet_hosts interface))"
  let ?r = "probe_all net p Https ?hosts (st\<lparr>scanning := insert interface (scanning st)\<rparr>)"
  have "st' = (snd ?r)\<lparr>scanning := scanning (snd ?r) - {interface}\<rparr>"
    using assms by (simp add: scan_subnet_def split: prod.splits)
  then show ?thesis
    using probe_all_fingerprints [of net p ?hosts "st\<lparr>scanning := insert interface (scanning st)\<rparr>"]
    by (simp add: Diff_subset_conv)
qed

theorem scan_identifies_by_certificate_witness:
  "dom (by_fingerprint (ds_store (snd (scan_subnet (\<lambda>_. ''10.0.0.9'') (\<lambda>_ _ _. Inl ''timeout'') 7 48855 Https
      (map (\<lambda>a. (a, 1))) \<lparr>own_fingerprint = ''FP'', ds_store = [], answering = True, scanning = {}, confirmations = 0\<rparr>)))) -
   dom (by_fingerprint []) \<subseteq> {fp. proven (\<lambda>_ _ _. Inl ''timeout'') 48855 fp} - {''FP''}"
  using scan_identifies_by_certificate [of 7
      "\<lparr>own_fingerprint = ''FP'', ds_store = [], answering = True, scanning = {}, confirmations = 0\<rparr>"
      "\<lambda>_. ''10.0.0.9''" "\<lambda>_ _ _. Inl ''timeout''" 48855 "map (\<lambda>a. (a, 1))", OF _ surjective_pairing]
  by simp

end
