(* ===== verification/Signaling.thy ===== *)
theory Signaling
  imports Http_Common
begin

text \<open>
  The messages of the signaling protocol and its client (\<open>webrtc/signaling.rs\<close>), and the rooms of
  the signaling server (\<open>server/src/util/ip.rs\<close>): an IPv4 address, or the \<open>/64\<close> of an IPv6 address.
\<close>

section \<open>Messages\<close>

type_synonym uuid = nat

record ws_info =
  i_alias :: string
  i_version :: string
  i_device_model :: "string option"
  i_device_type :: "device_type option"
  i_token :: string

record ws_peer =
  p_id :: uuid
  p_alias :: string
  p_version :: string
  p_device_model :: "string option"
  p_device_type :: "device_type option"
  p_token :: string

definition peer_from :: "ws_info \<Rightarrow> uuid \<Rightarrow> ws_peer" where
  "peer_from info u =
     \<lparr>p_id = u, p_alias = i_alias info, p_version = i_version info,
      p_device_model = i_device_model info, p_device_type = i_device_type info,
      p_token = i_token info\<rparr>"

definition info_from :: "ws_peer \<Rightarrow> ws_info" where
  "info_from p =
     \<lparr>i_alias = p_alias p, i_version = p_version p, i_device_model = p_device_model p,
      i_device_type = p_device_type p, i_token = p_token p\<rparr>"

record ws_server_sdp =
  ss_peer :: ws_peer
  ss_session_id :: string
  ss_sdp :: string

record ws_client_sdp =
  cs_session_id :: string
  cs_target :: uuid
  cs_sdp :: string

datatype ws_server_message =
    Hello ws_peer "ws_peer list"
  | Join ws_peer
  | Peer_Update ws_peer
  | Left uuid
  | Offer ws_server_sdp
  | Answer ws_server_sdp
  | Error_Code status_code

datatype ws_client_message =
    Client_Update ws_info
  | Client_Offer ws_client_sdp
  | Client_Answer ws_client_sdp

section \<open>Numbers as text\<close>

definition digit :: "nat \<Rightarrow> char" where
  "digit n = ''0123456789abcdef'' ! n"

fun show_radix :: "nat \<Rightarrow> nat \<Rightarrow> string" where
  "show_radix b n = (if b < 2 \<or> n < b then [digit n] else show_radix b (n div b) @ [digit (n mod b)])"

declare show_radix.simps [simp del]

fun join_with :: "char \<Rightarrow> string list \<Rightarrow> string" where
  "join_with sep [] = []"
| "join_with sep [x] = x"
| "join_with sep (x # y # xs) = x @ sep # join_with sep (y # xs)"

text \<open>\<open>str::parse\<close> of an unsigned integer below \<open>bound\<close>.\<close>

definition digit_value :: "char \<Rightarrow> nat option" where
  "digit_value c = (let n = (of_char c :: nat) in if 48 \<le> n \<and> n \<le> 57 then Some (n - 48) else None)"

fun parse_digits :: "nat \<Rightarrow> nat \<Rightarrow> string \<Rightarrow> nat option" where
  "parse_digits bound acc [] = Some acc"
| "parse_digits bound acc (c # cs) =
     (case digit_value c of
        None \<Rightarrow> None
      | Some d \<Rightarrow> if acc * 10 + d < bound then parse_digits bound (acc * 10 + d) cs else None)"

definition parse_uint :: "nat \<Rightarrow> string \<Rightarrow> nat option" where
  "parse_uint bound s =
     (case s of
        [] \<Rightarrow> None
      | c # cs \<Rightarrow> if c = CHR ''+'' then (if cs = [] then None else parse_digits bound 0 cs)
                  else parse_digits bound 0 s)"

section \<open>Rooms\<close>

definition octets :: "u32 \<Rightarrow> nat list" where
  "octets a = map (\<lambda>i. unat (drop_bit i a) mod 256) [24, 16, 8, 0]"

definition segments :: "128 word \<Rightarrow> nat list" where
  "segments a = map (\<lambda>i. unat (drop_bit i a) mod 65536) [112, 96, 80, 64, 48, 32, 16, 0]"

fun get_ip_group :: "ip_addr \<Rightarrow> string" where
  "get_ip_group (V4 a) = join_with (CHR ''.'') (map (show_radix 10) (octets a))"
| "get_ip_group (V6 a) = join_with (CHR '':'') (map (show_radix 16) (take 4 (segments a)))"

section \<open>The client\<close>

text \<open>
  Connecting waits for the greeting: the reader task hands every message it can parse (\<open>Some\<close>) to a
  channel of one place, which is not read before the greeting is there. When the server closes first
  the channel of the greeting is dropped and \<open>unwrap\<close> panics.
\<close>

datatype connect_outcome = Connected ws_peer | Waiting | Panicked

fun await_hello :: "nat \<Rightarrow> bool \<Rightarrow> ws_server_message option list \<Rightarrow> connect_outcome" where
  "await_hello buffered server_closed [] = (if server_closed then Panicked else Waiting)"
| "await_hello buffered server_closed (m # ms) =
     (case m of
        None \<Rightarrow> await_hello buffered server_closed ms
      | Some (Hello c ps) \<Rightarrow> Connected c
      | Some _ \<Rightarrow> if buffered < 1 then await_hello (buffered + 1) server_closed ms else Waiting)"

definition signaling_connect :: "bool \<Rightarrow> ws_server_message option list \<Rightarrow> connect_outcome" where
  "signaling_connect server_closed ms = await_hello 0 server_closed ms"

text \<open>
  The listener: an answer takes the callback of its session out of the table and calls it; then the
  message is forwarded, which panics once the receiver is gone (after \<open>taken\<close> messages).
\<close>

definition take_callback :: "(string \<rightharpoonup> 'c) \<Rightarrow> ws_server_message \<Rightarrow>
    ('c \<times> ws_server_sdp) list \<times> (string \<rightharpoonup> 'c)" where
  "take_callback on_answer m =
     (case m of
        Answer sdp \<Rightarrow>
          (case on_answer (ss_session_id sdp) of
             Some callback \<Rightarrow> ([(callback, sdp)], on_answer(ss_session_id sdp := None))
           | None \<Rightarrow> ([], on_answer))
      | _ \<Rightarrow> ([], on_answer))"

fun start_listener :: "nat \<Rightarrow> (string \<rightharpoonup> 'c) \<Rightarrow> ws_server_message list \<Rightarrow>
    ('c \<times> ws_server_sdp) list \<times> ws_server_message list" where
  "start_listener taken on_answer [] = ([], [])"
| "start_listener taken on_answer (m # ms) =
     (case take_callback on_answer m of
        (called, on_answer') \<Rightarrow>
          (case taken of
             0 \<Rightarrow> (called, [])
           | Suc n \<Rightarrow> (case start_listener n on_answer' ms of
                         (calls, forwarded) \<Rightarrow> (called @ calls, m # forwarded))))"

section \<open>Facts on rendered numbers\<close>

fun undigit :: "char \<Rightarrow> nat" where
  "undigit c = (let n = (of_char c :: nat) in if n < 58 then n - 48 else n - 87)"

lemma digit_range: "(n :: nat) < 16 \<Longrightarrow> n \<in> set [0, 1, 2, 3, 4, 5, 6, 7, 8, 9, 10, 11, 12, 13, 14, 15]"
  by simp presburger

lemma undigit_digit: "n < 16 \<Longrightarrow> undigit (digit n) = n"
  by (drule digit_range) (auto simp: digit_def)

lemma digit_plain: "n < 16 \<Longrightarrow> digit n \<noteq> CHR ''.'' \<and> digit n \<noteq> CHR '':''"
  by (drule digit_range) (auto simp: digit_def)

definition read_radix :: "nat \<Rightarrow> string \<Rightarrow> nat" where
  "read_radix b s = foldl (\<lambda>acc c. acc * b + undigit c) 0 s"

lemma read_show_radix: "2 \<le> b \<Longrightarrow> b \<le> 16 \<Longrightarrow> read_radix b (show_radix b n) = n"
proof (induction b n rule: show_radix.induct)
  case (1 b n)
  show ?case
  proof (cases "n < b")
    case True
    then show ?thesis using 1 by (simp add: show_radix.simps [of b n] read_radix_def undigit_digit del: undigit.simps)
  next
    case False
    then have "read_radix b (show_radix b (n div b)) = n div b" using 1 by simp
    moreover have "undigit (digit (n mod b)) = n mod b"
      using 1(2,3) mod_less_divisor [of b n] by (intro undigit_digit) linarith
    ultimately show ?thesis
      using 1(2,3) False
      by (simp add: show_radix.simps [of b n] read_radix_def del: undigit.simps)
  qed
qed

lemma show_radix_inj: "2 \<le> b \<Longrightarrow> b \<le> 16 \<Longrightarrow> show_radix b m = show_radix b n \<Longrightarrow> m = n"
  using read_show_radix by metis

lemma show_radix_plain:
  "2 \<le> b \<Longrightarrow> b \<le> 16 \<Longrightarrow> c \<in> set (show_radix b n) \<Longrightarrow> c \<noteq> CHR ''.'' \<and> c \<noteq> CHR '':''"
proof (induction b n rule: show_radix.induct)
  case (1 b n)
  have "n mod b < 16" "n < b \<Longrightarrow> n < 16" using 1(2,3) mod_less_divisor [of b n] by linarith+
  then show ?case
    using 1 digit_plain by (auto simp: show_radix.simps [of b n] split: if_splits)
qed

lemma join_with_inj:
  "\<lbrakk>length xs = length ys; \<forall>x \<in> set xs \<union> set ys. sep \<notin> set x; join_with sep xs = join_with sep ys\<rbrakk>
   \<Longrightarrow> xs = ys"
proof (induction sep xs arbitrary: ys rule: join_with.induct)
  case (3 sep x y xs)
  then obtain u v vs where ys: "ys = u # v # vs"
    by (metis length_Suc_conv)
  have eq: "x @ sep # join_with sep (y # xs) = u @ sep # join_with sep (v # vs)"
    using 3(4) ys by simp
  have sep: "sep \<notin> set x" "sep \<notin> set u" using 3(3) ys by auto
  have "takeWhile (\<lambda>c. c \<noteq> sep) (x @ sep # zs) = x" if "sep \<notin> set x" for x zs
    using that by (subst takeWhile_append2) auto
  then have "x = u" using eq sep by metis
  moreover from this have "join_with sep (y # xs) = join_with sep (v # vs)" using eq by simp
  then have "y # xs = v # vs" using 3(1) [of "v # vs"] 3(2,3) ys by simp
  ultimately show ?case using ys by simp
qed (auto simp: length_Suc_conv Suc_length_conv)

section \<open>Properties\<close>

lemma from_bytes: "x < (b :: nat) ^ 4 \<Longrightarrow> 0 < b \<Longrightarrow>
  x = ((x div b ^ 3 mod b * b + x div b ^ 2 mod b) * b + x div b mod b) * b + x mod b"
proof -
  assume "x < b ^ 4" "0 < b"
  then have "x div b ^ 3 < b" by (simp add: less_mult_imp_div_less power4_eq_xxxx power3_eq_cube mult.assoc)
  then have "x div b ^ 3 mod b = x div b div b div b"
    by (simp add: div_mult2_eq power3_eq_cube mult.assoc)
  moreover have "x div b ^ 2 = x div b div b" by (simp add: div_mult2_eq power2_eq_square)
  ultimately show ?thesis by simp
qed

text \<open>The addresses that share a room.\<close>

fun same_room :: "ip_addr \<Rightarrow> ip_addr \<Rightarrow> bool" where
  "same_room (V4 a) (V4 b) \<longleftrightarrow> a = b"
| "same_room (V6 a) (V6 b) \<longleftrightarrow> drop_bit 64 a = drop_bit 64 b"
| "same_room _ _ \<longleftrightarrow> False"

lemma unat_drop: "unat (drop_bit i (a :: 'a :: len word)) = unat a div 2 ^ i"
  by (subst unat_drop_bit_eq) (simp only: drop_bit_eq_div)

definition join_bytes :: "nat \<Rightarrow> nat list \<Rightarrow> nat" where
  "join_bytes b xs = foldl (\<lambda>acc x. acc * b + x) 0 xs"

lemma join_octets: "join_bytes 256 (octets a) = unat a"
proof -
  have p: "(256 :: nat) ^ 4 = 4294967296" "(256 :: nat) ^ 3 = 2 ^ 24" "(256 :: nat) ^ 2 = 2 ^ 16"
    by simp_all
  have "unat a < 4294967296" using unsigned_less [of a, where ?'a = nat] by simp
  then show ?thesis
    using from_bytes [of "unat a" 256, unfolded p]
    by (simp add: join_bytes_def octets_def unat_drop del: power_numeral_even power_numeral_odd)
qed

lemma octets_inj: "octets a = octets b \<Longrightarrow> a = b"
  by (metis join_octets word_unat_eq_iff)

lemma join_segments: "join_bytes 65536 (take 4 (segments a)) = unat (drop_bit 64 a)"
proof -
  let ?x = "unat (drop_bit 64 a)"
  have p: "(65536 :: nat) ^ 4 = 18446744073709551616" "(65536 :: nat) ^ 3 = 2 ^ 48" "(65536 :: nat) ^ 2 = 2 ^ 32"
    by simp_all
  have "?x < 18446744073709551616"
    using unsigned_less [of a, where ?'a = nat] by (simp add: unat_drop less_mult_imp_div_less)
  then have "?x = ((?x div 2 ^ 48 mod 65536 * 65536 + ?x div 2 ^ 32 mod 65536) * 65536 +
      ?x div 65536 mod 65536) * 65536 + ?x mod 65536"
    using from_bytes [of ?x 65536, unfolded p] by simp
  moreover have "unat (drop_bit 112 a) = ?x div 2 ^ 48" "unat (drop_bit 96 a) = ?x div 2 ^ 32"
    "unat (drop_bit 80 a) = ?x div 65536"
    by (simp_all add: unat_drop div_mult2_eq [symmetric])
  ultimately show ?thesis by (simp add: join_bytes_def segments_def)
qed

lemma segments_inj: "take 4 (segments a) = take 4 (segments b) \<longleftrightarrow> drop_bit 64 a = drop_bit 64 b"
proof
  assume eq: "drop_bit 64 a = drop_bit 64 b"
  have "unat (drop_bit 112 x) = unat (drop_bit 64 x) div 2 ^ 48"
    "unat (drop_bit 96 x) = unat (drop_bit 64 x) div 2 ^ 32"
    "unat (drop_bit 80 x) = unat (drop_bit 64 x) div 65536" for x :: "128 word"
    by (simp_all add: unat_drop div_mult2_eq [symmetric])
  then show "take 4 (segments a) = take 4 (segments b)" using eq by (simp add: segments_def)
qed (metis join_segments word_unat_eq_iff)

lemma decimal_group: "c \<in> set (get_ip_group (V4 a)) \<Longrightarrow> c \<noteq> CHR '':''"
  using show_radix_plain [of 10 c] by (auto simp: octets_def)

lemma hex_group: "CHR '':'' \<in> set (get_ip_group (V6 a))"
  by (simp add: segments_def)

lemma groups_differ: "get_ip_group (V4 a) \<noteq> get_ip_group (V6 b)"
proof
  assume "get_ip_group (V4 a) = get_ip_group (V6 b)"
  then have "CHR '':'' \<in> set (get_ip_group (V4 a))" using hex_group [of b] by (simp only:)
  then show False using decimal_group by blast
qed

lemma rendered_inj:
  assumes "2 \<le> b" "b \<le> 16" "sep = CHR ''.'' \<or> sep = CHR '':''" "length xs = length ys"
    and "join_with sep (map (show_radix b) xs) = join_with sep (map (show_radix b) ys)"
  shows "xs = ys"
proof -
  have "map (show_radix b) xs = map (show_radix b) ys"
    using assms show_radix_plain [OF assms(1,2)] by (intro join_with_inj [of _ _ sep]) auto
  moreover have "inj (show_radix b)" using show_radix_inj [OF assms(1,2)] by (rule injI)
  ultimately show ?thesis by (simp add: inj_map_eq_map)
qed

text \<open>
  Two clients are put into the same room exactly when they have the same IPv4 address, or IPv6
  addresses of the same \<open>/64\<close>; no IPv4 address shares a room with an IPv6 one.
\<close>

theorem ip_group_rooms: "get_ip_group i = get_ip_group j \<longleftrightarrow> same_room i j"
proof (cases i)
  case (V4 a)
  show ?thesis
  proof (cases j)
    case (V4 b)
    then show ?thesis
      using rendered_inj [of 10 "CHR ''.''" "octets a" "octets b"] octets_inj [of a b] \<open>i = V4 a\<close>
      by (auto simp: octets_def)
  next
    case (V6 b)
    then show ?thesis using groups_differ [of a b] \<open>i = V4 a\<close> by (simp del: get_ip_group.simps)
  qed
next
  case (V6 a)
  show ?thesis
  proof (cases j)
    case (V4 b)
    then show ?thesis
      using groups_differ [of b a, THEN not_sym] \<open>i = V6 a\<close> by (simp del: get_ip_group.simps)
  next
    case (V6 b)
    then show ?thesis
      using rendered_inj [of 16 "CHR '':''" "take 4 (segments a)" "take 4 (segments b)"]
        segments_inj [of a b] \<open>i = V6 a\<close>
      by (auto simp: segments_def)
  qed
qed

text \<open>
  Every IPv4 client seen through a dual-stack socket, or forwarded by a proxy in its mapped form,
  lands in one room: the \<open>/64\<close> of the IPv4-mapped addresses.
\<close>

definition mapped_v4 :: "u32 \<Rightarrow> ip_addr" where
  "mapped_v4 a = V6 (push_bit 32 0xFFFF + ucast a)"

theorem mapped_clients_share_room: "get_ip_group (mapped_v4 a) = get_ip_group (mapped_v4 b)"
proof -
  have "unat (push_bit 32 0xFFFF + ucast c :: 128 word) div 2 ^ 64 = 0" for c :: u32
  proof -
    have "unat c < 2 ^ 32" using unsigned_less [of c, where ?'a = nat] by simp
    then have "unat (push_bit 32 0xFFFF + ucast c :: 128 word) < 2 ^ 64"
      by (simp add: unat_word_ariths take_bit_nat_eq_self unsigned_ucast_eq)
    then show ?thesis by simp
  qed
  then have "drop_bit 64 (push_bit 32 0xFFFF + ucast c :: 128 word) = 0" for c :: u32
    by (intro word_unat_eq_iff [THEN iffD2]) (simp only: unat_drop unsigned_0)
  then have "take 4 (segments (push_bit 32 0xFFFF + ucast a)) = take 4 (segments (push_bit 32 0xFFFF + ucast b))"
    by (simp only: segments_inj)
  then show ?thesis by (simp add: mapped_v4_def)
qed

text \<open>The answers of a session in a message stream.\<close>

definition answers_of :: "string \<Rightarrow> ws_server_message list \<Rightarrow> ws_server_sdp list" where
  "answers_of k ms = concat (map (\<lambda>m. case m of Answer sdp \<Rightarrow> if ss_session_id sdp = k then [sdp] else [] | _ \<Rightarrow> []) ms)"


text \<open>The answers that reach the callback of a session: the first one, if it is registered.\<close>

definition calls_of :: "string \<Rightarrow> ('c \<times> ws_server_sdp) list \<Rightarrow> ('c \<times> ws_server_sdp) list" where
  "calls_of k calls = filter (\<lambda>c. ss_session_id (snd c) = k) calls"

lemma take_callback_effect:
  "calls_of k (fst (take_callback cb m)) =
     (case (cb k, answers_of k [m]) of (Some c, sdp # _) \<Rightarrow> [(c, sdp)] | _ \<Rightarrow> [])"
  "snd (take_callback cb m) k = (if answers_of k [m] = [] then cb k else None)"
  by (auto simp: take_callback_def calls_of_def answers_of_def split: ws_server_message.split option.split)

lemma answers_of_append: "answers_of k (m # ms) = answers_of k [m] @ answers_of k ms"
  by (simp add: answers_of_def)

lemma answers_of_single: "answers_of k [m] = [] \<or> (\<exists>sdp. answers_of k [m] = [sdp])"
  by (auto simp: answers_of_def split: ws_server_message.split)

lemma listener_calls:
  "length ms \<le> taken \<Longrightarrow> snd (start_listener taken cb ms) = ms \<and>
    calls_of k (fst (start_listener taken cb ms)) =
      (case (cb k, answers_of k ms) of (Some c, sdp # _) \<Rightarrow> [(c, sdp)] | _ \<Rightarrow> [])"
proof (induction ms arbitrary: taken cb)
  case Nil
  then show ?case by (simp add: answers_of_def calls_of_def split: option.split)
next
  case (Cons m ms)
  then obtain n where n: "taken = Suc n" "length ms \<le> n" by (cases taken) auto
  obtain called cb' where tk: "take_callback cb m = (called, cb')" by (cases "take_callback cb m")
  have calls: "calls_of k (called @ xs) = calls_of k called @ calls_of k xs" for xs
    by (simp add: calls_of_def)
  have IH: "snd (start_listener n cb' ms) = ms \<and> calls_of k (fst (start_listener n cb' ms)) =
      (case (cb' k, answers_of k ms) of (Some c, sdp # _) \<Rightarrow> [(c, sdp)] | _ \<Rightarrow> [])"
    by (rule Cons.IH [OF n(2)])
  show ?case
    using IH take_callback_effect [where k = k and cb = cb and m = m] answers_of_single [of k m]
    by (auto simp: n tk calls answers_of_append [of k m ms] split: prod.splits option.splits list.splits)
qed

text \<open>
  While the application takes the messages, a registered callback is called exactly once, with
  the first answer of its session, whatever other messages come in between; every message is still
  forwarded, in order.
\<close>

theorem answer_reaches_callback_once:
  assumes "length ms \<le> taken" and "start_listener taken on_answer ms = (calls, forwarded)"
  shows "forwarded = ms \<and>
    calls_of k calls =
      (case (on_answer k, answers_of k ms) of (Some c, sdp # _) \<Rightarrow> [(c, sdp)] | _ \<Rightarrow> [])"
  using listener_calls [OF assms(1), where k = k and cb = on_answer] assms(2) by simp

definition sample_sdp :: "string \<Rightarrow> ws_server_sdp" where
  "sample_sdp k = \<lparr>ss_peer = peer_from \<lparr>i_alias = ''A'', i_version = ''2.3'', i_device_model = None,
     i_device_type = None, i_token = ''T''\<rparr> 1, ss_session_id = k, ss_sdp = ''sdp''\<rparr>"

theorem answer_reaches_callback_once_witness:
  "calls_of ''s'' [(7 :: nat, sample_sdp ''s'')] = [(7, sample_sdp ''s'')]"
  using answer_reaches_callback_once [where k = "''s''" and taken = 5 and on_answer = "[''s'' \<mapsto> (7 :: nat)]"
      and ms = "[Left 3, Answer (sample_sdp ''s''), Answer (sample_sdp ''s'')]"
      and calls = "[(7, sample_sdp ''s'')]" and forwarded = "[Left 3, Answer (sample_sdp ''s''), Answer (sample_sdp ''s'')]"]
  by (simp add: take_callback_def sample_sdp_def answers_of_def eval_nat_numeral)

end
