(* ===== verification/Signaling_Server.thy ===== *)
theory Signaling_Server
  imports Signaling "HOL-Library.AList"
begin

text \<open>
  The signaling server (\<open>server/src/controller/ws_controller.rs\<close>, \<open>server/src/config\<close>): the rooms and
  their connections, the limits per room, the websocket handler with its messages, and a step
  relation over all connections. A hash map is an association list; the order of its entries stands
  for the unspecified order of iteration. Every connection owns a channel of four places, named by its
  id. Base64, UTF-8 and JSON decoding are arguments.
\<close>

section \<open>State\<close>

record client_state =
  client :: ws_info
  tx :: uuid

type_synonym tx_map = "(string \<times> (uuid \<times> client_state) list) list"
type_synonym ip_request_count_map = "(string \<times> u32) list"

record app_state =
  tx_map :: tx_map
  request_count_map :: ip_request_count_map

definition new_app_state :: app_state where
  "new_app_state = \<lparr>tx_map = [], request_count_map = []\<rparr>"

text \<open>The limits come from the environment; a value that does not parse is a panic (\<open>None\<close>).\<close>

definition MAX_CONNECTIONS :: "string option \<Rightarrow> nat option" where
  "MAX_CONNECTIONS env = parse_uint (2 ^ 64) (case env of None \<Rightarrow> ''10'' | Some v \<Rightarrow> v)"

definition MAX_REQUESTS :: "string option \<Rightarrow> u32 option" where
  "MAX_REQUESTS env = map_option of_nat (parse_uint (2 ^ 32) (case env of None \<Rightarrow> ''1000'' | Some v \<Rightarrow> v))"

record limits =
  max_connections :: nat
  max_requests :: u32

section \<open>The upgrade request\<close>

text \<open>The last address of \<open>x-forwarded-for\<close> wins, when it parses.\<close>

definition rsplit_comma :: "string \<Rightarrow> string" where
  "rsplit_comma s = rev (takeWhile (\<lambda>c. c \<noteq> CHR '','') (rev s))"

definition client_ip :: "(string \<Rightarrow> string) \<Rightarrow> (string \<Rightarrow> ip_addr option) \<Rightarrow> string option \<Rightarrow> ip_addr \<Rightarrow> ip_addr" where
  "client_ip trim parse_ip forwarded remote =
     (case forwarded of
        None \<Rightarrow> remote
      | Some v \<Rightarrow> (case parse_ip (trim (rsplit_comma v)) of Some i \<Rightarrow> i | None \<Rightarrow> remote))"

definition ws_handler ::
  "(string \<Rightarrow> bytes option) \<Rightarrow> (bytes \<Rightarrow> string option) \<Rightarrow> (string \<Rightarrow> ws_info option) \<Rightarrow>
   (string \<Rightarrow> string) \<Rightarrow> (string \<Rightarrow> ip_addr option) \<Rightarrow>
   string \<Rightarrow> string option \<Rightarrow> ip_addr \<Rightarrow> uuid \<Rightarrow> status_code + string \<times> ws_peer" where
  "ws_handler decode from_utf8 from_json trim parse_ip d forwarded remote fresh =
     (case decode d of
        None \<Rightarrow> Inl 400
      | Some bs \<Rightarrow>
          (case from_utf8 bs of
             None \<Rightarrow> Inl 400
           | Some s \<Rightarrow>
               (case from_json s of
                  None \<Rightarrow> Inl 400
                | Some info \<Rightarrow>
                    Inr (get_ip_group (client_ip trim parse_ip forwarded remote), peer_from info fresh))))"

section \<open>Sections under the locks\<close>

definition lookup_count :: "ip_request_count_map \<Rightarrow> string \<Rightarrow> u32" where
  "lookup_count counts g = (case map_of counts g of None \<Rightarrow> 0 | Some c \<Rightarrow> c)"

definition protect_ddos_request_count ::
  "limits \<Rightarrow> string \<Rightarrow> ip_request_count_map \<Rightarrow> bool \<times> ip_request_count_map" where
  "protect_ddos_request_count lim g counts =
     (let count = lookup_count counts g
      in if max_requests lim \<le> count then (False, AList.update g count counts)
         else (True, AList.update g (count + 1) counts))"

definition room :: "app_state \<Rightarrow> string \<Rightarrow> (uuid \<times> client_state) list" where
  "room st g = (case map_of (tx_map st) g of None \<Rightarrow> [] | Some m \<Rightarrow> m)"

text \<open>The entry of the room is created before the limits are looked at. \<open>None\<close>: limit reached.\<close>

definition connect_peer :: "limits \<Rightarrow> string \<Rightarrow> ws_peer \<Rightarrow> app_state \<Rightarrow>
    (uuid list \<times> ws_peer list) option \<times> app_state" where
  "connect_peer lim g p st =
     (let local = room st g;
          st1 = st\<lparr>tx_map := AList.update g local (tx_map st)\<rparr>
      in if max_connections lim \<le> length local then (None, st1)
         else case protect_ddos_request_count lim g (request_count_map st1) of
                (ok, counts) \<Rightarrow>
                  if \<not> ok then (None, st1\<lparr>request_count_map := counts\<rparr>)
                  else (Some (map (\<lambda>(k, v). tx v) local, map (\<lambda>(k, v). peer_from (client v) k) local),
                        \<lparr>tx_map = AList.update g
                           (AList.update (p_id p) \<lparr>client = info_from p, tx = p_id p\<rparr> local) (tx_map st1),
                         request_count_map = counts\<rparr>))"

definition send_update_to_other_peers ::
  "string \<Rightarrow> uuid \<Rightarrow> ws_info \<Rightarrow> app_state \<Rightarrow> (uuid \<times> ws_server_message) list \<times> app_state" where
  "send_update_to_other_peers g u info st =
     (case map_of (tx_map st) g of
        None \<Rightarrow> ([], st)
      | Some local \<Rightarrow>
          (case map_of local u of
             None \<Rightarrow> ([], st)
           | Some s \<Rightarrow>
               (let local' = AList.update u (s\<lparr>client := info\<rparr>) local
                in (map (\<lambda>(k, v). (tx v, Peer_Update (peer_from info u))) (filter (\<lambda>(k, v). k \<noteq> u) local'),
                    st\<lparr>tx_map := AList.update g local' (tx_map st)\<rparr>))))"

definition server_sdp :: "ws_peer \<Rightarrow> ws_client_sdp \<Rightarrow> ws_server_sdp" where
  "server_sdp origin sdp = \<lparr>ss_peer = origin, ss_session_id = cs_session_id sdp, ss_sdp = cs_sdp sdp\<rparr>"

definition send_to_peer ::
  "string \<Rightarrow> uuid \<Rightarrow> ws_server_message \<Rightarrow> app_state \<Rightarrow> (uuid \<times> ws_server_message) list" where
  "send_to_peer g target m st =
     (case map_of (tx_map st) g of
        None \<Rightarrow> []
      | Some local \<Rightarrow> (case map_of local target of None \<Rightarrow> [] | Some s \<Rightarrow> [(tx s, m)]))"

text \<open>One parsed message; \<open>None\<close> once the room is over its request limit.\<close>

definition on_client_message ::
  "limits \<Rightarrow> string \<Rightarrow> ws_peer \<Rightarrow> ws_client_message \<Rightarrow> app_state \<Rightarrow>
   (uuid \<times> ws_server_message) list option \<times> app_state" where
  "on_client_message lim g p m st =
     (case protect_ddos_request_count lim g (request_count_map st) of
        (ok, counts) \<Rightarrow>
          (let st1 = st\<lparr>request_count_map := counts\<rparr>
           in if \<not> ok then (None, st1)
              else case m of
                     Client_Update info \<Rightarrow>
                       (case send_update_to_other_peers g (p_id p) info st1 of
                          (sends, st2) \<Rightarrow> (Some sends, st2))
                   | Client_Offer sdp \<Rightarrow>
                       (Some (send_to_peer g (cs_target sdp) (Offer (server_sdp p sdp)) st1), st1)
                   | Client_Answer sdp \<Rightarrow>
                       (Some (send_to_peer g (cs_target sdp) (Answer (server_sdp p sdp)) st1), st1)))"

definition disconnect_peer :: "string \<Rightarrow> uuid \<Rightarrow> app_state \<Rightarrow> uuid list \<times> app_state" where
  "disconnect_peer g u st =
     (case map_of (tx_map st) g of
        None \<Rightarrow> ([], st)
      | Some local \<Rightarrow>
          (let local' = AList.delete u local
           in if local' = [] then ([], st\<lparr>tx_map := AList.delete g (tx_map st)\<rparr>)
              else (map (\<lambda>(k, v). tx v) local', st\<lparr>tx_map := AList.update g local' (tx_map st)\<rparr>)))"

text \<open>The hourly job.\<close>

definition clear_request_counts :: "app_state \<Rightarrow> app_state" where
  "clear_request_counts st = st\<lparr>request_count_map := []\<rparr>"

section \<open>All connections\<close>

text \<open>
  Where \<open>handle_socket\<close> stands: announcing itself (the sends still to do, the greeting last), with its
  two tasks running (\<open>Serving\<close>: what the receiving task still has to send; \<open>Refusing\<close>: it ends after
  the error), about to leave, saying goodbye, gone. The receiver of its channel lives until \<open>Leaving\<close>;
  aborting a task is taken to stop it at once.
\<close>

type_synonym sends = "(uuid \<times> ws_server_message) list"

datatype phase = Greeting sends | Serving sends | Refusing | Leaving | Farewell sends

record conn =
  c_group :: string
  c_peer :: ws_peer
  c_phase :: phase
  c_queue :: "ws_server_message list"
  c_sent :: "ws_server_message list"   \<comment> \<open>what its client was sent, a history\<close>

record hub =
  h_app :: app_state
  h_conns :: "uuid \<rightharpoonup> conn"

definition start_hub :: hub where
  "start_hub = \<lparr>h_app = new_app_state, h_conns = Map.empty\<rparr>"

definition CHANNEL_CAPACITY :: nat where
  "CHANNEL_CAPACITY = 4"

fun receiving :: "phase \<Rightarrow> bool" where
  "receiving (Greeting _) \<longleftrightarrow> True"
| "receiving (Serving _) \<longleftrightarrow> True"
| "receiving Refusing \<longleftrightarrow> True"
| "receiving Leaving \<longleftrightarrow> False"
| "receiving (Farewell _) \<longleftrightarrow> False"

text \<open>\<open>tx.send(m).await\<close>: fails at once when the receiver is gone, waits (\<open>None\<close>) when it is full.\<close>

definition channel_send :: "(uuid \<rightharpoonup> conn) \<Rightarrow> uuid \<times> ws_server_message \<Rightarrow> (uuid \<rightharpoonup> conn) option" where
  "channel_send conns tm =
     (case conns (fst tm) of
        None \<Rightarrow> Some conns
      | Some c \<Rightarrow>
          if \<not> receiving (c_phase c) then Some conns
          else if length (c_queue c) < CHANNEL_CAPACITY
            then Some (conns(fst tm \<mapsto> c\<lparr>c_queue := c_queue c @ [snd tm]\<rparr>))
            else None)"

definition set_phase :: "uuid \<Rightarrow> phase \<Rightarrow> (uuid \<rightharpoonup> conn) \<Rightarrow> (uuid \<rightharpoonup> conn)" where
  "set_phase u ph conns = (case conns u of None \<Rightarrow> conns | Some c \<Rightarrow> conns(u \<mapsto> c\<lparr>c_phase := ph\<rparr>))"

definition new_conn :: "string \<Rightarrow> ws_peer \<Rightarrow> uuid list \<Rightarrow> ws_peer list \<Rightarrow> conn" where
  "new_conn g p peers_tx peers =
     \<lparr>c_group = g, c_peer = p,
      c_phase = Greeting (map (\<lambda>t. (t, Join p)) peers_tx @ [(p_id p, Hello p peers)]),
      c_queue = [], c_sent = []\<rparr>"

inductive hub_step :: "limits \<Rightarrow> hub \<Rightarrow> hub \<Rightarrow> bool" for lim :: limits where
  connected:
    "\<lbrakk>h_conns s (p_id p) = None; connect_peer lim g p (h_app s) = (Some (peers_tx, peers), st)\<rbrakk> \<Longrightarrow>
     hub_step lim s \<lparr>h_app = st, h_conns = (h_conns s)(p_id p \<mapsto> new_conn g p peers_tx peers)\<rparr>"
| refused:
    "\<lbrakk>h_conns s (p_id p) = None; connect_peer lim g p (h_app s) = (None, st)\<rbrakk> \<Longrightarrow>
     hub_step lim s (s\<lparr>h_app := st\<rparr>)"
| greet:
    "\<lbrakk>h_conns s u = Some c; c_phase c = Greeting (tm # rest); channel_send (h_conns s) tm = Some conns\<rbrakk> \<Longrightarrow>
     hub_step lim s (s\<lparr>h_conns := set_phase u (if rest = [] then Serving [] else Greeting rest) conns\<rparr>)"
| deliver:
    "\<lbrakk>h_conns s u = Some c; c_phase c = Serving w \<or> c_phase c = Refusing; c_queue c = m # q\<rbrakk> \<Longrightarrow>
     hub_step lim s (s\<lparr>h_conns := (h_conns s)(u \<mapsto> c\<lparr>c_queue := q, c_sent := c_sent c @ [m]\<rparr>)\<rparr>)"
| receive:
    "\<lbrakk>h_conns s u = Some c; c_phase c = Serving [];
      on_client_message lim (c_group c) (c_peer c) m (h_app s) = (Some sends, st)\<rbrakk> \<Longrightarrow>
     hub_step lim s (s\<lparr>h_app := st, h_conns := set_phase u (Serving sends) (h_conns s)\<rparr>)"
| over_limit:
    "\<lbrakk>h_conns s u = Some c; c_phase c = Serving [];
      on_client_message lim (c_group c) (c_peer c) m (h_app s) = (None, st)\<rbrakk> \<Longrightarrow>
     hub_step lim s (s\<lparr>h_app := st, h_conns := set_phase u Refusing (h_conns s)\<rparr>)"
| relay:
    "\<lbrakk>h_conns s u = Some c; c_phase c = Serving (tm # rest); channel_send (h_conns s) tm = Some conns\<rbrakk> \<Longrightarrow>
     hub_step lim s (s\<lparr>h_conns := set_phase u (Serving rest) conns\<rparr>)"
| refuse_more:
    "\<lbrakk>h_conns s u = Some c; c_phase c = Refusing;
      channel_send (h_conns s) (u, Error_Code 429) = Some conns\<rbrakk> \<Longrightarrow>
     hub_step lim s (s\<lparr>h_conns := set_phase u Leaving conns\<rparr>)"
| socket_closed:
    "\<lbrakk>h_conns s u = Some c; c_phase c = Serving []\<rbrakk> \<Longrightarrow>
     hub_step lim s (s\<lparr>h_conns := set_phase u Leaving (h_conns s)\<rparr>)"
| send_failed:
    "\<lbrakk>h_conns s u = Some c; c_phase c = Serving w \<or> c_phase c = Refusing; c_queue c \<noteq> []\<rbrakk> \<Longrightarrow>
     hub_step lim s (s\<lparr>h_conns := set_phase u Leaving (h_conns s)\<rparr>)"
| leave:
    "\<lbrakk>h_conns s u = Some c; c_phase c = Leaving; disconnect_peer (c_group c) u (h_app s) = (rest, st)\<rbrakk> \<Longrightarrow>
     hub_step lim s (s\<lparr>h_app := st,
       h_conns := set_phase u (Farewell (map (\<lambda>t. (t, Left u)) rest)) (h_conns s)\<rparr>)"
| goodbye:
    "\<lbrakk>h_conns s u = Some c; c_phase c = Farewell (tm # rest); channel_send (h_conns s) tm = Some conns\<rbrakk> \<Longrightarrow>
     hub_step lim s (s\<lparr>h_conns := set_phase u (Farewell rest) conns\<rparr>)"
| new_hour: "hub_step lim s (s\<lparr>h_app := clear_request_counts (h_app s)\<rparr>)"

section \<open>The rooms are what the connections say\<close>

lemma AList_update_new: "k \<notin> fst ` set al \<Longrightarrow> AList.update k v al = al @ [(k, v)]"
  by (induction al) auto

lemma AList_update_subset: "set (AList.update k v al) \<subseteq> insert (k, v) (set al)"
  by (induction al) auto

lemma room_update [simp]:
  "room (st\<lparr>tx_map := AList.update g m (tx_map st)\<rparr>) = (room st)(g := m)"
  "room \<lparr>tx_map = AList.update g m (tx_map st), request_count_map = counts\<rparr> = (room st)(g := m)"
  "room (st\<lparr>tx_map := AList.delete g (tx_map st)\<rparr>) = (room st)(g := [])"
  "room (st\<lparr>request_count_map := counts\<rparr>) = room st"
  by (auto simp: room_def update_conv' delete_conv' fun_eq_iff)

lemma room_map_of: "map_of (tx_map st) g = Some m \<Longrightarrow> room st g = m"
  "map_of (tx_map st) g = None \<Longrightarrow> room st g = []"
  by (simp_all add: room_def)

definition room_ok :: "limits \<Rightarrow> (uuid \<rightharpoonup> string) \<Rightarrow> string \<Rightarrow> (uuid \<times> client_state) list \<Rightarrow> bool" where
  "room_ok lim live g m \<longleftrightarrow> distinct (map fst m) \<and> length m \<le> max_connections lim \<and>
     (\<forall>x \<in> set m. tx (snd x) = fst x) \<and> fst ` set m = {u. live u = Some g}"

definition app_ok :: "limits \<Rightarrow> (uuid \<rightharpoonup> string) \<Rightarrow> app_state \<Rightarrow> bool" where
  "app_ok lim live st \<longleftrightarrow> (\<forall>g. room_ok lim live g (room st g)) \<and>
     (\<forall>g. lookup_count (request_count_map st) g \<le> max_requests lim)"

lemma protect_bound:
  fixes counts :: ip_request_count_map
  assumes "\<forall>g. lookup_count counts g \<le> max_requests lim"
    and "protect_ddos_request_count lim g counts = (ok, counts')"
  shows "\<forall>g. lookup_count counts' g \<le> max_requests lim"
proof -
  have "lookup_count counts g + 1 \<le> max_requests lim" if "\<not> max_requests lim \<le> lookup_count counts g"
    using that by (simp add: inc_le not_le)
  then show ?thesis
    using assms by (auto simp: protect_ddos_request_count_def Let_def lookup_count_def update_conv' split: if_splits)
qed

lemma room_ok_weaken:
  "room_ok lim live g m \<Longrightarrow> {u. live u = Some g} = {u. live' u = Some g} \<Longrightarrow> room_ok lim live' g m"
  by (simp add: room_ok_def)

lemma connect_refused:
  assumes "app_ok lim live st" and "connect_peer lim g p st = (None, st')"
  shows "app_ok lim live st'"
  using assms protect_bound [of "request_count_map st" lim g]
  by (auto simp: connect_peer_def app_ok_def Let_def split: if_splits prod.splits)

lemma connect_accepted:
  assumes ok: "app_ok lim live st" and new: "live (p_id p) = None"
    and conn: "connect_peer lim g p st = (Some (txs, ps), st')"
  shows "app_ok lim (live(p_id p \<mapsto> g)) st' \<and> set txs = {u. live u = Some g} \<and>
    p_id ` set ps = {u. live u = Some g}"
proof -
  let ?m = "room st g"
  let ?m' = "AList.update (p_id p) \<lparr>client = info_from p, tx = p_id p\<rparr> ?m"
  have room: "room_ok lim live g ?m" using ok by (simp add: app_ok_def)
  obtain ok counts where protect: "protect_ddos_request_count lim g (request_count_map st) = (ok, counts)"
    by (cases "protect_ddos_request_count lim g (request_count_map st)")
  have short: "length ?m < max_connections lim"
    and counts: "protect_ddos_request_count lim g (request_count_map st) = (True, counts)"
    and st': "room st' = (room st)(g := ?m')" "request_count_map st' = counts"
    and txs: "txs = map (\<lambda>x. tx (snd x)) ?m"
    and ps: "ps = map (\<lambda>x. peer_from (client (snd x)) (fst x)) ?m"
    using conn protect by (auto simp: connect_peer_def Let_def case_prod_unfold split: if_splits)
  have "p_id p \<notin> fst ` set ?m" using room new by (auto simp: room_ok_def)
  then have "?m' = ?m @ [(p_id p, \<lparr>client = info_from p, tx = p_id p\<rparr>)]" by (rule AList_update_new)
  then have "room_ok lim (live(p_id p \<mapsto> g)) g ?m'"
    using room short \<open>p_id p \<notin> fst ` set ?m\<close> by (auto simp: room_ok_def)
  moreover have "room_ok lim (live(p_id p \<mapsto> g)) h (room st h)" if "h \<noteq> g" for h
  proof (rule room_ok_weaken)
    show "room_ok lim live h (room st h)" using ok by (simp add: app_ok_def)
  qed (use that new in auto)
  moreover have "\<forall>h. lookup_count counts h \<le> max_requests lim"
    using ok protect_bound [OF _ counts] by (simp add: app_ok_def)
  ultimately have "app_ok lim (live(p_id p \<mapsto> g)) st'" using st' by (simp add: app_ok_def)
  moreover have "set txs = fst ` set ?m"
    using room unfolding txs room_ok_def by (auto intro!: image_cong)
  moreover have "p_id ` set ps = fst ` set ?m" by (simp add: ps peer_from_def image_image)
  ultimately show ?thesis using room by (simp add: room_ok_def)
qed

lemma disconnected:
  assumes ok: "app_ok lim live st" and "live u = Some g" and disc: "disconnect_peer g u st = (rest, st')"
  shows "app_ok lim (live(u := None)) st' \<and> set rest \<subseteq> {v. live v = Some g}"
proof -
  let ?m = "room st g"
  let ?m' = "AList.delete u ?m"
  have room: "room_ok lim live g ?m" using ok by (simp add: app_ok_def)
  then have "u \<in> fst ` set ?m" using assms(2) by (simp add: room_ok_def)
  then have "map_of (tx_map st) g = Some ?m" by (cases "map_of (tx_map st) g") (auto simp: room_def)
  then have st': "room st' = (room st)(g := ?m')" "request_count_map st' = request_count_map st"
    and rest: "rest = map (\<lambda>x. tx (snd x)) ?m'"
    using disc by (auto simp: disconnect_peer_def Let_def case_prod_unfold split: if_splits)
  have m': "?m' = filter (\<lambda>x. u \<noteq> fst x) ?m" by (simp add: AList.delete_eq case_prod_unfold)
  have "length ?m' \<le> max_connections lim"
    using room length_delete_le [of u ?m] by (simp add: room_ok_def)
  then have "room_ok lim (live(u := None)) g ?m'"
    using room unfolding room_ok_def m' by (auto simp: distinct_map_filter)
  moreover have "room_ok lim (live(u := None)) h (room st h)" if "h \<noteq> g" for h
  proof (rule room_ok_weaken)
    show "room_ok lim live h (room st h)" using ok by (simp add: app_ok_def)
  qed (use that assms(2) in auto)
  ultimately have "app_ok lim (live(u := None)) st'" using st' ok by (simp add: app_ok_def)
  moreover have "set rest \<subseteq> {v. live v = Some g}"
  proof
    fix v assume "v \<in> set rest"
    then obtain x where "x \<in> set ?m" "v = tx (snd x)" unfolding rest m' by auto
    then show "v \<in> {v. live v = Some g}" using room unfolding room_ok_def by (metis image_eqI)
  qed
  ultimately show ?thesis by blast
qed

text \<open>What the handler of a message of \<open>p\<close> sends: in the name of \<open>p\<close>, an offer with all its data.\<close>

fun sent_by :: "ws_peer \<Rightarrow> ws_server_message \<Rightarrow> bool" where
  "sent_by p (Peer_Update q) \<longleftrightarrow> p_id q = p_id p"
| "sent_by p (Offer sdp) \<longleftrightarrow> ss_peer sdp = p"
| "sent_by p (Answer sdp) \<longleftrightarrow> ss_peer sdp = p"
| "sent_by p _ \<longleftrightarrow> False"

lemma room_target: "app_ok lim live st \<Longrightarrow> x \<in> set (room st g) \<Longrightarrow> tx (snd x) = fst x \<and> live (fst x) = Some g"
  unfolding app_ok_def room_ok_def by blast

lemma send_to_peer_sends:
  assumes "app_ok lim live st" and "x \<in> set (send_to_peer g target m st)"
  shows "live (fst x) = Some g \<and> snd x = m"
proof -
  obtain local s where local: "map_of (tx_map st) g = Some local" "map_of local target = Some s"
    and x: "x = (tx s, m)"
    using assms(2) by (cases "map_of (tx_map st) g"; cases "map_of (the (map_of (tx_map st) g)) target")
      (auto simp: send_to_peer_def)
  have "(target, s) \<in> set (room st g)"
    using local map_of_SomeD room_map_of(1) [OF local(1)] by fast
  then show ?thesis using room_target [OF assms(1)] x by fastforce
qed

lemma update_sends:
  assumes ok: "app_ok lim live st" and "send_update_to_other_peers g u info st = (sends, st')"
  shows "app_ok lim live st' \<and> (\<forall>x \<in> set sends. live (fst x) = Some g \<and> snd x = Peer_Update (peer_from info u))"
proof (cases "map_of (room st g) u")
  case None
  then have "sends = [] \<and> st' = st"
    using assms(2) by (auto simp: send_update_to_other_peers_def room_map_of split: option.splits)
  then show ?thesis using ok by simp
next
  case (Some s)
  let ?m = "room st g"
  let ?m' = "AList.update u (s\<lparr>client := info\<rparr>) ?m"
  have "map_of (tx_map st) g = Some ?m"
    using Some by (cases "map_of (tx_map st) g") (auto simp: room_def)
  then have st': "st' = st\<lparr>tx_map := AList.update g ?m' (tx_map st)\<rparr>"
    and sends: "sends = map (\<lambda>(k, v). (tx v, Peer_Update (peer_from info u))) (filter (\<lambda>(k, v). k \<noteq> u) ?m')"
    using assms(2) Some by (auto simp: send_update_to_other_peers_def Let_def)
  have room: "room_ok lim live g ?m" using ok by (simp add: app_ok_def)
  have keys: "map fst ?m' = map fst ?m" using map_of_SomeD [OF Some] by (simp add: update_keys) force
  have "set ?m' \<subseteq> insert (u, s\<lparr>client := info\<rparr>) (set ?m)" by (rule AList_update_subset)
  moreover have "tx s = u" using room map_of_SomeD [OF Some] by (force simp: room_ok_def)
  ultimately have txs: "\<forall>x \<in> set ?m'. tx (snd x) = fst x" using room by (auto simp: room_ok_def)
  have "fst ` set ?m' = fst ` set ?m" "length ?m' = length ?m"
    using keys by (metis list.set_map, metis length_map)
  then have room': "room_ok lim live g ?m'" using room keys txs by (simp add: room_ok_def)
  then have "app_ok lim live st'" using ok st' by (simp add: app_ok_def)
  moreover have "live (tx v) = Some g" if "(k, v) \<in> set ?m'" for k v
  proof -
    have "k \<in> fst ` set ?m'" "tx v = k" using that txs by force+
    then show ?thesis using room' by (simp add: room_ok_def)
  qed
  ultimately show ?thesis by (auto simp: sends)
qed

lemma message_handled:
  assumes ok: "app_ok lim live st" and msg: "on_client_message lim g p m st = (r, st')"
  shows "app_ok lim live st'"
    and "r = Some sends \<Longrightarrow> x \<in> set sends \<Longrightarrow> live (fst x) = Some g \<and> sent_by p (snd x)"
proof -
  obtain ok' counts where protect: "protect_ddos_request_count lim g (request_count_map st) = (ok', counts)"
    by (cases "protect_ddos_request_count lim g (request_count_map st)")
  let ?st = "st\<lparr>request_count_map := counts\<rparr>"
  have ok1: "app_ok lim live ?st" using ok protect_bound [OF _ protect] by (simp add: app_ok_def)
  have "app_ok lim live st' \<and> (r = Some sends \<longrightarrow> x \<in> set sends \<longrightarrow>
      live (fst x) = Some g \<and> sent_by p (snd x))"
  proof (cases ok')
    case False
    then show ?thesis using msg protect ok1 by (simp add: on_client_message_def)
  next
    case True
    show ?thesis
    proof (cases m)
      case (Client_Update info)
      obtain sends' st2 where "send_update_to_other_peers g (p_id p) info ?st = (sends', st2)" by fastforce
      moreover note update_sends [OF ok1 this]
      ultimately show ?thesis
        using msg protect True Client_Update by (auto simp: on_client_message_def peer_from_def)
    next
      case (Client_Offer sdp)
      then show ?thesis
        using msg protect True ok1 send_to_peer_sends [OF ok1, of x g]
        by (auto simp: on_client_message_def server_sdp_def Let_def)
    next
      case (Client_Answer sdp)
      then show ?thesis
        using msg protect True ok1 send_to_peer_sends [OF ok1, of x g]
        by (auto simp: on_client_message_def server_sdp_def Let_def)
    qed
  qed
  then show "app_ok lim live st'" "r = Some sends \<Longrightarrow> x \<in> set sends \<Longrightarrow> live (fst x) = Some g \<and> sent_by p (snd x)"
    by blast+
qed

section \<open>Messages stay in the room\<close>

fun pending :: "phase \<Rightarrow> sends" where
  "pending (Greeting w) = w"
| "pending (Serving w) = w"
| "pending Refusing = []"
| "pending Leaving = []"
| "pending (Farewell w) = w"

text \<open>Who a connection is, for good; and which rooms it is registered in.\<close>

definition who :: "(uuid \<rightharpoonup> conn) \<Rightarrow> (uuid \<rightharpoonup> string \<times> ws_peer)" where
  "who conns u = map_option (\<lambda>c. (c_group c, c_peer c)) (conns u)"

fun phase_group :: "phase \<Rightarrow> string \<Rightarrow> string option" where
  "phase_group (Farewell w) g = None"
| "phase_group _ g = Some g"

definition live :: "(uuid \<rightharpoonup> conn) \<Rightarrow> (uuid \<rightharpoonup> string)" where
  "live conns u = (case conns u of None \<Rightarrow> None | Some c \<Rightarrow> phase_group (c_phase c) (c_group c))"

definition in_room :: "(uuid \<rightharpoonup> string \<times> ws_peer) \<Rightarrow> string \<Rightarrow> uuid \<Rightarrow> bool" where
  "in_room w g u \<longleftrightarrow> map_option fst (w u) = Some g"

text \<open>A message that may be seen in room \<open>g\<close>: about members of the room, an offer by one with its data.\<close>

fun msg_ok :: "(uuid \<rightharpoonup> string \<times> ws_peer) \<Rightarrow> string \<Rightarrow> ws_server_message \<Rightarrow> bool" where
  "msg_ok w g (Hello p ps) \<longleftrightarrow> (\<forall>q \<in> set (p # ps). in_room w g (p_id q))"
| "msg_ok w g (Join p) \<longleftrightarrow> in_room w g (p_id p)"
| "msg_ok w g (Peer_Update p) \<longleftrightarrow> in_room w g (p_id p)"
| "msg_ok w g (Left u) \<longleftrightarrow> in_room w g u"
| "msg_ok w g (Offer sdp) \<longleftrightarrow> w (p_id (ss_peer sdp)) = Some (g, ss_peer sdp)"
| "msg_ok w g (Answer sdp) \<longleftrightarrow> w (p_id (ss_peer sdp)) = Some (g, ss_peer sdp)"
| "msg_ok w g (Error_Code k) \<longleftrightarrow> True"

definition conn_ok :: "(uuid \<rightharpoonup> string \<times> ws_peer) \<Rightarrow> uuid \<Rightarrow> conn \<Rightarrow> bool" where
  "conn_ok w u c \<longleftrightarrow> p_id (c_peer c) = u \<and>
     (\<forall>m \<in> set (c_queue c) \<union> set (c_sent c). msg_ok w (c_group c) m) \<and>
     (\<forall>x \<in> set (pending (c_phase c)). in_room w (c_group c) (fst x) \<and> msg_ok w (c_group c) (snd x))"

definition hub_inv :: "limits \<Rightarrow> hub \<Rightarrow> bool" where
  "hub_inv lim s \<longleftrightarrow> app_ok lim (live (h_conns s)) (h_app s) \<and>
     (\<forall>u c. h_conns s u = Some c \<longrightarrow> conn_ok (who (h_conns s)) u c)"

lemma msg_ok_mono: "w \<subseteq>\<^sub>m w' \<Longrightarrow> msg_ok w g m \<Longrightarrow> msg_ok w' g m"
  by (cases m) (force simp: map_le_def in_room_def dom_def)+

lemma in_room_mono: "w \<subseteq>\<^sub>m w' \<Longrightarrow> in_room w g u \<Longrightarrow> in_room w' g u"
  by (force simp: map_le_def in_room_def dom_def)

lemma conn_ok_mono: "w \<subseteq>\<^sub>m w' \<Longrightarrow> conn_ok w u c \<Longrightarrow> conn_ok w' u c"
  unfolding conn_ok_def using msg_ok_mono in_room_mono by blast

lemma who_upd:
  "conns u = Some c \<Longrightarrow> c_group c' = c_group c \<Longrightarrow> c_peer c' = c_peer c \<Longrightarrow> who (conns(u \<mapsto> c')) = who conns"
  by (auto simp: who_def fun_eq_iff)

lemma live_upd: "live (conns(u \<mapsto> c)) = (live conns)(u := phase_group (c_phase c) (c_group c))"
  by (auto simp: live_def fun_eq_iff)

lemma live_upd_same:
  "conns u = Some c \<Longrightarrow> phase_group (c_phase c') (c_group c') = phase_group (c_phase c) (c_group c) \<Longrightarrow>
   live (conns(u \<mapsto> c')) = live conns"
  by (auto simp: live_def fun_eq_iff)

lemma live_in_room: "live conns u = Some g \<Longrightarrow> in_room (who conns) g u"
  by (auto simp: live_def in_room_def who_def split: option.splits elim: phase_group.elims)

lemma set_phase_eq: "conns u = Some c \<Longrightarrow> set_phase u ph conns = conns(u \<mapsto> c\<lparr>c_phase := ph\<rparr>)"
  by (simp add: set_phase_def)

text \<open>One connection changes: its room and identity stay, so everyone else is as well off as before.\<close>

lemma inv_update:
  assumes inv: "hub_inv lim s" and c: "h_conns s u = Some c"
    and same: "c_group c' = c_group c" "c_peer c' = c_peer c"
    and ok: "conn_ok (who (h_conns s)) u c'"
    and app: "app_ok lim (live ((h_conns s)(u \<mapsto> c'))) st"
  shows "hub_inv lim \<lparr>h_app = st, h_conns = (h_conns s)(u \<mapsto> c')\<rparr>"
  using inv app ok unfolding hub_inv_def by (simp add: who_upd [of "h_conns s" u c, OF c same])

lemma inv_phase:
  assumes inv: "hub_inv lim s" and c: "h_conns s u = Some c"
    and pend: "\<forall>x \<in> set (pending ph). in_room (who (h_conns s)) (c_group c) (fst x) \<and>
      msg_ok (who (h_conns s)) (c_group c) (snd x)"
    and app: "app_ok lim ((live (h_conns s))(u := phase_group ph (c_group c))) st"
  shows "hub_inv lim (s\<lparr>h_app := st, h_conns := set_phase u ph (h_conns s)\<rparr>)"
proof -
  have "conn_ok (who (h_conns s)) u (c\<lparr>c_phase := ph\<rparr>)"
    using inv c pend by (auto simp: hub_inv_def conn_ok_def)
  then show ?thesis
    using inv_update [OF inv c, of "c\<lparr>c_phase := ph\<rparr>" st] app by (simp add: set_phase_eq [of "h_conns s" u c, OF c] live_upd hub_inv_def)
qed

lemma inv_channel_send:
  assumes inv: "hub_inv lim s" and send: "channel_send (h_conns s) (t, m) = Some conns"
    and room: "in_room (who (h_conns s)) g t" and msg: "msg_ok (who (h_conns s)) g m"
  shows "hub_inv lim (s\<lparr>h_conns := conns\<rparr>)" and "who conns = who (h_conns s)"
    and "live conns = live (h_conns s)" and "map_option c_phase (conns v) = map_option c_phase (h_conns s v)"
proof -
  obtain c where c: "h_conns s t = Some c" "c_group c = g"
    using room by (auto simp: in_room_def who_def)
  let ?c = "c\<lparr>c_queue := c_queue c @ [m]\<rparr>"
  have cases: "conns = h_conns s \<or> conns = (h_conns s)(t \<mapsto> ?c)"
    using send c by (auto simp: channel_send_def split: if_splits)
  have live: "live ((h_conns s)(t \<mapsto> ?c)) = live (h_conns s)"
    by (rule live_upd_same [of "h_conns s" t c, OF c(1)]) simp
  have "conn_ok (who (h_conns s)) t ?c"
    using inv c msg by (auto simp: hub_inv_def conn_ok_def)
  then have "hub_inv lim (s\<lparr>h_conns := (h_conns s)(t \<mapsto> ?c)\<rparr>)"
    using inv_update [OF inv c(1), of ?c "h_app s"] inv live by (simp add: hub_inv_def)
  then show "hub_inv lim (s\<lparr>h_conns := conns\<rparr>)" using cases inv by auto
  show "who conns = who (h_conns s)" using cases who_upd [of "h_conns s" t c ?c, OF c(1)] by auto
  show "live conns = live (h_conns s)" using cases live by auto
  show "map_option c_phase (conns v) = map_option c_phase (h_conns s v)" using cases c by auto
qed

text \<open>A task sends its next message and goes on.\<close>

lemma inv_send:
  assumes inv: "hub_inv lim s" and c: "h_conns s u = Some c"
    and send: "channel_send (h_conns s) (t, m) = Some conns"
    and room: "in_room (who (h_conns s)) (c_group c) t" and msg: "msg_ok (who (h_conns s)) (c_group c) m"
    and sub: "set (pending ph) \<subseteq> set (pending (c_phase c))"
    and same: "phase_group ph (c_group c) = phase_group (c_phase c) (c_group c)"
  shows "hub_inv lim (s\<lparr>h_conns := set_phase u ph conns\<rparr>)"
proof -
  note sent = inv_channel_send [OF inv send room msg]
  obtain c' where c': "conns u = Some c'" "c_phase c' = c_phase c" using sent(4) [of u] c by auto
  have "who conns u = who (h_conns s) u" using sent(2) by simp
  then have group: "c_group c' = c_group c" using c c' by (simp add: who_def)
  have "conn_ok (who (h_conns s)) u c" using inv c by (simp add: hub_inv_def)
  then have "\<forall>x \<in> set (pending ph). in_room (who conns) (c_group c') (fst x) \<and>
      msg_ok (who conns) (c_group c') (snd x)"
    using sub group sent(2) by (auto simp: conn_ok_def)
  moreover have "(live conns)(u := phase_group ph (c_group c)) = live conns"
    using same c' group by (auto simp: live_def fun_eq_iff)
  moreover have "app_ok lim (live conns) (h_app s)" using inv sent(3) by (simp add: hub_inv_def)
  ultimately show ?thesis
    using inv_phase [OF sent(1), of u c' ph "h_app s"] c' group by simp
qed

section \<open>Every step keeps the rooms\<close>

lemma start_hub_inv: "hub_inv lim start_hub"
  by (simp add: hub_inv_def start_hub_def new_app_state_def app_ok_def room_ok_def room_def live_def lookup_count_def)

lemma app_ok_eq: "app_ok lim l st \<Longrightarrow> l = l' \<Longrightarrow> app_ok lim l' st"
  by simp

lemma inv_connected:
  assumes inv: "hub_inv lim s" and new: "h_conns s (p_id p) = None"
    and conn: "connect_peer lim g p (h_app s) = (Some (txs, ps), st)"
  shows "hub_inv lim \<lparr>h_app = st, h_conns = (h_conns s)(p_id p \<mapsto> new_conn g p txs ps)\<rparr>"
proof -
  let ?conns = "(h_conns s)(p_id p \<mapsto> new_conn g p txs ps)"
  have app: "app_ok lim (live (h_conns s)) (h_app s)" using inv by (simp add: hub_inv_def)
  have "live (h_conns s) (p_id p) = None" using new by (simp add: live_def)
  note acc = connect_accepted [OF app this conn]
  have le: "who (h_conns s) \<subseteq>\<^sub>m who ?conns" using new by (auto simp: map_le_def who_def)
  have "in_room (who ?conns) g v" if "v \<in> set txs \<union> p_id ` set ps" for v
    using that acc live_in_room [of "h_conns s" v g] in_room_mono [OF le] by auto
  moreover have "in_room (who ?conns) g (p_id p)" by (simp add: in_room_def who_def new_conn_def)
  ultimately have "conn_ok (who ?conns) (p_id p) (new_conn g p txs ps)"
    by (auto simp: conn_ok_def new_conn_def)
  moreover have "conn_ok (who ?conns) u c" if "h_conns s u = Some c" for u c
    using inv that conn_ok_mono [OF le] by (simp add: hub_inv_def)
  moreover have "app_ok lim (live ?conns) st"
    using acc by (simp add: live_upd new_conn_def)
  ultimately show ?thesis by (simp add: hub_inv_def)
qed

lemma conn_pending:
  "hub_inv lim s \<Longrightarrow> h_conns s u = Some c \<Longrightarrow> pending (c_phase c) = (t, m) # rest \<Longrightarrow>
   in_room (who (h_conns s)) (c_group c) t \<and> msg_ok (who (h_conns s)) (c_group c) m"
  unfolding hub_inv_def conn_ok_def by fastforce

lemma sent_by_ok: "w (p_id p) = Some (g, p) \<Longrightarrow> sent_by p m \<Longrightarrow> msg_ok w g m"
  by (cases m) (auto simp: in_room_def)

lemma hub_step_inv:
  assumes inv: "hub_inv lim s" and step: "hub_step lim s t"
  shows "hub_inv lim t"
  using step
proof cases
  case (connected p g txs ps st)
  then show ?thesis using inv_connected [OF inv] by simp
next
  case (refused p g st)
  then show ?thesis using inv connect_refused by (fastforce simp: hub_inv_def)
next
  case (greet u c tm rest conns)
  obtain v m where "tm = (v, m)" by fastforce
  then show ?thesis
    using inv_send [OF inv greet(2), of v m conns "if rest = [] then Serving [] else Greeting rest"] conn_pending [OF inv greet(2), of v m rest] greet
    by (auto simp: subset_insertI)
next
  case (deliver u c w m q)
  let ?c = "c\<lparr>c_queue := q, c_sent := c_sent c @ [m]\<rparr>"
  have "conn_ok (who (h_conns s)) u ?c" using inv deliver(2,4) by (auto simp: hub_inv_def conn_ok_def)
  moreover have "live ((h_conns s)(u \<mapsto> ?c)) = live (h_conns s)"
    by (rule live_upd_same [of "h_conns s" u c, OF deliver(2)]) simp
  ultimately show ?thesis
    using inv_update [OF inv deliver(2), of ?c "h_app s"] inv deliver(1) by (simp add: hub_inv_def)
next
  case (receive u c m sends st)
  have app: "app_ok lim (live (h_conns s)) (h_app s)" using inv by (simp add: hub_inv_def)
  note handled = message_handled [OF app receive(4)]
  have me: "who (h_conns s) (p_id (c_peer c)) = Some (c_group c, c_peer c)"
    using inv receive(2) by (auto simp: hub_inv_def conn_ok_def who_def)
  have "in_room (who (h_conns s)) (c_group c) (fst x) \<and> msg_ok (who (h_conns s)) (c_group c) (snd x)"
    if "x \<in> set sends" for x
    using handled(2) [OF refl that] live_in_room
      sent_by_ok [of "who (h_conns s)" "c_peer c" "c_group c", OF me] by blast
  moreover have "(live (h_conns s))(u := phase_group (Serving sends) (c_group c)) = live (h_conns s)"
    using receive(2,3) by (auto simp: live_def fun_eq_iff)
  ultimately show ?thesis
    using inv_phase [OF inv receive(2), of "Serving sends" st] handled(1) receive(1) by simp
next
  case (over_limit u c m st)
  have app: "app_ok lim (live (h_conns s)) (h_app s)" using inv by (simp add: hub_inv_def)
  have "(live (h_conns s))(u := phase_group Refusing (c_group c)) = live (h_conns s)"
    using over_limit(2,3) by (auto simp: live_def fun_eq_iff)
  then show ?thesis
    using inv_phase [OF inv over_limit(2), of Refusing st] message_handled(1) [OF app over_limit(4)]
      over_limit(1) by simp
next
  case (relay u c tm rest conns)
  obtain v m where "tm = (v, m)" by fastforce
  then show ?thesis
    using inv_send [OF inv relay(2), of v m conns "Serving rest"] conn_pending [OF inv relay(2), of v m rest] relay
    by (auto simp: subset_insertI)
next
  case (refuse_more u c conns)
  have "in_room (who (h_conns s)) (c_group c) u" using refuse_more(2) by (simp add: in_room_def who_def)
  then show ?thesis using inv_send [OF inv refuse_more(2) refuse_more(4), of Leaving] refuse_more(1,3) by simp
next
  case (socket_closed u c)
  have "(live (h_conns s))(u := phase_group Leaving (c_group c)) = live (h_conns s)"
    using socket_closed(2,3) by (auto simp: live_def fun_eq_iff)
  then show ?thesis
    using inv_phase [OF inv socket_closed(2), of Leaving "h_app s"] inv socket_closed(1) by (simp add: hub_inv_def)
next
  case (send_failed u c w)
  have "(live (h_conns s))(u := phase_group Leaving (c_group c)) = live (h_conns s)"
    using send_failed(2,3) by (auto simp: live_def fun_eq_iff)
  then show ?thesis
    using inv_phase [OF inv send_failed(2), of Leaving "h_app s"] inv send_failed(1) by (simp add: hub_inv_def)
next
  case (leave u c rest st)
  have app: "app_ok lim (live (h_conns s)) (h_app s)" using inv by (simp add: hub_inv_def)
  have "live (h_conns s) u = Some (c_group c)" using leave(2,3) by (simp add: live_def)
  note disc = disconnected [OF app this leave(4)]
  have me: "in_room (who (h_conns s)) (c_group c) u" using leave(2) by (simp add: in_room_def who_def)
  have "in_room (who (h_conns s)) (c_group c) v" if "v \<in> set rest" for v
    using that disc live_in_room [of "h_conns s" v "c_group c"] by blast
  then show ?thesis
    using inv_phase [OF inv leave(2), of "Farewell (map (\<lambda>t. (t, Left u)) rest)" st] disc me leave(1) by auto
next
  case (goodbye u c tm rest conns)
  obtain v m where "tm = (v, m)" by fastforce
  then show ?thesis
    using inv_send [OF inv goodbye(2), of v m conns "Farewell rest"] conn_pending [OF inv goodbye(2), of v m rest] goodbye
    by (auto simp: subset_insertI)
next
  case new_hour
  then show ?thesis
    using inv by (simp add: hub_inv_def app_ok_def clear_request_counts_def lookup_count_def)
qed

interpretation signaling: transition_system "\<lambda>s. s = start_hub" "hub_step lim" "hub_inv lim" for lim
  by unfold_locales (auto intro: start_hub_inv hub_step_inv)

section \<open>A flooded newcomer\<close>

text \<open>Two clients in one room: 1 is served, 0 is still announcing itself; \<open>q\<close> is the channel of 0.\<close>

definition lan :: string where
  "lan = ''10.0.0.1''"

definition plain_info :: ws_info where
  "plain_info = \<lparr>i_alias = ''A'', i_version = ''2.3'', i_device_model = None, i_device_type = None, i_token = ''T''\<rparr>"

definition plain_limits :: limits where
  "plain_limits = \<lparr>max_connections = 10, max_requests = 1000\<rparr>"

abbreviation hub_steps :: "hub \<Rightarrow> hub \<Rightarrow> bool" where
  "hub_steps \<equiv> rtranclp (hub_step plain_limits)"

definition served_conn :: conn where
  "served_conn = \<lparr>c_group = lan, c_peer = peer_from plain_info 1, c_phase = Serving [],
     c_queue = [Hello (peer_from plain_info 1) []], c_sent = []\<rparr>"

definition greeting_conn :: "ws_server_message list \<Rightarrow> conn" where
  "greeting_conn q = \<lparr>c_group = lan, c_peer = peer_from plain_info 0,
     c_phase = Greeting [(1, Join (peer_from plain_info 0)),
       (0, Hello (peer_from plain_info 0) [peer_from plain_info 1])],
     c_queue = q, c_sent = []\<rparr>"

definition flooded :: "u32 \<Rightarrow> ws_server_message list \<Rightarrow> hub" where
  "flooded k q =
     \<lparr>h_app = \<lparr>tx_map = [(lan, [(1, \<lparr>client = plain_info, tx = 1\<rparr>), (0, \<lparr>client = plain_info, tx = 0\<rparr>)])],
        request_count_map = [(lan, k)]\<rparr>,
      h_conns = [1 \<mapsto> served_conn, 0 \<mapsto> greeting_conn q]\<rparr>"

lemma small_counts: "\<not> (1000 :: u32) \<le> 1" "(k :: u32) < 999 \<Longrightarrow> \<not> 1000 \<le> k"
  by (simp_all add: word_less_nat_alt word_le_nat_alt)

lemma flooded_start: "hub_steps start_hub (flooded 2 [])"
proof -
  let ?p1 = "peer_from plain_info 1"
  let ?p0 = "peer_from plain_info 0"
  let ?a1 = "\<lparr>tx_map = [(lan, [(1, \<lparr>client = plain_info, tx = 1\<rparr>)])], request_count_map = [(lan, 1)]\<rparr>"
  let ?s1 = "\<lparr>h_app = ?a1, h_conns = [1 \<mapsto> new_conn lan ?p1 [] []]\<rparr>"
  let ?s2 = "\<lparr>h_app = ?a1, h_conns = [1 \<mapsto> served_conn]\<rparr>"
  have "hub_step plain_limits start_hub
      \<lparr>h_app = ?a1, h_conns = (h_conns start_hub)(p_id ?p1 \<mapsto> new_conn lan ?p1 [] [])\<rparr>"
    by (rule hub_step.connected)
      (simp_all add: start_hub_def new_app_state_def connect_peer_def room_def plain_limits_def Let_def
        protect_ddos_request_count_def lookup_count_def info_from_def peer_from_def plain_info_def)
  then have 1: "hub_step plain_limits start_hub ?s1" by (simp add: start_hub_def peer_from_def)
  have "hub_step plain_limits ?s1 (?s1\<lparr>h_conns := set_phase 1 (if ([] :: sends) = [] then Serving [] else Greeting [])
      [1 \<mapsto> (new_conn lan ?p1 [] [])\<lparr>c_queue := [Hello ?p1 []]\<rparr>]\<rparr>)"
    by (rule hub_step.greet [where c = "new_conn lan ?p1 [] []" and tm = "(1, Hello ?p1 [])"])
      (simp_all add: new_conn_def channel_send_def CHANNEL_CAPACITY_def peer_from_def)
  then have 2: "hub_step plain_limits ?s1 ?s2"
    by (simp add: set_phase_def new_conn_def served_conn_def)
  have "hub_step plain_limits ?s2 \<lparr>h_app = h_app (flooded 2 []),
      h_conns = (h_conns ?s2)(p_id ?p0 \<mapsto> new_conn lan ?p0 [1] [?p1])\<rparr>"
    by (rule hub_step.connected)
      (simp_all add: flooded_def connect_peer_def room_def plain_limits_def Let_def small_counts
        protect_ddos_request_count_def lookup_count_def info_from_def peer_from_def plain_info_def)
  moreover have "\<lparr>h_app = h_app (flooded 2 []),
      h_conns = (h_conns ?s2)(p_id ?p0 \<mapsto> new_conn lan ?p0 [1] [?p1])\<rparr> = flooded 2 []"
    by (simp add: flooded_def new_conn_def greeting_conn_def peer_from_def)
  ultimately have 3: "hub_step plain_limits ?s2 (flooded 2 [])" by simp
  from 1 have "hub_steps start_hub ?s1" by (rule r_into_rtranclp)
  then have "hub_steps start_hub ?s2" using 2 by (rule rtranclp.rtrancl_into_rtrancl)
  then show ?thesis using 3 by (rule rtranclp.rtrancl_into_rtrancl)
qed

abbreviation news :: ws_server_message where
  "news \<equiv> Peer_Update (peer_from plain_info 1)"

lemma flood_step:
  assumes "k < 999" and "length q < 4"
  shows "hub_steps (flooded k q) (flooded (k + 1) (q @ [news]))"
proof -
  let ?w = "[(0, news)]"
  let ?t = "(flooded (k + 1) q)\<lparr>h_conns := set_phase 1 (Serving ?w) (h_conns (flooded k q))\<rparr>"
  have "hub_step plain_limits (flooded k q)
      ((flooded k q)\<lparr>h_app := h_app (flooded (k + 1) q), h_conns := set_phase 1 (Serving ?w) (h_conns (flooded k q))\<rparr>)"
    by (rule hub_step.receive [where c = served_conn and m = "Client_Update plain_info"])
      (use assms in \<open>simp_all add: small_counts flooded_def served_conn_def on_client_message_def protect_ddos_request_count_def
        lookup_count_def Let_def plain_limits_def send_update_to_other_peers_def peer_from_def\<close>)
  then have 1: "hub_step plain_limits (flooded k q) ?t" by (simp add: flooded_def)
  have "hub_step plain_limits ?t (?t\<lparr>h_conns := set_phase 1 (Serving [])
      ((h_conns ?t)(0 \<mapsto> (greeting_conn q)\<lparr>c_queue := q @ [news]\<rparr>))\<rparr>)"
    by (rule hub_step.relay [where c = "served_conn\<lparr>c_phase := Serving ?w\<rparr>" and tm = "(0, news)"])
      (use assms in \<open>simp_all add: flooded_def set_phase_def channel_send_def greeting_conn_def
        CHANNEL_CAPACITY_def served_conn_def\<close>)
  moreover have "?t\<lparr>h_conns := set_phase 1 (Serving [])
      ((h_conns ?t)(0 \<mapsto> (greeting_conn q)\<lparr>c_queue := q @ [news]\<rparr>))\<rparr> = flooded (k + 1) (q @ [news])"
    by (auto simp: flooded_def set_phase_def served_conn_def greeting_conn_def fun_eq_iff)
  ultimately have 2: "hub_step plain_limits ?t (flooded (k + 1) (q @ [news]))" by simp
  from 1 have "hub_steps (flooded k q) ?t" by (rule r_into_rtranclp)
  then show ?thesis using 2 by (rule rtranclp.rtrancl_into_rtrancl)
qed

lemma flooded_twice: "hub_steps start_hub (flooded 4 [news, news])"
  using flooded_start flood_step [of 2 "[]"] flood_step [of 3 "[news]"] by simp

lemma flooded_full: "hub_steps start_hub (flooded 6 [news, news, news, news])"
  using flooded_twice flood_step [of 4 "[news, news]"] flood_step [of 5 "[news, news, news]"]
  by simp

text \<open>The newcomer announces itself to 1; the greeting is what it has left to send.\<close>

definition announced :: "u32 \<Rightarrow> ws_server_message list \<Rightarrow> hub" where
  "announced k q = (flooded k q)\<lparr>h_conns :=
     [1 \<mapsto> served_conn\<lparr>c_queue := c_queue served_conn @ [Join (peer_from plain_info 0)]\<rparr>,
      0 \<mapsto> (greeting_conn q)\<lparr>c_phase := Greeting [(0, Hello (peer_from plain_info 0) [peer_from plain_info 1])]\<rparr>]\<rparr>"

lemma announce_step: "hub_step plain_limits (flooded k q) (announced k q)"
proof -
  let ?rest = "[(0 :: uuid, Hello (peer_from plain_info 0) [peer_from plain_info 1])]"
  have "hub_step plain_limits (flooded k q) ((flooded k q)\<lparr>h_conns :=
      set_phase 0 (if ?rest = [] then Serving [] else Greeting ?rest)
       ((h_conns (flooded k q))(1 \<mapsto> served_conn\<lparr>c_queue := c_queue served_conn @ [Join (peer_from plain_info 0)]\<rparr>))\<rparr>)"
    by (rule hub_step.greet [where c = "greeting_conn q" and tm = "(1, Join (peer_from plain_info 0))" and rest = ?rest and u = 0])
      (simp_all add: flooded_def greeting_conn_def channel_send_def served_conn_def CHANNEL_CAPACITY_def)
  then show ?thesis
    by (simp add: announced_def flooded_def set_phase_def fun_upd_twist)
qed

text \<open>A connection whose own greeting waits for room in its full channel.\<close>

definition stuck :: "uuid \<Rightarrow> hub \<Rightarrow> bool" where
  "stuck u s \<longleftrightarrow> (case h_conns s u of
     None \<Rightarrow> False
   | Some c \<Rightarrow> (case c_phase c of Greeting [tm] \<Rightarrow> fst tm = u | _ \<Rightarrow> False) \<and>
       CHANNEL_CAPACITY \<le> length (c_queue c) \<and> c_sent c = [])"

lemma stuck_iff:
  "stuck u s \<longleftrightarrow> (\<exists>c m. h_conns s u = Some c \<and> c_phase c = Greeting [(u, m)] \<and>
     CHANNEL_CAPACITY \<le> length (c_queue c) \<and> c_sent c = [])"
  by (force simp: stuck_def split: option.splits phase.splits list.splits)

lemma channel_send_stuck:
  assumes "conns u = Some c" "c_phase c = Greeting w" "CHANNEL_CAPACITY \<le> length (c_queue c)"
    and "channel_send conns tm = Some conns'"
  shows "fst tm \<noteq> u \<and> conns' u = conns u"
  using assms by (auto simp: channel_send_def split: option.splits if_splits)

lemma set_phase_other: "v \<noteq> u \<Longrightarrow> set_phase v ph conns u = conns u"
  by (simp add: set_phase_def split: option.split)

lemma blocked_step:
  assumes stuck: "stuck u s" and step: "hub_step lim s t"
  shows "h_conns t u = h_conns s u"
proof -
  obtain c m where c: "h_conns s u = Some c" "c_phase c = Greeting [(u, m)]"
    "CHANNEL_CAPACITY \<le> length (c_queue c)" using stuck by (auto simp: stuck_iff)
  note blocked = channel_send_stuck [of "h_conns s", OF c]
  have sent: "h_conns s v = Some c' \<Longrightarrow> c_phase c' = Greeting (tm # rest) \<Longrightarrow>
      channel_send (h_conns s) tm = Some conns \<Longrightarrow> v \<noteq> u" for v c' tm rest conns
    using blocked [of tm conns] c by auto
  from step show ?thesis
  proof cases
    case (greet v c' tm rest conns)
    then show ?thesis using blocked [of tm conns] sent [of v c' tm rest conns] by (simp add: set_phase_other)
  next
    case (relay v c' tm rest conns)
    then show ?thesis using blocked [of tm conns] c by (cases "v = u") (auto simp: set_phase_other)
  next
    case (goodbye v c' tm rest conns)
    then show ?thesis using blocked [of tm conns] c by (cases "v = u") (auto simp: set_phase_other)
  next
    case (refuse_more v c' conns)
    then show ?thesis
      using blocked [of "(v, Error_Code 429)" conns] c by (cases "v = u") (auto simp: set_phase_other)
  qed (use c in \<open>auto simp: set_phase_def split: option.splits\<close>)
qed

lemma blocked_forever: "rtranclp (hub_step lim) s t \<Longrightarrow> stuck u s \<Longrightarrow> stuck u t"
proof (induction rule: rtranclp_induct)
  case (step t t')
  then show ?case using blocked_step [of u t lim t'] by (simp add: stuck_def)
qed

section \<open>Properties\<close>

text \<open>
  C21. However connections come, talk and go: a room never has more connections than allowed and lists
  exactly those that have connected and not left yet, and no room is ever charged more requests than
  allowed.
\<close>

theorem signaling_rooms_bounded:
  assumes "rtranclp (hub_step lim) start_hub s"
  shows "length (room (h_app s) g) \<le> max_connections lim \<and>
    fst ` set (room (h_app s) g) = {u. live (h_conns s) u = Some g} \<and>
    lookup_count (request_count_map (h_app s)) g \<le> max_requests lim"
  using signaling.reachable_inv [OF refl assms] unfolding hub_inv_def app_ok_def room_ok_def by blast

theorem signaling_rooms_bounded_witness:
  "length (room (h_app (flooded 6 [news, news, news, news])) lan) \<le> 10"
  using signaling_rooms_bounded [OF flooded_full, of lan] by (simp add: plain_limits_def)


text \<open>The newcomer is greeted after two updates of 1, and all three are delivered.\<close>

definition late_conn :: conn where
  "late_conn = (greeting_conn [])\<lparr>c_phase := Serving [],
     c_sent := [news, news, Hello (peer_from plain_info 0) [peer_from plain_info 1]]\<rparr>"

lemma late_greeting: "\<exists>s. hub_steps start_hub s \<and> h_conns s 0 = Some late_conn \<and>
  (\<exists>c. h_conns s 1 = Some c \<and> c_group c = lan \<and> c_peer c = peer_from plain_info 1)"
proof -
  let ?hello = "Hello (peer_from plain_info 0) [peer_from plain_info 1]"
  let ?s1 = "announced 4 [news, news]"
  let ?c = "\<lambda>q w. (greeting_conn q)\<lparr>c_phase := Serving [], c_sent := w\<rparr>"
  let ?s = "\<lambda>q w. ?s1\<lparr>h_conns := (h_conns ?s1)(0 \<mapsto> ?c q w)\<rparr>"
  have "hub_steps start_hub ?s1" using flooded_twice announce_step by (rule rtranclp.rtrancl_into_rtrancl)
  moreover have "hub_step plain_limits ?s1 (?s1\<lparr>h_conns :=
      set_phase 0 (if ([] :: sends) = [] then Serving [] else Greeting [])
       ((h_conns ?s1)(0 \<mapsto> (greeting_conn [news, news, ?hello])\<lparr>c_phase := Greeting [(0, ?hello)]\<rparr>))\<rparr>)"
    by (rule hub_step.greet [where c = "(greeting_conn [news, news])\<lparr>c_phase := Greeting [(0, ?hello)]\<rparr>" and
          rest = "[]" and tm = "(0, ?hello)"])
      (simp_all add: announced_def channel_send_def greeting_conn_def CHANNEL_CAPACITY_def)
  then have "hub_step plain_limits ?s1 (?s [news, news, ?hello] [])"
    by (simp add: set_phase_def greeting_conn_def announced_def)
  ultimately have "hub_steps start_hub (?s [news, news, ?hello] [])" by (rule rtranclp.rtrancl_into_rtrancl)
  moreover have deliver: "hub_step plain_limits (?s (m # q) w) (?s q (w @ [m]))" for m q w
  proof -
    have "hub_step plain_limits (?s (m # q) w) ((?s (m # q) w)\<lparr>h_conns :=
        (h_conns (?s (m # q) w))(0 \<mapsto> (?c (m # q) w)\<lparr>c_queue := q, c_sent := c_sent (?c (m # q) w) @ [m]\<rparr>)\<rparr>)"
      by (rule hub_step.deliver [where w = "[]"]) (simp_all add: greeting_conn_def)
    then show ?thesis by (simp add: greeting_conn_def)
  qed
  ultimately have "hub_steps start_hub (?s [] [news, news, ?hello])"
    using deliver [where m = news and q = "[news, ?hello]" and w = "[]"]
      deliver [where m = news and q = "[?hello]" and w = "[news]"]
      deliver [where m = ?hello and q = "[]" and w = "[news, news]"]
    by simp
  then show ?thesis
    by (intro exI [of _ "?s [] [news, news, ?hello]"]) (simp add: late_conn_def announced_def served_conn_def)
qed


text \<open>
  A newcomer is visible to its room before its greeting is queued, so the messages of others can
  come first: with two of them, the client of this repository waits for the greeting forever, although
  the server sent it.
\<close>

theorem late_hello_hangs_client:
  "\<exists>s c ps. rtranclp (hub_step plain_limits) start_hub s \<and> h_conns s 0 = Some c \<and>
     last (c_sent c) = Hello (c_peer c) ps \<and> signaling_connect server_closed (map Some (c_sent c)) = Waiting"
proof -
  obtain s where "hub_steps start_hub s" "h_conns s 0 = Some late_conn"
    using late_greeting by blast
  then show ?thesis
    by (intro exI [of _ s] exI [of _ late_conn] exI [of _ "[peer_from plain_info 1]"])
      (simp add: late_conn_def greeting_conn_def signaling_connect_def)
qed

text \<open>
  Nobody reads the channel of a newcomer before its own greeting is in it: when four messages of
  others fill it first, the connection never gets past its greeting, never delivers anything and is
  never cleaned up, whatever happens afterwards.
\<close>

theorem full_channel_blocks_greeting:
  "\<exists>s. rtranclp (hub_step plain_limits) start_hub s \<and>
     {t. rtranclp (hub_step plain_limits) s t} \<subseteq> {t. stuck 0 t \<and> 0 \<in> fst ` set (room (h_app t) lan)}"
proof -
  let ?s = "announced 6 [news, news, news, news]"
  have reach: "hub_steps start_hub ?s" using flooded_full announce_step by (rule rtranclp.rtrancl_into_rtrancl)
  have start: "stuck 0 ?s \<and> live (h_conns ?s) 0 = Some lan"
    by (simp add: stuck_def announced_def greeting_conn_def CHANNEL_CAPACITY_def live_def)
  have "stuck 0 t \<and> live (h_conns t) 0 = Some lan" if "hub_steps ?s t" for t
    using that
  proof (induction rule: rtranclp_induct)
    case (step t t')
    then have "stuck 0 t" "h_conns t' 0 = h_conns t 0" using blocked_step by blast+
    then show ?case using step by (simp add: stuck_def live_def)
  qed (rule start)
  moreover have "hub_inv plain_limits t" if "hub_steps ?s t" for t
    using signaling.reachable_inv [OF refl] reach that by (meson rtranclp_trans)
  ultimately show ?thesis
    using reach unfolding hub_inv_def app_ok_def room_ok_def by (intro exI [of _ ?s]) blast
qed

end
