(* ===== verification/Rtc_Stream.thy ===== *)
theory Rtc_Stream
  imports Http_Routes Token
begin

text \<open>
  What travels over the data channel of a WebRTC transfer (\<open>webrtc/webrtc.rs\<close>): messages, chunks,
  delimiters, the PIN exchange of both sides and the loops that send and receive files. The channel is
  ordered and reliable, so what a peer receives is a list of messages; what it sends is one too. The JSON
  of the messages (serde) is an argument.
\<close>

section \<open>Messages\<close>

record data_message =
  is_string :: bool
  data :: bytes

definition text_msg :: "bytes \<Rightarrow> data_message" where
  "text_msg bs = \<lparr>is_string = True, data = bs\<rparr>"

definition binary_msg :: "bytes \<Rightarrow> data_message" where
  "binary_msg bs = \<lparr>is_string = False, data = bs\<rparr>"

datatype token_response = Token_Ok string | Token_Pin_Required string | Token_Invalid_Signature

datatype pin_receiving_response = PR_Ok | PR_Pin_Required | PR_Too_Many_Attempts

datatype pin_sending_response = PS_Ok "file_dto list" | PS_Pin_Required | PS_Too_Many_Attempts

datatype file_list_response =
    FL_Ok "(string \<times> string) list"
  | FL_Pair string
  | FL_Declined
  | FL_Invalid_Signature

datatype pair_response = Pair_Ok string | Pair_Declined | Pair_Invalid_Signature

record file_header =
  h_id :: string
  h_token :: string

record send_file_response =
  r_id :: string
  r_success :: bool
  r_error :: "string option"

record pin_config =
  pin :: string
  max_tries :: u8

text \<open>\<open>serde_json\<close> for each type of message: \<open>to_string\<close> and \<open>from_slice\<close>.\<close>

record rtc_json =
  nonce_json :: "string \<Rightarrow> bytes"
  parse_nonce :: "bytes \<Rightarrow> string option"
  token_request_json :: "string \<Rightarrow> bytes"
  parse_token_request :: "bytes \<Rightarrow> string option"
  token_response_json :: "token_response \<Rightarrow> bytes"
  parse_token_response :: "bytes \<Rightarrow> token_response option"
  pin_json :: "string \<Rightarrow> bytes"
  parse_pin :: "bytes \<Rightarrow> string option"
  pin_receiving_json :: "pin_receiving_response \<Rightarrow> bytes"
  parse_pin_receiving :: "bytes \<Rightarrow> pin_receiving_response option"
  pin_sending_json :: "pin_sending_response \<Rightarrow> bytes"
  parse_pin_sending :: "bytes \<Rightarrow> pin_sending_response option"
  file_list_json :: "file_list_response \<Rightarrow> bytes"
  parse_file_list :: "bytes \<Rightarrow> file_list_response option"
  pair_json :: "pair_response \<Rightarrow> bytes"
  header_json :: "file_header \<Rightarrow> bytes"
  parse_header :: "bytes \<Rightarrow> file_header option"
  file_response_json :: "send_file_response \<Rightarrow> bytes"

text \<open>What the code relies on: every message parses back, no object is a single character, and the
  delimiter or nothing at all is not an object.\<close>

definition json_ok :: "rtc_json \<Rightarrow> bool" where
  "json_ok j \<longleftrightarrow>
     (\<forall>x. parse_nonce j (nonce_json j x) = Some x) \<and>
     (\<forall>x. parse_token_request j (token_request_json j x) = Some x) \<and>
     (\<forall>x. parse_token_response j (token_response_json j x) = Some x) \<and>
     (\<forall>x. parse_pin j (pin_json j x) = Some x) \<and>
     (\<forall>x. parse_pin_receiving j (pin_receiving_json j x) = Some x) \<and>
     (\<forall>x. parse_pin_sending j (pin_sending_json j x) = Some x) \<and>
     (\<forall>x. parse_file_list j (file_list_json j x) = Some x) \<and>
     (\<forall>x. parse_header j (header_json j x) = Some x \<and> 1 < length (header_json j x)) \<and>
     parse_header j [48] = None \<and> parse_pin_sending j [] = None"

section \<open>Chunks\<close>

definition CHUNK_SIZE :: nat where
  "CHUNK_SIZE = 16 * 1024"

text \<open>\<open>while buffer.len() >= CHUNK_SIZE\<close>: full chunks leave the buffer; \<open>callback\<close> may fail.\<close>

function drain_buffer :: "('t \<Rightarrow> bytes \<Rightarrow> 'e + 't) \<Rightarrow> 't \<Rightarrow> bytes \<Rightarrow> 'e + 't \<times> bytes" where
  "drain_buffer callback t buffer =
     (if CHUNK_SIZE \<le> length buffer
      then case callback t (take CHUNK_SIZE buffer) of
             Inl e \<Rightarrow> Inl e
           | Inr t \<Rightarrow> drain_buffer callback t (drop CHUNK_SIZE buffer)
      else Inr (t, buffer))"
  by pat_completeness auto
termination
  by (relation "measure (\<lambda>(callback, t, buffer). length buffer)") (auto simp: CHUNK_SIZE_def)

declare drain_buffer.simps [simp del]

fun process_in_chunks :: "('t \<Rightarrow> bytes \<Rightarrow> 'e + 't) \<Rightarrow> 't \<Rightarrow> bytes \<Rightarrow> bytes list \<Rightarrow> 'e + 't" where
  "process_in_chunks callback t buffer [] = (if buffer = [] then Inr t else callback t buffer)"
| "process_in_chunks callback t buffer (d # ds) =
     (case drain_buffer callback t (buffer @ d) of
        Inl e \<Rightarrow> Inl e
      | Inr (t, buffer) \<Rightarrow> process_in_chunks callback t buffer ds)"

text \<open>The channel as the callback sees it when it works: it takes every chunk as a binary message.\<close>

definition channel_callback :: "data_message list \<Rightarrow> bytes \<Rightarrow> string + data_message list" where
  "channel_callback sent chunk = Inr (sent @ [binary_msg chunk])"

definition send_string_in_chunks :: "('t \<Rightarrow> bytes \<Rightarrow> 'e + 't) \<Rightarrow> 't \<Rightarrow> bytes \<Rightarrow> 'e + 't" where
  "send_string_in_chunks callback t s = process_in_chunks callback t [] [s]"

text \<open>Reads up to the next text message, which it consumes, or to the end of the channel.\<close>

fun receive_string_from_chunks :: "data_message list \<Rightarrow> bytes \<times> data_message list" where
  "receive_string_from_chunks [] = ([], [])"
| "receive_string_from_chunks (m # ms) =
     (if is_string m then ([], ms)
      else case receive_string_from_chunks ms of (bs, rest) \<Rightarrow> (data m @ bs, rest))"

definition delimiter :: data_message where
  "delimiter = text_msg [48]"

definition is_delimiter :: "data_message \<Rightarrow> bool" where
  "is_delimiter m \<longleftrightarrow> is_string m \<and> length (data m) \<le> 1"

text \<open>The reference: cut the whole input into pieces of the chunk size, then hand them on one by one.\<close>

function chunks_of :: "nat \<Rightarrow> 'a list \<Rightarrow> 'a list list" where
  "chunks_of n xs = (if xs = [] then [] else if n = 0 then [xs] else take n xs # chunks_of n (drop n xs))"
  by pat_completeness auto
termination by (relation "measure (\<lambda>(n, xs). length xs)") auto

declare chunks_of.simps [simp del]

fun run_chunks :: "('t \<Rightarrow> bytes \<Rightarrow> 'e + 't) \<Rightarrow> 't \<Rightarrow> bytes list \<Rightarrow> 'e + 't" where
  "run_chunks callback t [] = Inr t"
| "run_chunks callback t (c # cs) =
     (case callback t c of Inl e \<Rightarrow> Inl e | Inr t \<Rightarrow> run_chunks callback t cs)"

lemma chunks_of_Nil [simp]: "chunks_of n [] = []"
  by (simp add: chunks_of.simps)

lemma chunks_of_short: "xs \<noteq> [] \<Longrightarrow> length xs < n \<Longrightarrow> chunks_of n xs = [xs]"
  by (simp add: chunks_of.simps [of n xs])

lemma chunks_of_long: "0 < n \<Longrightarrow> n \<le> length xs \<Longrightarrow> chunks_of n xs = take n xs # chunks_of n (drop n xs)"
  by (subst chunks_of.simps) auto

lemma concat_chunks_of: "concat (chunks_of n xs) = xs"
proof (induction n xs rule: chunks_of.induct)
  case (1 n xs)
  then show ?case by (simp add: chunks_of.simps [of n xs])
qed

lemma chunks_of_sizes: "0 < n \<Longrightarrow> c \<in> set (chunks_of n xs) \<Longrightarrow> c \<noteq> [] \<and> length c \<le> n"
proof (induction n xs rule: chunks_of.induct)
  case (1 n xs)
  then show ?case by (auto simp: chunks_of.simps [of n xs] split: if_splits)
qed

lemma CHUNK_SIZE_pos: "0 < CHUNK_SIZE"
  by (simp add: CHUNK_SIZE_def)

text \<open>Draining hands on the full chunks of the buffer and leaves what it would be cut into at the end.\<close>

lemma drain_buffer_run:
  "case drain_buffer cb t buffer of
     Inl e \<Rightarrow> run_chunks cb t (chunks_of CHUNK_SIZE (buffer @ later)) = Inl e
   | Inr (t', rest) \<Rightarrow> length rest < CHUNK_SIZE \<and>
       run_chunks cb t (chunks_of CHUNK_SIZE (buffer @ later)) =
       run_chunks cb t' (chunks_of CHUNK_SIZE (rest @ later))"
proof (induction cb t buffer rule: drain_buffer.induct)
  case (1 cb t buffer)
  show ?case
  proof (cases "CHUNK_SIZE \<le> length buffer")
    case True
    then have "chunks_of CHUNK_SIZE (buffer @ later) =
        take CHUNK_SIZE buffer # chunks_of CHUNK_SIZE (drop CHUNK_SIZE buffer @ later)"
      using chunks_of_long [OF CHUNK_SIZE_pos, of "buffer @ later"] by simp
    then show ?thesis
      using True 1 by (auto simp: drain_buffer.simps [of cb t buffer] split: sum.splits prod.splits)
  next
    case False
    then show ?thesis by (simp add: drain_buffer.simps [of cb t buffer])
  qed
qed

lemma process_in_chunks_run:
  "length buffer < CHUNK_SIZE \<Longrightarrow>
   process_in_chunks cb t buffer ds = run_chunks cb t (chunks_of CHUNK_SIZE (buffer @ concat ds))"
proof (induction cb t buffer ds rule: process_in_chunks.induct)
  case (1 cb t buffer)
  then show ?case by (cases "buffer = []") (auto simp: chunks_of_short split: sum.split)
next
  case (2 cb t buffer d ds)
  show ?case
    using drain_buffer_run [of cb t "buffer @ d" "concat ds"] 2
    by (auto split: sum.splits prod.splits)
qed

lemma run_chunks_channel:
  "run_chunks channel_callback sent cs = Inr (sent @ map binary_msg cs)"
  by (induction cs arbitrary: sent) (simp_all add: channel_callback_def)

lemma receive_string_chunks:
  "is_string d \<Longrightarrow> receive_string_from_chunks (map binary_msg cs @ d # rest) = (concat cs, rest)"
  by (induction cs) (simp_all add: binary_msg_def)

section \<open>Properties of chunks\<close>

text \<open>
  However the data arrives, it is sent in the same chunks: those of the chunk size one would cut the
  whole of it into, up to the first that fails.
\<close>

theorem chunks_independent_of_arrival:
  "process_in_chunks callback t [] ds = run_chunks callback t (chunks_of CHUNK_SIZE (concat ds))"
  using process_in_chunks_run [of "[]" callback t ds] by (simp add: CHUNK_SIZE_def)

text \<open>A message sent in chunks and closed with a delimiter is received as it was.\<close>

lemma send_string_messages:
  "send_string_in_chunks channel_callback sent s = Inr (sent @ map binary_msg (chunks_of CHUNK_SIZE s))"
  using process_in_chunks_run [of "[]" channel_callback sent "[s]"] CHUNK_SIZE_pos
  by (simp add: send_string_in_chunks_def run_chunks_channel)

lemma send_file_messages:
  "process_in_chunks channel_callback sent [] ds = Inr (sent @ map binary_msg (chunks_of CHUNK_SIZE (concat ds)))"
  using process_in_chunks_run [of "[]" channel_callback sent ds] CHUNK_SIZE_pos
  by (simp add: run_chunks_channel)

lemma chunked_message_roundtrip:
  "receive_string_from_chunks (map binary_msg (chunks_of CHUNK_SIZE s) @ delimiter # rest) = (s, rest)"
  by (simp add: receive_string_chunks delimiter_def text_msg_def concat_chunks_of)

section \<open>PIN exchange\<close>

datatype verify_pin_result = VP_Pin_Required | VP_Too_Many_Attempts

text \<open>
  The side that asks for the PIN: its result, the notices it sends, what it leaves unread. The empty PIN
  is what it starts with.
\<close>

fun verify_pin_loop :: "(bytes \<Rightarrow> string option) \<Rightarrow> pin_config \<Rightarrow> bool \<Rightarrow> u8 \<Rightarrow> string \<Rightarrow> data_message list \<Rightarrow>
    (string + unit) \<times> verify_pin_result list \<times> data_message list" where
  "verify_pin_loop parse cfg notice tries remote ms =
     (if remote = pin cfg then (Inr (), [], ms)
      else if max_tries cfg \<le> tries then (Inl ''Too many requests'', [VP_Too_Many_Attempts], ms)
      else let notices = (if notice \<or> 0 < tries then [VP_Pin_Required] else [])
           in case ms of
                [] \<Rightarrow> (Inl ''Failed to receive pin'', notices, [])
              | m # ms \<Rightarrow>
                  (case parse (data m) of
                     None \<Rightarrow> (Inl ''json'', notices, ms)
                   | Some p \<Rightarrow>
                       (case verify_pin_loop parse cfg False (tries + 1) p ms of
                          (r, sent, rest) \<Rightarrow> (r, notices @ sent, rest))))"

declare verify_pin_loop.simps [simp del]

definition verify_pin :: "(bytes \<Rightarrow> string option) \<Rightarrow> pin_config \<Rightarrow> bool \<Rightarrow> data_message list \<Rightarrow>
    (string + unit) \<times> verify_pin_result list \<times> data_message list" where
  "verify_pin parse cfg send_initial_notice ms = verify_pin_loop parse cfg send_initial_notice 0 [] ms"

datatype 'a challenge_pin_result = CP_Ok 'a | CP_Pin_Required | CP_Too_Many_Attempts | CP_Parse_Error

text \<open>
  The side that is asked: \<open>pins\<close> are the answers of its user, in order; when they end the user did not
  answer. The result, the messages it sends, and what it leaves unread.
\<close>

fun handle_pin :: "(string \<Rightarrow> bytes) \<Rightarrow> bool \<Rightarrow> (bytes \<Rightarrow> 'a challenge_pin_result) \<Rightarrow> string list \<Rightarrow>
    data_message list \<Rightarrow> (string + 'a) \<times> data_message list \<times> data_message list" where
  "handle_pin to_json chunked parse [] ms = (Inl ''PIN required but not provided'', [], ms)"
| "handle_pin to_json chunked parse (p # pins) ms =
     (case (if chunked then Inr (receive_string_from_chunks ms)
            else case ms of
                   [] \<Rightarrow> Inl ''Failed to receive initial message''
                 | m # ms \<Rightarrow> if is_string m then Inr (data m, ms) else Inl ''Expected string message'') of
        Inl e \<Rightarrow> (Inl e, [text_msg (to_json p)], tl ms)
      | Inr (bs, ms) \<Rightarrow>
          (case parse bs of
             CP_Ok x \<Rightarrow> (Inr x, [text_msg (to_json p)], ms)
           | CP_Pin_Required \<Rightarrow>
               (case handle_pin to_json chunked parse pins ms of
                  (r, sent, rest) \<Rightarrow> (r, text_msg (to_json p) # sent, rest))
           | CP_Too_Many_Attempts \<Rightarrow> (Inl ''Too many requests'', [text_msg (to_json p)], ms)
           | CP_Parse_Error \<Rightarrow> (Inl ''json'', [text_msg (to_json p)], ms)))"

definition parse_receiving_pin_response :: "rtc_json \<Rightarrow> bytes \<Rightarrow> unit challenge_pin_result" where
  "parse_receiving_pin_response j bs =
     (case parse_pin_receiving j bs of
        None \<Rightarrow> CP_Parse_Error
      | Some PR_Ok \<Rightarrow> CP_Ok ()
      | Some PR_Pin_Required \<Rightarrow> CP_Pin_Required
      | Some PR_Too_Many_Attempts \<Rightarrow> CP_Too_Many_Attempts)"

definition parse_sending_pin_response :: "rtc_json \<Rightarrow> bytes \<Rightarrow> file_dto list challenge_pin_result" where
  "parse_sending_pin_response j bs =
     (case parse_pin_sending j bs of
        None \<Rightarrow> CP_Parse_Error
      | Some (PS_Ok files) \<Rightarrow> CP_Ok files
      | Some PS_Pin_Required \<Rightarrow> CP_Pin_Required
      | Some PS_Too_Many_Attempts \<Rightarrow> CP_Too_Many_Attempts)"

definition receiver_notice :: "rtc_json \<Rightarrow> verify_pin_result \<Rightarrow> data_message list" where
  "receiver_notice j r =
     [text_msg (pin_receiving_json j
        (case r of VP_Pin_Required \<Rightarrow> PR_Pin_Required | VP_Too_Many_Attempts \<Rightarrow> PR_Too_Many_Attempts))]"

definition in_chunks :: "bytes \<Rightarrow> data_message list" where
  "in_chunks bs =
     (case send_string_in_chunks channel_callback [] bs of Inl (e :: string) \<Rightarrow> [] | Inr sent \<Rightarrow> sent) @ [delimiter]"

definition sender_notice :: "rtc_json \<Rightarrow> verify_pin_result \<Rightarrow> data_message list" where
  "sender_notice j r =
     in_chunks (pin_sending_json j
        (case r of VP_Pin_Required \<Rightarrow> PS_Pin_Required | VP_Too_Many_Attempts \<Rightarrow> PS_Too_Many_Attempts))"

lemma in_chunks_messages: "in_chunks bs = map binary_msg (chunks_of CHUNK_SIZE bs) @ [delimiter]"
  by (simp add: in_chunks_def send_string_messages)

lemma receive_in_chunks [simp]: "receive_string_from_chunks (in_chunks bs @ rest) = (bs, rest)"
  using chunked_message_roundtrip [of bs rest] by (simp add: in_chunks_messages)

section \<open>Guessing the PIN\<close>

text \<open>What the verifier makes of a list of guesses it can all parse.\<close>

lemma verify_pin_guessing:
  fixes tries :: u8
  assumes "\<forall>p \<in> set guesses. parse (json p) = Some p"
  shows "fst (verify_pin_loop parse cfg notice tries remote (map (\<lambda>p. text_msg (json p)) guesses)) = Inr () \<longleftrightarrow>
    pin cfg \<in> set (remote # take (unat (max_tries cfg) - unat tries) guesses)"
  using assms
proof (induction guesses arbitrary: notice tries remote)
  case Nil
  then show ?case by (auto simp: verify_pin_loop.simps [of _ _ _ _ _ "[]"])
next
  case (Cons g gs)
  show ?case
  proof (cases "max_tries cfg \<le> tries")
    case True
    then have "unat (max_tries cfg) - unat tries = 0" by (simp add: word_le_nat_alt)
    then show ?thesis using True by (subst verify_pin_loop.simps) auto
  next
    case False
    then have lt: "unat tries < unat (max_tries cfg)" by (simp add: word_less_nat_alt not_le)
    then have inc: "unat (tries + 1) = unat tries + 1"
      using unsigned_less [of "max_tries cfg", where ?'a = nat] by (simp add: unat_word_ariths take_bit_nat_eq_self)
    then have "unat (max_tries cfg) - unat tries = Suc (unat (max_tries cfg) - unat (tries + 1))" using lt by simp
    then show ?thesis
      using False Cons.IH [of False "tries + 1" g] Cons.prems
      by (subst verify_pin_loop.simps) (auto simp: text_msg_def Let_def split: prod.splits)
  qed
qed

end
