(* ===== verification/Rtc_Session.thy ===== *)
theory Rtc_Session
  imports Rtc_Stream "HOL-Library.Countable"
begin

text \<open>
  The two ends of a WebRTC transfer (\<open>send_offer\<close> and \<open>accept_offer\<close> of \<open>webrtc/webrtc.rs\<close>) from the open
  data channel on: the exchange of nonces, tokens and PINs, the list of files and the selection, and the
  loops that send and receive the files. Each end is a function of the messages it receives to its result,
  the messages it sends and what it tells the application. Sending on the open channel and on the
  application's status channel is taken to succeed.
\<close>

section \<open>What an end does\<close>

datatype rtc_event =
    Asked_Pin                        \<comment> \<open>\<open>RTCStatus::PinRequired\<close>\<close>
  | Rtc_Connected
  | Rtc_Declined
  | Rtc_Too_Many_Attempts
  | Rtc_Error string
  | File_List "file_dto list"        \<comment> \<open>\<open>files_tx\<close>\<close>
  | Selected_Files "string list"     \<comment> \<open>\<open>selected_files_tx\<close>\<close>
  | Pair_Request
  | New_File string                  \<comment> \<open>\<open>receiving_tx\<close>\<close>
  | File_Chunk string bytes          \<comment> \<open>\<open>binary_tx\<close> of the file\<close>
  | File_Error string string         \<comment> \<open>\<open>error_tx\<close>\<close>

text \<open>Result, messages sent, events; \<open>emit\<close> puts what was done before in front.\<close>

type_synonym outcome = "(string + unit) \<times> data_message list \<times> rtc_event list"

definition emit :: "data_message list \<Rightarrow> rtc_event list \<Rightarrow> outcome \<Rightarrow> outcome" where
  "emit sent events r = (fst r, sent @ fst (snd r), events @ snd (snd r))"

definition fail :: "string \<Rightarrow> outcome" where
  "fail e = (Inl e, [], [])"

definition finished :: outcome where
  "finished = (Inr (), [], [])"

lemma emit_simps [simp]:
  "emit [] [] r = r" "emit a b (emit c d r) = emit (a @ c) (b @ d) r"
  "fst (emit a b r) = fst r" "fst (snd (emit a b r)) = a @ fst (snd r)" "snd (snd (emit a b r)) = b @ snd (snd r)"
  by (simp_all add: emit_def)

section \<open>Receiving files\<close>

record rtc_file_state =
  fs_file_id :: string
  fs_size :: u64
  fs_received :: u64

text \<open>A header: which file comes next, if it was selected, is known and has its token.\<close>

definition open_file :: "(string \<times> string) list \<Rightarrow> file_dto list \<Rightarrow> file_header \<Rightarrow>
    rtc_event list \<times> rtc_file_state option" where
  "open_file tokens files h =
     (case map_of tokens (h_id h) of
        None \<Rightarrow> ([File_Error (h_id h) ''File not found''], None)
      | Some entry \<Rightarrow>
          if h_token h \<noteq> entry then ([File_Error (h_id h) ''Invalid token''], None)
          else (case List.find (\<lambda>f. dto_id f = h_id h) files of
                  None \<Rightarrow> ([File_Error (h_id h) ''Expected size to be available''], None)
                | Some f \<Rightarrow> ([New_File (h_id h)],
                    Some \<lparr>fs_file_id = h_id h, fs_size = size_of f, fs_received = 0\<rparr>)))"

text \<open>The application's result for a file, in the order it gives them.\<close>

type_synonym user_results = "send_file_response list"

definition result_error :: "user_results \<Rightarrow> string option" where
  "result_error results =
     (case results of
        [] \<Rightarrow> Some ''Failed to receive file result''
      | r # _ \<Rightarrow> if r_success r then None
                 else Some (case r_error r of None \<Rightarrow> ''Unknown error'' | Some e \<Rightarrow> e))"

definition file_response :: "rtc_json \<Rightarrow> rtc_file_state \<Rightarrow> user_results \<Rightarrow> data_message" where
  "file_response j s results =
     (let error = result_error results
      in text_msg (file_response_json j
           \<lparr>r_id = fs_file_id s, r_success = (error = None), r_error = error\<rparr>))"

text \<open>
  The loop over the messages. \<open>keeps\<close>: whether the application still takes the next chunk of a file; a
  closed receiver ends the transfer.
\<close>

fun receive_files :: "rtc_json \<Rightarrow> (string \<times> string) list \<Rightarrow> file_dto list \<Rightarrow> (string \<Rightarrow> u64 \<Rightarrow> bool) \<Rightarrow>
    user_results \<Rightarrow> rtc_file_state option \<Rightarrow> data_message list \<Rightarrow> outcome" where
  "receive_files j tokens files keeps results st [] = finished"
| "receive_files j tokens files keeps results st (m # ms) =
     (if is_string m
      then (let sent = (case st of None \<Rightarrow> [] | Some s \<Rightarrow> [file_response j s results]);
                results = (if st = None then results else tl results)
            in emit sent []
                 (if st \<noteq> None \<and> is_delimiter m then finished
                  else case parse_header j (data m) of
                         None \<Rightarrow> fail ''json''
                       | Some h \<Rightarrow>
                           (case open_file tokens files h of
                              (events, st) \<Rightarrow> emit [] events (receive_files j tokens files keeps results st ms))))
      else case st of
             None \<Rightarrow> emit [] [File_Error ''unknown'' ''Received binary data without a header'']
                       (receive_files j tokens files keeps results None ms)
           | Some s \<Rightarrow>
               (let received = fs_received s + of_nat (length (data m))
                in if fs_size s < received
                   then emit [] [File_Error (fs_file_id s) ''Received more bytes than expected'']
                          (receive_files j tokens files keeps results None ms)
                   else if \<not> keeps (fs_file_id s) received then fail ''channel closed''
                   else emit [] [File_Chunk (fs_file_id s) (data m)]
                          (receive_files j tokens files keeps results (Some (s\<lparr>fs_received := received\<rparr>)) ms)))"

section \<open>Sending files\<close>

text \<open>A file to send: its id and its bytes, as they come out of the application's channel.\<close>

type_synonym rtc_file = "string \<times> bytes list"

definition send_file :: "rtc_json \<Rightarrow> (string \<times> string) list \<Rightarrow> rtc_file \<Rightarrow> data_message list \<times> rtc_event list" where
  "send_file j file_map f =
     (case map_of file_map (fst f) of
        None \<Rightarrow> ([], [File_Error (fst f) ''Failed to get file token''])
      | Some token \<Rightarrow>
          (case process_in_chunks channel_callback
                  [text_msg (header_json j \<lparr>h_id = fst f, h_token = token\<rparr>)] [] (snd f) of
             Inl e \<Rightarrow> ([], [File_Error (fst f) e])
           | Inr sent \<Rightarrow> (sent, [])))"

fun send_files :: "rtc_json \<Rightarrow> (string \<times> string) list \<Rightarrow> rtc_file list \<Rightarrow> outcome" where
  "send_files j file_map [] = (Inr (), [delimiter], [])"
| "send_files j file_map (f # fs) =
     (case send_file j file_map f of (sent, events) \<Rightarrow> emit sent events (send_files j file_map fs))"

section \<open>The receiving end\<close>

definition receive_nonce :: "rtc_json \<Rightarrow> token_crypto \<Rightarrow> data_message list \<Rightarrow> (string + bytes) \<times> data_message list" where
  "receive_nonce j tc ms =
     (case ms of
        [] \<Rightarrow> (Inl ''Failed to receive nonce'', [])
      | m # ms \<Rightarrow>
          if \<not> is_string m then (Inl ''Expected string message'', ms)
          else (case parse_nonce j (data m) of
                  None \<Rightarrow> (Inl ''json'', ms)
                | Some s \<Rightarrow>
                    (case b64_decode tc s of
                       None \<Rightarrow> (Inl ''Failed to decode remote nonce'', ms)
                     | Some n \<Rightarrow> if validate_nonce n then (Inr n, ms) else (Inl ''Invalid remote nonce'', ms))))"

text \<open>
  What an end is given: how to parse and to sign, its key, the key it expects of its peer, its PIN, and
  what its user answers to PIN requests. \<open>generate_nonce\<close> is the nonce it draws.
\<close>

record rtc_config =
  json :: rtc_json
  crypto :: token_crypto
  own_der :: "bytes option"
  own_sign :: "bytes \<Rightarrow> bytes"
  generate_nonce :: bytes
  expecting_public_key :: "verifying_key option"
  own_pin :: "pin_config option"
  user_pins :: "string list"

definition local_nonce_msg :: "rtc_config \<Rightarrow> data_message" where
  "local_nonce_msg c = text_msg (nonce_json (json c) (b64_encode (crypto c) (generate_nonce c)))"

text \<open>Whether the token of the peer stands; \<open>None\<close> is a panic of the task.\<close>

definition peer_token_ok :: "rtc_config \<Rightarrow> bytes \<Rightarrow> string \<Rightarrow> bool option" where
  "peer_token_ok c nonce token =
     (case expecting_public_key c of
        None \<Rightarrow> Some True
      | Some key \<Rightarrow> verify_token_nonce (crypto c) key token nonce)"

text \<open>What the receiving user does: the selection (\<open>None\<close>: the application went away), with a fresh token
  for each file, and what the application makes of the files.\<close>

record rtc_receiver =
  selection :: "string list option option"
  file_token :: "string \<Rightarrow> string"
  keeps_reading :: "string \<Rightarrow> u64 \<Rightarrow> bool"
  file_results :: user_results

text \<open>What \<open>handle_pin\<close> tells the application: a request for each PIN it sent, and how it ended.\<close>

definition pin_events :: "(string + 'a) \<Rightarrow> data_message list \<Rightarrow> rtc_event list" where
  "pin_events r sent =
     replicate (length sent) Asked_Pin @
     (case r of
        Inl e \<Rightarrow> if e = ''PIN required but not provided'' then [Asked_Pin]
                 else if e = ''Too many requests'' then [Rtc_Too_Many_Attempts] else []
      | Inr _ \<Rightarrow> [])"

definition receive_selection :: "rtc_config \<Rightarrow> rtc_receiver \<Rightarrow> file_dto list \<Rightarrow> data_message list \<Rightarrow> outcome" where
  "receive_selection c u files ms =
     emit [] [Rtc_Connected, File_List files]
       (case selection u of
          None \<Rightarrow> finished
        | Some None \<Rightarrow> (Inr (), in_chunks (file_list_json (json c) FL_Declined), [])
        | Some (Some ids) \<Rightarrow>
            (let tokens = map (\<lambda>i. (i, file_token u i)) ids
             in emit (in_chunks (file_list_json (json c) (FL_Ok tokens))) []
                  (receive_files (json c) tokens files (keeps_reading u) (file_results u) None ms)))"

definition receive_file_list :: "rtc_config \<Rightarrow> rtc_receiver \<Rightarrow> data_message list \<Rightarrow> outcome" where
  "receive_file_list c u ms =
     (case receive_string_from_chunks ms of
        (bs, ms) \<Rightarrow>
          (case parse_pin_sending (json c) bs of
             None \<Rightarrow> fail ''Failed to deserialize file list response''
           | Some (PS_Ok files) \<Rightarrow> receive_selection c u files ms
           | Some PS_Pin_Required \<Rightarrow>
               (case handle_pin (pin_json (json c)) True (parse_sending_pin_response (json c)) (user_pins c) ms of
                  (r, sent, ms) \<Rightarrow>
                    emit sent (pin_events r sent)
                      (case r of Inl e \<Rightarrow> fail e | Inr files \<Rightarrow> receive_selection c u files ms))
           | Some PS_Too_Many_Attempts \<Rightarrow>
               (Inl ''Unexpected TooManyAttempts response'', [],
                [Rtc_Error ''Unexpected TooManyAttempts response''])))"

definition receiver_pin :: "rtc_config \<Rightarrow> rtc_receiver \<Rightarrow> data_message list \<Rightarrow> outcome" where
  "receiver_pin c u ms =
     (case own_pin c of
        None \<Rightarrow> receive_file_list c u ms
      | Some cfg \<Rightarrow>
          (case verify_pin (parse_pin (json c)) cfg False ms of
             (r, notices, ms) \<Rightarrow>
               emit (concat (map (receiver_notice (json c)) notices)) [Asked_Pin]
                 (case r of
                    Inl e \<Rightarrow> (Inl e, [], if VP_Too_Many_Attempts \<in> set notices then [Rtc_Too_Many_Attempts] else [])
                  | Inr _ \<Rightarrow> emit [text_msg (pin_receiving_json (json c) PR_Ok)] []
                               (receive_file_list c u ms))))"

definition receiver_token :: "rtc_config \<Rightarrow> rtc_receiver \<Rightarrow> bytes \<Rightarrow> data_message list \<Rightarrow> outcome" where
  "receiver_token c u nonce ms =
     (case ms of
        [] \<Rightarrow> fail ''Failed to receive token''
      | m # ms \<Rightarrow>
          if \<not> is_string m then fail ''Expected string message''
          else (case parse_token_request (json c) (data m) of
                  None \<Rightarrow> fail ''json''
                | Some remote_token \<Rightarrow>
                    (case peer_token_ok c nonce remote_token of
                       None \<Rightarrow> fail ''panic''
                     | Some False \<Rightarrow>
                         emit [text_msg (token_response_json (json c) Token_Invalid_Signature)] []
                           (fail ''Invalid token signature or nonce'')
                     | Some True \<Rightarrow>
                         (case generate_token_nonce (crypto c) (own_der c) (own_sign c) nonce of
                            Inl e \<Rightarrow> fail e
                          | Inr token \<Rightarrow>
                              emit [text_msg (token_response_json (json c)
                                 (case own_pin c of Some _ \<Rightarrow> Token_Pin_Required token | None \<Rightarrow> Token_Ok token))] []
                                (receiver_pin c u ms)))))"

definition accept_offer :: "rtc_config \<Rightarrow> rtc_receiver \<Rightarrow> data_message list \<Rightarrow> outcome" where
  "accept_offer c u ms =
     (case receive_nonce (json c) (crypto c) ms of
        (Inl e, ms) \<Rightarrow> fail e
      | (Inr remote_nonce, ms) \<Rightarrow>
          emit [local_nonce_msg c] []
            (receiver_token c u (remote_nonce @ generate_nonce c) ms))"

section \<open>The sending end\<close>

text \<open>
  What the sending user does: the files it offers, whether the application still listens for the
  selection, its answer to a pairing request (\<open>None\<close>: none), and the files it then sends.
\<close>

record rtc_sender =
  offered :: "file_dto list"
  takes_selection :: bool
  pair_answer :: "bool option"
  parse_public_key :: "string \<Rightarrow> string \<Rightarrow> verifying_key option"
  to_send :: "rtc_file list"

text \<open>After the delimiter the end waits for one message, any message.\<close>

definition send_selected :: "rtc_config \<Rightarrow> rtc_sender \<Rightarrow> (string \<times> string) list \<Rightarrow> data_message list \<Rightarrow> outcome" where
  "send_selected c u file_map ms =
     (if takes_selection u
      then emit [] [Selected_Files (map fst file_map)] (send_files (json c) file_map (to_send u))
      else (Inl ''Could not publish selection'', [], [Rtc_Error ''Could not publish selection'']))"

definition unexpected :: "string \<Rightarrow> outcome" where
  "unexpected e = (Inl e, [], [Rtc_Error e])"

definition after_pairing :: "rtc_config \<Rightarrow> rtc_sender \<Rightarrow> data_message list \<Rightarrow> outcome" where
  "after_pairing c u ms =
     (case receive_string_from_chunks ms of
        (bs, ms) \<Rightarrow>
          (case parse_file_list (json c) bs of
             None \<Rightarrow> fail ''Failed to deserialize file list response''
           | Some (FL_Ok files) \<Rightarrow> send_selected c u files ms
           | Some FL_Declined \<Rightarrow> (Inr (), [], [Rtc_Declined])
           | Some FL_Invalid_Signature \<Rightarrow> unexpected ''Invalid signature (not expected)''
           | Some (FL_Pair _) \<Rightarrow> unexpected ''Unexpected pair response''))"

definition pair_request :: "rtc_config \<Rightarrow> rtc_sender \<Rightarrow> bytes \<Rightarrow> string \<Rightarrow> string \<Rightarrow> data_message list \<Rightarrow> outcome" where
  "pair_request c u nonce remote_token public_key ms =
     (case extract_signature_identifier remote_token of
        None \<Rightarrow> fail ''Failed to extract signature identifier''
      | Some identifier \<Rightarrow>
          (case parse_public_key u public_key identifier of
             None \<Rightarrow> fail ''key''
           | Some key \<Rightarrow>
               (case verify_token_nonce (crypto c) key remote_token nonce of
                  None \<Rightarrow> fail ''panic''
                | Some False \<Rightarrow>
                    emit [text_msg (pair_json (json c) Pair_Invalid_Signature)] []
                      (fail ''Invalid token signature or nonce'')
                | Some True \<Rightarrow>
                    (case pair_answer u of
                       None \<Rightarrow> fail ''Failed to send pair response''
                     | Some yes \<Rightarrow>
                         emit [text_msg (pair_json (json c) (if yes then Pair_Ok public_key else Pair_Declined))]
                           [Pair_Request] (after_pairing c u ms)))))"

definition send_file_list :: "rtc_config \<Rightarrow> rtc_sender \<Rightarrow> bytes \<Rightarrow> string \<Rightarrow> data_message list \<Rightarrow> outcome" where
  "send_file_list c u nonce remote_token ms =
     emit (in_chunks (pin_sending_json (json c) (PS_Ok (offered u)))) [Rtc_Connected]
       (case receive_string_from_chunks ms of
          (bs, ms) \<Rightarrow>
            (case parse_file_list (json c) bs of
               None \<Rightarrow> fail ''Failed to deserialize file list response''
             | Some (FL_Ok files) \<Rightarrow> send_selected c u files ms
             | Some (FL_Pair public_key) \<Rightarrow> pair_request c u nonce remote_token public_key ms
             | Some FL_Declined \<Rightarrow> (Inr (), [], [Rtc_Declined])
             | Some FL_Invalid_Signature \<Rightarrow> unexpected ''Invalid signature (not expected)''))"

definition sender_pin :: "rtc_config \<Rightarrow> rtc_sender \<Rightarrow> bytes \<Rightarrow> string \<Rightarrow> data_message list \<Rightarrow> outcome" where
  "sender_pin c u nonce remote_token ms =
     (case own_pin c of
        None \<Rightarrow> send_file_list c u nonce remote_token ms
      | Some cfg \<Rightarrow>
          (case verify_pin (parse_pin (json c)) cfg True ms of
             (r, notices, ms) \<Rightarrow>
               emit (concat (map (sender_notice (json c)) notices)) [Asked_Pin]
                 (case r of
                    Inl e \<Rightarrow> (Inl e, [], if VP_Too_Many_Attempts \<in> set notices then [Rtc_Too_Many_Attempts] else [])
                  | Inr _ \<Rightarrow> send_file_list c u nonce remote_token ms)))"

definition pin_challenge :: "rtc_config \<Rightarrow> rtc_sender \<Rightarrow> bytes \<Rightarrow> string \<Rightarrow> data_message list \<Rightarrow> outcome" where
  "pin_challenge c u nonce remote_token ms =
     (case handle_pin (pin_json (json c)) False (parse_receiving_pin_response (json c)) (user_pins c) ms of
        (r, sent, ms) \<Rightarrow>
          emit sent (pin_events r sent)
            (case r of Inl e \<Rightarrow> fail e | Inr _ \<Rightarrow> sender_pin c u nonce remote_token ms))"

definition token_answer :: "rtc_config \<Rightarrow> rtc_sender \<Rightarrow> bytes \<Rightarrow> data_message list \<Rightarrow> outcome" where
  "token_answer c u nonce ms =
     (case ms of
        [] \<Rightarrow> fail ''Failed to receive token response''
      | m # ms \<Rightarrow>
          if \<not> is_string m then fail ''Expected string message''
          else (case parse_token_response (json c) (data m) of
                  None \<Rightarrow> fail ''json''
                | Some Token_Invalid_Signature \<Rightarrow> fail ''Invalid token signature from receiving peer''
                | Some (Token_Ok token) \<Rightarrow>
                    (case peer_token_ok c nonce token of
                       None \<Rightarrow> fail ''panic''
                     | Some False \<Rightarrow> fail ''Invalid token signature or nonce''
                     | Some True \<Rightarrow> sender_pin c u nonce token ms)
                | Some (Token_Pin_Required token) \<Rightarrow>
                    (case peer_token_ok c nonce token of
                       None \<Rightarrow> fail ''panic''
                     | Some False \<Rightarrow> fail ''Invalid token signature or nonce''
                     | Some True \<Rightarrow> pin_challenge c u nonce token ms)))"

definition send_offer :: "rtc_config \<Rightarrow> rtc_sender \<Rightarrow> data_message list \<Rightarrow> outcome" where
  "send_offer c u ms =
     emit [local_nonce_msg c] []
       (case receive_nonce (json c) (crypto c) ms of
          (Inl e, ms) \<Rightarrow> fail e
        | (Inr remote_nonce, ms) \<Rightarrow>
            (let nonce = generate_nonce c @ remote_nonce
             in case generate_token_nonce (crypto c) (own_der c) (own_sign c) nonce of
                  Inl e \<Rightarrow> fail e
                | Inr token \<Rightarrow>
                    emit [text_msg (token_request_json (json c) token)] [] (token_answer c u nonce ms)))"

section \<open>Facts on the loops\<close>

text \<open>The bytes of a file that reached the application.\<close>

definition file_bytes :: "string \<Rightarrow> rtc_event list \<Rightarrow> bytes" where
  "file_bytes i events =
     concat (map (\<lambda>e. case e of File_Chunk k bs \<Rightarrow> if k = i then bs else [] | _ \<Rightarrow> []) events)"

lemma receive_chunks:
  assumes "unat (fs_received s) + length (concat cs) \<le> unat (fs_size s)"
  shows "receive_files j tokens files (\<lambda>_ _. True) results (Some s) (map binary_msg cs @ ms) =
    emit [] (map (File_Chunk (fs_file_id s)) cs)
      (receive_files j tokens files (\<lambda>_ _. True) results
        (Some (s\<lparr>fs_received := fs_received s + of_nat (length (concat cs))\<rparr>)) ms)"
  using assms
proof (induction cs arbitrary: s)
  case (Cons c cs)
  let ?r = "fs_received s + of_nat (length c)"
  have "unat (fs_received s) + length c < 2 ^ 64"
    using Cons.prems unsigned_less [of "fs_size s", where ?'a = nat] by simp
  then have r: "unat ?r = unat (fs_received s) + length c"
    by (simp add: unat_word_ariths unsigned_of_nat take_bit_nat_eq_self take_bit_nat_def mod_add_right_eq)
  then have "\<not> fs_size s < ?r" using Cons.prems by (simp add: word_less_nat_alt)
  then show ?case
    using Cons.IH [of "s\<lparr>fs_received := ?r\<rparr>"] Cons.prems r
    by (simp add: binary_msg_def Let_def add.assoc)
qed simp

text \<open>A file that can be sent: selected, offered, and no longer than announced.\<close>

definition sendable :: "(string \<times> string) list \<Rightarrow> file_dto list \<Rightarrow> rtc_file \<Rightarrow> bool" where
  "sendable tokens files f \<longleftrightarrow>
     (case (map_of tokens (fst f), List.find (\<lambda>d. dto_id d = fst f) files) of
        (Some token, Some d) \<Rightarrow> length (concat (snd f)) \<le> unat (size_of d)
      | _ \<Rightarrow> False)"

definition file_chunks :: "rtc_file \<Rightarrow> bytes list" where
  "file_chunks f = chunks_of CHUNK_SIZE (concat (snd f))"

definition file_messages :: "rtc_json \<Rightarrow> (string \<times> string) list \<Rightarrow> rtc_file \<Rightarrow> data_message list" where
  "file_messages j tokens f =
     text_msg (header_json j \<lparr>h_id = fst f, h_token = the (map_of tokens (fst f))\<rparr>) # map binary_msg (file_chunks f)"

definition file_events :: "rtc_file \<Rightarrow> rtc_event list" where
  "file_events f = New_File (fst f) # map (File_Chunk (fst f)) (file_chunks f)"

text \<open>One answer for each file, with the application's results in order.\<close>

fun responses :: "rtc_json \<Rightarrow> string list \<Rightarrow> user_results \<Rightarrow> data_message list" where
  "responses j [] results = []"
| "responses j (i # is) results =
     text_msg (file_response_json j
       \<lparr>r_id = i, r_success = (result_error results = None), r_error = result_error results\<rparr>) #
     responses j is (tl results)"

lemma send_file_sendable:
  "sendable tokens files f \<Longrightarrow> send_file j tokens f = (file_messages j tokens f, [])"
  by (auto simp: sendable_def send_file_def send_file_messages file_messages_def file_chunks_def
      split: option.splits)

lemma send_files_messages:
  "list_all (sendable tokens files) fs \<Longrightarrow>
   send_files j tokens fs = (Inr (), concat (map (file_messages j tokens) fs) @ [delimiter], [])"
proof (induction fs)
  case (Cons f fs)
  then have "send_file j tokens f = (file_messages j tokens f, [])"
    by (intro send_file_sendable [of tokens files]) simp
  then show ?case using Cons by (simp add: emit_def)
qed simp

lemma receive_one_file:
  assumes json: "json_ok j" and f: "sendable tokens files f"
  shows "\<exists>s. fs_file_id s = fst f \<and>
    receive_files j tokens files (\<lambda>_ _. True) results st (file_messages j tokens f @ ms) =
      emit (case st of None \<Rightarrow> [] | Some s0 \<Rightarrow> [file_response j s0 results]) (file_events f)
        (receive_files j tokens files (\<lambda>_ _. True) (if st = None then results else tl results) (Some s) ms)"
proof -
  obtain token d where f': "map_of tokens (fst f) = Some token" "List.find (\<lambda>d. dto_id d = fst f) files = Some d"
    "length (concat (snd f)) \<le> unat (size_of d)"
    using f by (auto simp: sendable_def split: option.splits)
  let ?h = "\<lparr>h_id = fst f, h_token = token\<rparr>"
  let ?s = "\<lparr>fs_file_id = fst f, fs_size = size_of d, fs_received = 0\<rparr>"
  let ?s' = "?s\<lparr>fs_received := of_nat (length (concat (file_chunks f)))\<rparr>"
  have head: "parse_header j (header_json j ?h) = Some ?h" "\<not> length (header_json j ?h) \<le> 1"
    using json unfolding json_ok_def by (simp, meson not_le)
  have open_it: "open_file tokens files ?h = ([New_File (fst f)], Some ?s)"
    using f' by (simp add: open_file_def)
  have chunks: "receive_files j tokens files (\<lambda>_ _. True) results' (Some ?s) (map binary_msg (file_chunks f) @ ms) =
      emit [] (map (File_Chunk (fst f)) (file_chunks f))
        (receive_files j tokens files (\<lambda>_ _. True) results' (Some ?s') ms)" for results'
    using receive_chunks [of ?s "file_chunks f"] f'(3) by (simp add: file_chunks_def concat_chunks_of)
  have "receive_files j tokens files (\<lambda>_ _. True) results st (file_messages j tokens f @ ms) =
      emit (case st of None \<Rightarrow> [] | Some s0 \<Rightarrow> [file_response j s0 results]) (file_events f)
        (receive_files j tokens files (\<lambda>_ _. True) (if st = None then results else tl results) (Some ?s') ms)"
    using head open_it chunks f'(1)
    by (simp add: file_messages_def file_events_def text_msg_def is_delimiter_def Let_def)
  then show ?thesis by (intro exI [of _ ?s']) simp
qed

lemma receive_all_files:
  assumes json: "json_ok j" and fs: "list_all (sendable tokens files) fs"
  shows "receive_files j tokens files (\<lambda>_ _. True) results (Some s)
      (concat (map (file_messages j tokens) fs) @ [delimiter]) =
    (Inr (), responses j (fs_file_id s # map fst fs) results, concat (map file_events fs))"
  using fs
proof (induction fs arbitrary: s results)
  case Nil
  then show ?case
    by (simp add: delimiter_def text_msg_def is_delimiter_def file_response_def Let_def emit_def finished_def)
next
  case (Cons f fs)
  obtain s' where "fs_file_id s' = fst f" "receive_files j tokens files (\<lambda>_ _. True) results (Some s)
      (file_messages j tokens f @ concat (map (file_messages j tokens) fs) @ [delimiter]) =
    emit [file_response j s results] (file_events f)
      (receive_files j tokens files (\<lambda>_ _. True) (tl results) (Some s') (concat (map (file_messages j tokens) fs) @ [delimiter]))"
    using receive_one_file [OF json, of tokens files f results "Some s"] Cons.prems by auto
  then show ?case
    using Cons.IH [of "tl results" s'] Cons.prems
    by (simp add: emit_def file_response_def Let_def text_msg_def)
qed

lemma receive_from_start:
  assumes json: "json_ok j" and fs: "list_all (sendable tokens files) fs" and ne: "fs \<noteq> []"
  shows "receive_files j tokens files (\<lambda>_ _. True) results None
      (concat (map (file_messages j tokens) fs) @ [delimiter]) =
    (Inr (), responses j (map fst fs) results, concat (map file_events fs))"
proof -
  obtain f fs' where f: "fs = f # fs'" using ne by (cases fs) auto
  obtain s where "fs_file_id s = fst f" "receive_files j tokens files (\<lambda>_ _. True) results None
      (file_messages j tokens f @ concat (map (file_messages j tokens) fs') @ [delimiter]) =
    emit [] (file_events f)
      (receive_files j tokens files (\<lambda>_ _. True) results (Some s) (concat (map (file_messages j tokens) fs') @ [delimiter]))"
    using receive_one_file [OF json, of tokens files f results None] fs f by auto
  then show ?thesis
    using receive_all_files [OF json, of tokens files fs' results s] fs by (simp add: f emit_def)
qed

lemma file_bytes_append: "file_bytes i (xs @ ys) = file_bytes i xs @ file_bytes i ys"
  by (simp add: file_bytes_def)

lemma file_bytes_events: "file_bytes i (file_events f) = (if fst f = i then concat (snd f) else [])"
proof -
  have "concat (map (\<lambda>e. case e of File_Chunk k bs \<Rightarrow> if k = i then bs else [] | _ \<Rightarrow> [])
      (map (File_Chunk (fst f)) cs)) = (if fst f = i then concat cs else [])" for cs
    by (induction cs) auto
  then show ?thesis by (simp add: file_bytes_def file_events_def file_chunks_def concat_chunks_of del: map_map)
qed

lemma file_bytes_all:
  "distinct (map fst fs) \<Longrightarrow> f \<in> set fs \<Longrightarrow> file_bytes (fst f) (concat (map file_events fs)) = concat (snd f)"
proof (induction fs)
  case (Cons g fs)
  have none: "fst f \<notin> fst ` set fs \<Longrightarrow> file_bytes (fst f) (concat (map file_events fs)) = []" for fs
    by (induction fs) (auto simp: file_bytes_append file_bytes_events, simp add: file_bytes_def)
  show ?case
  proof (cases "f = g")
    case True
    then show ?thesis using none [of fs] Cons.prems by (simp add: file_bytes_append file_bytes_events)
  next
    case False
    then have "fst g \<noteq> fst f" using Cons.prems by force
    then show ?thesis using Cons False by (simp add: file_bytes_append file_bytes_events)
  qed
qed simp

section \<open>Both ends together\<close>

text \<open>The peers of a session that can work: they understand each other, and each signs with a key the
  peer accepts.\<close>

definition accepts_key :: "rtc_config \<Rightarrow> rtc_config \<Rightarrow> bool" where
  "accepts_key c other \<longleftrightarrow>
     own_der other \<noteq> None \<and>
     (case expecting_public_key c of
        None \<Rightarrow> True
      | Some key \<Rightarrow> signs_for (own_sign other) key \<and> to_der key = own_der other)"

definition knows_pin :: "rtc_config \<Rightarrow> rtc_config \<Rightarrow> bool" where
  "knows_pin c other \<longleftrightarrow>
     (case own_pin other of
        None \<Rightarrow> True
      | Some cfg \<Rightarrow> pin cfg \<noteq> [] \<and> 0 < max_tries cfg \<and> (case user_pins c of [] \<Rightarrow> False | p # _ \<Rightarrow> p = pin cfg))"

definition compatible :: "rtc_config \<Rightarrow> rtc_config \<Rightarrow> bool" where
  "compatible a b \<longleftrightarrow> json a = json b \<and> crypto a = crypto b \<and> json_ok (json a) \<and> b64_ok (crypto a) \<and>
     validate_nonce (generate_nonce a) \<and> validate_nonce (generate_nonce b) \<and>
     accepts_key a b \<and> accepts_key b a \<and> knows_pin a b \<and> knows_pin b a"

lemma receive_nonce_sent:
  assumes "json_ok (json c)" "b64_ok (crypto c)" "validate_nonce (generate_nonce c)"
  shows "receive_nonce (json c) (crypto c) (local_nonce_msg c # ms) = (Inr (generate_nonce c), ms)"
  using assms by (simp add: receive_nonce_def local_nonce_msg_def text_msg_def json_ok_def b64_ok_def)

lemma token_of_peer:
  assumes "accepts_key c other" "b64_ok (crypto other)" "crypto c = crypto other"
  obtains token where
    "generate_token_nonce (crypto other) (own_der other) (own_sign other) nonce = Inr token"
    "peer_token_ok c nonce token = Some True"
proof -
  obtain der where der: "own_der other = Some der" using assms(1) by (auto simp: accepts_key_def)
  obtain token where token: "generate_token_nonce (crypto other) (Some der) (own_sign other) nonce = Inr token"
    by (simp add: generate_token_nonce_def Let_def)
  have "peer_token_ok c nonce token = Some True"
  proof (cases "expecting_public_key c")
    case (Some key)
    then have "signs_for (own_sign other) key" "to_der key = Some der"
      using assms(1) der by (simp_all add: accepts_key_def)
    from verify_generated [OF assms(2) this token] show ?thesis
      using assms(3) Some by (simp add: peer_token_ok_def verify_token_nonce_def)
  qed (simp add: peer_token_ok_def)
  then show thesis using token der that by simp
qed

lemma verify_pin_right:
  assumes "json_ok j" "pin cfg \<noteq> []" "0 < max_tries cfg"
  shows "verify_pin (parse_pin j) cfg notice (text_msg (pin_json j (pin cfg)) # ms) =
    (Inr (), if notice then [VP_Pin_Required] else [], ms)"
proof -
  have "parse_pin j (pin_json j (pin cfg)) = Some (pin cfg)" using assms(1) by (simp add: json_ok_def)
  moreover have "\<not> max_tries cfg \<le> 0" using assms(3) by simp
  ultimately show ?thesis
    using assms(2) by (simp add: verify_pin_def verify_pin_loop.simps [of _ _ _ _ "[]"]
        verify_pin_loop.simps [of _ cfg _ _ "pin cfg"] text_msg_def)
qed

lemma handle_pin_right:
  assumes "json_ok j"
  shows "handle_pin (pin_json j) False (parse_receiving_pin_response j) (p # ps)
      (text_msg (pin_receiving_json j PR_Ok) # ms) = (Inr (), [text_msg (pin_json j p)], ms)"
    and "handle_pin (pin_json j) True (parse_sending_pin_response j) (p # ps)
      (in_chunks (pin_sending_json j (PS_Ok files)) @ ms) = (Inr files, [text_msg (pin_json j p)], ms)"
  using assms
  by (simp_all add: parse_receiving_pin_response_def parse_sending_pin_response_def json_ok_def text_msg_def)

text \<open>The messages of a session in which each user knows the PIN of the other.\<close>

definition sender_pin_msgs :: "rtc_config \<Rightarrow> data_message list" where
  "sender_pin_msgs c = (case own_pin c of None \<Rightarrow> [] | Some _ \<Rightarrow> sender_notice (json c) VP_Pin_Required)"

definition answered_pin :: "rtc_config \<Rightarrow> data_message list" where
  "answered_pin other = (case own_pin other of None \<Rightarrow> [] | Some cfg \<Rightarrow> [text_msg (pin_json (json other) (pin cfg))])"

definition granted_pin :: "rtc_config \<Rightarrow> data_message list" where
  "granted_pin c = (case own_pin c of None \<Rightarrow> [] | Some _ \<Rightarrow> [text_msg (pin_receiving_json (json c) PR_Ok)])"

text \<open>The receiving end from the PIN of its own on, given what a knowing sender sends.\<close>

lemma receiver_after_token:
  assumes "json_ok (json c)" "json s = json c" "knows_pin s c" "knows_pin c s"
  shows "\<exists>events. receiver_pin c u (answered_pin c @ sender_pin_msgs s @
      in_chunks (pin_sending_json (json c) (PS_Ok files)) @ ms) =
    emit (granted_pin c @ answered_pin s) events (receive_selection c u files ms) \<and> set events \<subseteq> {Asked_Pin}"
proof -
  let ?files = "in_chunks (pin_sending_json (json c) (PS_Ok files)) @ ms"
  have list: "\<exists>events. receive_file_list c u (sender_pin_msgs s @ ?files) =
      emit (answered_pin s) events (receive_selection c u files ms) \<and> set events \<subseteq> {Asked_Pin}"
  proof (cases "own_pin s")
    case None
    then show ?thesis
      using assms(1) by (intro exI [of _ "[]"])
        (simp add: sender_pin_msgs_def answered_pin_def receive_file_list_def json_ok_def)
  next
    case (Some cfg)
    then obtain ps where pins: "user_pins c = pin cfg # ps" using assms(4)
      by (auto simp: knows_pin_def split: list.splits)
    have "parse_pin_sending (json c) (pin_sending_json (json c) PS_Pin_Required) = Some PS_Pin_Required"
      using assms(1) by (simp add: json_ok_def)
    then show ?thesis
      using Some pins assms(2) handle_pin_right(2) [OF assms(1)]
      by (intro exI [of _ "[Asked_Pin]"])
        (simp add: sender_pin_msgs_def answered_pin_def receive_file_list_def sender_notice_def pin_events_def)
  qed
  then obtain events where list: "receive_file_list c u (sender_pin_msgs s @ ?files) =
      emit (answered_pin s) events (receive_selection c u files ms)" and asked: "set events \<subseteq> {Asked_Pin}"
    by blast
  show ?thesis
  proof (cases "own_pin c")
    case None
    then show ?thesis using list asked by (auto simp: receiver_pin_def answered_pin_def granted_pin_def)
  next
    case (Some cfg)
    then have "pin cfg \<noteq> []" "0 < max_tries cfg" using assms(3) by (simp_all add: knows_pin_def)
    note verify_pin_right [OF assms(1) this, of False "sender_pin_msgs s @ ?files"]
    then show ?thesis
      using Some list asked
      by (intro exI [of _ "Asked_Pin # events"])
        (simp add: receiver_pin_def answered_pin_def granted_pin_def)
  qed
qed

text \<open>The sending end from the token of the receiver on.\<close>

lemma sender_after_token:
  assumes "json_ok (json c)" "json r = json c" "knows_pin r c" "knows_pin c r"
    and "peer_token_ok c nonce token = Some True"
  shows "\<exists>events. token_answer c u nonce
      (text_msg (token_response_json (json c)
         (case own_pin r of Some _ \<Rightarrow> Token_Pin_Required token | None \<Rightarrow> Token_Ok token)) #
       granted_pin r @ answered_pin c @ ms) =
    emit (answered_pin r @ sender_pin_msgs c) events (send_file_list c u nonce token ms)"
proof -
  have own: "\<exists>events. sender_pin c u nonce token (answered_pin c @ ms) =
      emit (sender_pin_msgs c) events (send_file_list c u nonce token ms)"
  proof (cases "own_pin c")
    case None
    then show ?thesis
      by (intro exI [of _ "[]"]) (simp add: sender_pin_def answered_pin_def sender_pin_msgs_def)
  next
    case (Some cfg)
    then have "pin cfg \<noteq> []" "0 < max_tries cfg" using assms(3) by (simp_all add: knows_pin_def)
    note verify_pin_right [OF assms(1) this, of True ms]
    then show ?thesis
      using Some by (intro exI [of _ "[Asked_Pin]"])
        (simp add: sender_pin_def answered_pin_def sender_pin_msgs_def)
  qed
  then obtain events where own: "sender_pin c u nonce token (answered_pin c @ ms) =
      emit (sender_pin_msgs c) events (send_file_list c u nonce token ms)" by blast
  have parse: "parse_token_response (json c) (token_response_json (json c) x) = Some x" for x
    using assms(1) by (simp add: json_ok_def)
  show ?thesis
  proof (cases "own_pin r")
    case None
    then show ?thesis
      using own assms(5) parse by (intro exI [of _ events])
        (simp add: token_answer_def text_msg_def granted_pin_def answered_pin_def)
  next
    case (Some cfg)
    then obtain ps where pins: "user_pins c = pin cfg # ps" using assms(4)
      by (auto simp: knows_pin_def split: list.splits)
    have "pin_challenge c u nonce token (granted_pin r @ answered_pin c @ ms) =
        emit (answered_pin r) (pin_events (Inr () :: string + unit) [text_msg (pin_json (json c) (pin cfg))])
          (sender_pin c u nonce token (answered_pin c @ ms))"
      using Some pins assms(2) handle_pin_right(1) [OF assms(1)]
      by (simp add: pin_challenge_def granted_pin_def answered_pin_def [of r])
    then show ?thesis
      using own assms(5) parse Some
      by (intro exI [of _ "pin_events (Inr () :: string + unit) [text_msg (pin_json (json c) (pin cfg))] @ events"])
        (simp add: token_answer_def text_msg_def)
  qed
qed

section \<open>What the receiver tells before it is sure\<close>

text \<open>The nonces and the token a receiver was sent first.\<close>

definition presented_token :: "rtc_config \<Rightarrow> data_message list \<Rightarrow> (bytes \<times> string) option" where
  "presented_token c ms =
     (case receive_nonce (json c) (crypto c) ms of
        (Inr n, m # _) \<Rightarrow> map_option (\<lambda>t. (n @ generate_nonce c, t)) (parse_token_request (json c) (data m))
      | _ \<Rightarrow> None)"

lemma receiver_token_guard:
  assumes "File_List files \<in> set (snd (snd (receiver_token c u nonce ms)))"
  shows "\<exists>m rest token. ms = m # rest \<and> parse_token_request (json c) (data m) = Some token \<and>
    peer_token_ok c nonce token = Some True \<and>
    (\<forall>cfg. own_pin c = Some cfg \<longrightarrow> fst (verify_pin (parse_pin (json c)) cfg False rest) = Inr ())"
  using assms
  by (auto simp: receiver_token_def receiver_pin_def fail_def split: list.splits if_splits option.splits
      bool.splits sum.splits prod.splits)

section \<open>Properties\<close>

text \<open>The messages of both ends: the files are those of the sender, the answers those of the receiver.\<close>

definition sender_script :: "rtc_config \<Rightarrow> rtc_config \<Rightarrow> string \<Rightarrow> file_dto list \<Rightarrow> data_message list \<Rightarrow> data_message list" where
  "sender_script s r token files sent =
     local_nonce_msg s # text_msg (token_request_json (json s) token) # answered_pin r @ sender_pin_msgs s @
     in_chunks (pin_sending_json (json s) (PS_Ok files)) @ sent"

definition receiver_script :: "rtc_config \<Rightarrow> rtc_config \<Rightarrow> string \<Rightarrow> (string \<times> string) list \<Rightarrow> data_message list \<Rightarrow> data_message list" where
  "receiver_script s r token tokens answers =
     local_nonce_msg r # text_msg (token_response_json (json s)
       (case own_pin r of Some _ \<Rightarrow> Token_Pin_Required token | None \<Rightarrow> Token_Ok token)) #
     granted_pin r @ answered_pin s @ in_chunks (file_list_json (json s) (FL_Ok tokens)) @ answers"

lemma compatibleD:
  assumes "compatible s r"
  shows "json r = json s" "crypto r = crypto s" "json_ok (json s)" "b64_ok (crypto s)"
    "validate_nonce (generate_nonce s)" "validate_nonce (generate_nonce r)"
    "accepts_key s r" "accepts_key r s" "knows_pin s r" "knows_pin r s"
  using assms by (auto simp: compatible_def)

lemma sender_run:
  assumes comp: "compatible s r" and u: "takes_selection us"
    and files: "list_all (sendable tokens files) (to_send us)"
    and ts: "generate_token_nonce (crypto s) (own_der s) (own_sign s) (generate_nonce s @ generate_nonce r) = Inr ts"
    and tr: "peer_token_ok s (generate_nonce s @ generate_nonce r) tr = Some True"
  shows "\<exists>events. send_offer s us (receiver_script s r tr tokens answers) =
    (Inr (), sender_script s r ts (offered us) (concat (map (file_messages (json s) tokens) (to_send us)) @ [delimiter]),
     events @ [Rtc_Connected, Selected_Files (map fst tokens)])"
proof -
  note c = compatibleD [OF comp]
  let ?ms = "in_chunks (file_list_json (json s) (FL_Ok tokens)) @ answers"
  let ?nonce = "generate_nonce s @ generate_nonce r"
  obtain events where "token_answer s us ?nonce (tl (receiver_script s r tr tokens answers)) =
      emit (answered_pin r @ sender_pin_msgs s) events (send_file_list s us ?nonce tr ?ms)"
    using sender_after_token [OF c(3) c(1) c(10) c(9) tr, of us ?ms] by (auto simp: receiver_script_def)
  moreover have "send_file_list s us ?nonce tr ?ms =
      (Inr (), in_chunks (pin_sending_json (json s) (PS_Ok (offered us))) @
        concat (map (file_messages (json s) tokens) (to_send us)) @ [delimiter],
       [Rtc_Connected, Selected_Files (map fst tokens)])"
    using c(3) u send_files_messages [OF files, of "json s"]
    by (simp add: send_file_list_def send_selected_def json_ok_def emit_def)
  ultimately show ?thesis
    using receive_nonce_sent [of r] c ts
    by (intro exI [of _ events]) (simp add: send_offer_def receiver_script_def sender_script_def emit_def)
qed

lemma receiver_run:
  assumes comp: "compatible s r" and sel: "selection ur = Some (Some ids)"
    and tr: "generate_token_nonce (crypto s) (own_der r) (own_sign r) (generate_nonce s @ generate_nonce r) = Inr tr"
    and ts: "peer_token_ok r (generate_nonce s @ generate_nonce r) ts = Some True"
    and receive: "receive_files (json s) (map (\<lambda>i. (i, file_token ur i)) ids) files (keeps_reading ur)
      (file_results ur) None sent = (result, answers, events)"
  shows "\<exists>asked. accept_offer r ur (sender_script s r ts files sent) =
      (result, receiver_script s r tr (map (\<lambda>i. (i, file_token ur i)) ids) answers,
       asked @ [Rtc_Connected, File_List files] @ events) \<and> set asked \<subseteq> {Asked_Pin}"
proof -
  note c = compatibleD [OF comp]
  have j: "json_ok (json r)" using c(1,3) by simp
  obtain asked where asked: "set asked \<subseteq> {Asked_Pin}" "receiver_pin r ur (answered_pin r @ sender_pin_msgs s @
      in_chunks (pin_sending_json (json r) (PS_Ok files)) @ sent) =
      emit (granted_pin r @ answered_pin s) asked (receive_selection r ur files sent)"
    using receiver_after_token [OF j c(1)[symmetric] c(9,10)] by blast
  then show ?thesis
    using receive_nonce_sent [of s] c ts tr sel receive
    by (intro exI [of _ asked])
      (simp add: accept_offer_def receiver_token_def receive_selection_def sender_script_def receiver_script_def
        text_msg_def Let_def emit_def json_ok_def)
qed

lemma file_bytes_asked: "set asked \<subseteq> {Asked_Pin} \<Longrightarrow> file_bytes i asked = []"
  by (induction asked) (auto simp: file_bytes_def)

section \<open>Properties\<close>


section \<open>Sample peers\<close>

text \<open>A codec for the witnesses: every message is numbered, a number is that many bytes.\<close>

instance file_metadata_ext :: (countable) countable
  by (rule countable_classI [of "\<lambda>f. to_nat (modified f, accessed f, file_metadata.more f)"]) simp

instance file_dto_ext :: (countable) countable
  by (rule countable_classI [of "\<lambda>f. to_nat (dto_id f, file_name f, size_of f, file_type f, sha256 f,
      preview f, metadata f, file_dto.more f)"]) simp

instance file_header_ext :: (countable) countable
  by (rule countable_classI [of "\<lambda>f. to_nat (h_id f, h_token f, file_header.more f)"]) simp

instance token_response :: countable
  by countable_datatype

instance pin_receiving_response :: countable
  by countable_datatype

instance pin_sending_response :: countable
  by countable_datatype

instance file_list_response :: countable
  by countable_datatype

definition number_json :: "'a :: countable \<Rightarrow> bytes" where
  "number_json x = replicate (to_nat x + 2) 0"

definition parse_number :: "bytes \<Rightarrow> 'a :: countable option" where
  "parse_number bs = (if length bs < 2 then None else Some (from_nat (length bs - 2)))"

definition sample_json :: rtc_json where
  "sample_json =
     \<lparr>nonce_json = number_json, parse_nonce = parse_number,
      token_request_json = number_json, parse_token_request = parse_number,
      token_response_json = number_json, parse_token_response = parse_number,
      pin_json = number_json, parse_pin = parse_number,
      pin_receiving_json = number_json, parse_pin_receiving = parse_number,
      pin_sending_json = number_json, parse_pin_sending = parse_number,
      file_list_json = number_json, parse_file_list = parse_number,
      pair_json = (\<lambda>_. []),
      header_json = number_json, parse_header = parse_number,
      file_response_json = (\<lambda>_. [])\<rparr>"

lemma sample_json_ok: "json_ok sample_json"
  by (simp add: json_ok_def sample_json_def number_json_def parse_number_def)

text \<open>
  The PIN of a transfer can be guessed as often as configured and no more: the verifier is content
  exactly when the PIN is empty or among that many first guesses.
\<close>

theorem verify_pin_bounds_guesses:
  assumes "json_ok j"
  shows "fst (verify_pin (parse_pin j) cfg notice (map (\<lambda>p. text_msg (pin_json j p)) guesses)) = Inr () \<longleftrightarrow>
    pin cfg = [] \<or> pin cfg \<in> set (take (unat (max_tries cfg)) guesses)"
  using verify_pin_guessing [of guesses "parse_pin j" "pin_json j" cfg notice 0 "[]"] assms
  by (auto simp: verify_pin_def json_ok_def)

theorem verify_pin_bounds_guesses_witness:
  "fst (verify_pin (parse_pin sample_json) \<lparr>pin = ''1234'', max_tries = 3\<rparr> True
     (map (\<lambda>p. text_msg (pin_json sample_json p)) [''1'', ''2'', ''3'', ''1234''])) \<noteq> Inr ()"
  using verify_pin_bounds_guesses [OF sample_json_ok, of "\<lparr>pin = ''1234'', max_tries = 3\<rparr>" True "[''1'', ''2'', ''3'', ''1234'']"]
  by simp

definition sample_peer :: "u8 \<Rightarrow> pin_config option \<Rightarrow> string list \<Rightarrow> rtc_config" where
  "sample_peer n own pins =
     \<lparr>json = sample_json, crypto = sample_crypto, own_der = Some [1, 2], own_sign = map (\<lambda>b. b + 1),
      generate_nonce = replicate 32 n, expecting_public_key = Some sample_key, own_pin = own,
      user_pins = pins\<rparr>"

definition rtc_sending_peer :: rtc_config where
  "rtc_sending_peer = sample_peer 1 None [''1234'']"

definition rtc_receiving_peer :: rtc_config where
  "rtc_receiving_peer = sample_peer 2 (Some \<lparr>pin = ''1234'', max_tries = 3\<rparr>) []"

lemma sample_peers_compatible: "compatible rtc_sending_peer rtc_receiving_peer"
  using sample_json_ok sample_crypto_ok sample_key_signs
  by (simp add: compatible_def rtc_sending_peer_def rtc_receiving_peer_def sample_peer_def validate_nonce_def
      accepts_key_def knows_pin_def sample_key_def)

definition sample_offer :: file_dto where
  "sample_offer = \<lparr>dto_id = ''f1'', file_name = lit ''a.txt'', size_of = 3, file_type = ''text/plain'',
     sha256 = None, preview = None, metadata = None\<rparr>"

definition sending_user :: "rtc_file list \<Rightarrow> rtc_sender" where
  "sending_user fs = \<lparr>offered = [sample_offer], takes_selection = True, pair_answer = None,
     parse_public_key = (\<lambda>_ _. None), to_send = fs\<rparr>"

definition receiving_user :: rtc_receiver where
  "receiving_user = \<lparr>selection = Some (Some [''f1'']), file_token = id, keeps_reading = (\<lambda>_ _. True),
     file_results = [\<lparr>r_id = ''f1'', r_success = True, r_error = None\<rparr>]\<rparr>"


text \<open>
  C12. A receiver that expects a key shows its user a list of files only after the sender presented a
  token that this key signed for the nonces of this very session, and after the sender got past the PIN.
\<close>

theorem rtc_receiver_guarded:
  assumes "File_List files \<in> set (snd (snd (accept_offer c u ms)))" and "expecting_public_key c = Some key"
  shows "\<exists>n m rest token. receive_nonce (json c) (crypto c) ms = (Inr n, m # rest) \<and>
    parse_token_request (json c) (data m) = Some token \<and>
    verify_token_nonce (crypto c) key token (n @ generate_nonce c) = Some True \<and>
    (case own_pin c of None \<Rightarrow> True
       | Some cfg \<Rightarrow> fst (verify_pin (parse_pin (json c)) cfg False rest) = Inr ())"
proof -
  obtain n ms' where n: "receive_nonce (json c) (crypto c) ms = (Inr n, ms')"
    "File_List files \<in> set (snd (snd (receiver_token c u (n @ generate_nonce c) ms')))"
    using assms(1) by (auto simp: accept_offer_def fail_def split: prod.splits sum.splits)
  obtain m rest token where "ms' = m # rest" "parse_token_request (json c) (data m) = Some token"
    "peer_token_ok c (n @ generate_nonce c) token = Some True"
    "\<forall>cfg. own_pin c = Some cfg \<longrightarrow> fst (verify_pin (parse_pin (json c)) cfg False rest) = Inr ()"
    using receiver_token_guard [OF n(2)] by blast
  then show ?thesis
    using n(1) assms(2) by (intro exI [of _ n] exI [of _ m] exI [of _ rest] exI [of _ token])
      (auto simp: peer_token_ok_def split: option.split)
qed

lemma listed: "\<exists>asked. r = (res, out, asked @ [e, File_List fs] @ evs) \<and> P asked \<Longrightarrow>
  File_List fs \<in> set (snd (snd r))"
  by auto

lemma sample_session:
  "\<exists>ms. File_List [sample_offer] \<in> set (snd (snd (accept_offer rtc_receiving_peer receiving_user ms)))"
proof -
  note c = compatibleD [OF sample_peers_compatible]
  let ?nonce = "generate_nonce rtc_sending_peer @ generate_nonce rtc_receiving_peer"
  obtain ts where ts: "peer_token_ok rtc_receiving_peer ?nonce ts = Some True"
    using token_of_peer [OF c(8)] c(2,4) by metis
  obtain tr where tr: "generate_token_nonce (crypto rtc_sending_peer) (own_der rtc_receiving_peer)
      (own_sign rtc_receiving_peer) ?nonce = Inr tr"
    using token_of_peer [OF c(7)] c(2,4) by metis
  have sel: "selection receiving_user = Some (Some [''f1''])" by (simp add: receiving_user_def)
  have "receive_files (json rtc_sending_peer) (map (\<lambda>i. (i, file_token receiving_user i)) [''f1'']) [sample_offer]
      (keeps_reading receiving_user) (file_results receiving_user) None [] = (Inr (), [], [])"
    by (simp add: finished_def)
  note listed [OF receiver_run [OF sample_peers_compatible sel tr ts this]]
  then show ?thesis by (rule exI)
qed

theorem rtc_receiver_guarded_witness:
  "\<exists>ms n m rest token. receive_nonce sample_json sample_crypto ms = (Inr n, m # rest) \<and>
    verify_token_nonce sample_crypto sample_key token (n @ replicate 32 2) = Some True"
proof -
  obtain ms where "File_List [sample_offer] \<in> set (snd (snd (accept_offer rtc_receiving_peer receiving_user ms)))"
    using sample_session by blast
  from rtc_receiver_guarded [OF this, of sample_key] show ?thesis
    by (simp add: rtc_receiving_peer_def sample_peer_def) blast
qed

text \<open>
  When the sender finally has no file to send, the receiving end fails: it only takes the delimiter
  for the end of the transfer after a file, and reads it as the header of one otherwise.
\<close>

theorem rtc_nothing_to_send_fails:
  assumes "compatible s r" and "selection ur = Some (Some ids)" and "takes_selection us" and "to_send us = []"
  shows "\<exists>from_sender from_receiver sender_events receiver_events.
    send_offer s us from_receiver = (Inr (), from_sender, sender_events) \<and>
    accept_offer r ur from_sender = (Inl ''json'', from_receiver, receiver_events)"
proof -
  note c = compatibleD [OF assms(1)]
  let ?nonce = "generate_nonce s @ generate_nonce r"
  let ?tokens = "map (\<lambda>i. (i, file_token ur i)) ids"
  obtain ts where ts: "generate_token_nonce (crypto s) (own_der s) (own_sign s) ?nonce = Inr ts"
    "peer_token_ok r ?nonce ts = Some True" using token_of_peer [OF c(8)] c(2,4) by metis
  obtain tr where tr: "generate_token_nonce (crypto s) (own_der r) (own_sign r) ?nonce = Inr tr"
    "peer_token_ok s ?nonce tr = Some True" using token_of_peer [OF c(7)] c(2,4) by metis
  have "receive_files (json s) ?tokens (offered us) (keeps_reading ur) (file_results ur) None [delimiter] =
      (Inl ''json'', [], [])"
    using c(3) by (simp add: delimiter_def text_msg_def fail_def json_ok_def)
  from receiver_run [OF assms(1,2) tr(1) ts(2) this] obtain asked where
    "accept_offer r ur (sender_script s r ts (offered us) [delimiter]) =
      (Inl ''json'', receiver_script s r tr ?tokens [], asked @ [Rtc_Connected, File_List (offered us)] @ [])"
    by blast
  moreover obtain events where "send_offer s us (receiver_script s r tr ?tokens []) =
      (Inr (), sender_script s r ts (offered us) [delimiter], events @ [Rtc_Connected, Selected_Files (map fst ?tokens)])"
    using sender_run [OF assms(1,3) _ ts(1) tr(2), of ?tokens "offered us" "[]"] assms(4) by auto
  ultimately show ?thesis by blast
qed

theorem rtc_nothing_to_send_fails_witness:
  "\<exists>from_sender from_receiver sender_events receiver_events.
    send_offer rtc_sending_peer (sending_user []) from_receiver = (Inr (), from_sender, sender_events) \<and>
    accept_offer rtc_receiving_peer receiving_user from_sender = (Inl ''json'', from_receiver, receiver_events)"
  by (rule rtc_nothing_to_send_fails [OF sample_peers_compatible])
    (simp_all add: receiving_user_def sending_user_def)

text \<open>
  When a file runs over its size the receiver drops it without taking the application's result for
  it: the next file is answered with that result, whatever became of it.
\<close>

theorem rtc_result_of_dropped_file:
  assumes "json_ok j" and "sendable tokens files f"
    and "fs_size s < fs_received s + of_nat (length too_much)" and "dropped = r0 # results"
  shows "receive_files j tokens files (\<lambda>_ _. True) dropped (Some s)
      (binary_msg too_much # file_messages j tokens f @ [delimiter]) =
    (Inr (), [text_msg (file_response_json j
       \<lparr>r_id = fst f, r_success = r_success r0, r_error = result_error [r0]\<rparr>)],
     File_Error (fs_file_id s) ''Received more bytes than expected'' # file_events f)"
proof -
  obtain s' where "fs_file_id s' = fst f" "receive_files j tokens files (\<lambda>_ _. True) dropped None
      (file_messages j tokens f @ [delimiter]) =
    emit [] (file_events f) (receive_files j tokens files (\<lambda>_ _. True) dropped (Some s') [delimiter])"
    using receive_one_file [OF assms(1,2), of dropped None "[delimiter]"] by auto
  moreover have "receive_files j tokens files (\<lambda>_ _. True) dropped (Some s') [delimiter] =
      (Inr (), [text_msg (file_response_json j
         \<lparr>r_id = fs_file_id s', r_success = r_success r0, r_error = result_error [r0]\<rparr>)], [])"
    by (simp add: delimiter_def text_msg_def is_delimiter_def file_response_def Let_def emit_def finished_def
        assms(4) result_error_def)
  ultimately show ?thesis using assms(3) by (simp add: binary_msg_def Let_def emit_def)
qed

theorem rtc_result_of_dropped_file_witness:
  "receive_files sample_json [(''f1'', ''t'')] [sample_offer] (\<lambda>_ _. True)
      [\<lparr>r_id = ''f0'', r_success = False, r_error = Some ''too long''\<rparr>, \<lparr>r_id = ''f1'', r_success = True, r_error = None\<rparr>]
      (Some \<lparr>fs_file_id = ''f0'', fs_size = 1, fs_received = 0\<rparr>)
      (binary_msg [1, 2] # file_messages sample_json [(''f1'', ''t'')] (''f1'', [[7]]) @ [delimiter]) =
    (Inr (), [text_msg (file_response_json sample_json
       \<lparr>r_id = ''f1'', r_success = False, r_error = Some ''too long''\<rparr>)],
     File_Error ''f0'' ''Received more bytes than expected'' # file_events (''f1'', [[7]]))"
  using rtc_result_of_dropped_file [OF sample_json_ok, of "[(''f1'', ''t'')]" "[sample_offer]" "(''f1'', [[7]])"
      "\<lparr>fs_file_id = ''f0'', fs_size = 1, fs_received = 0\<rparr>" "[1, 2]" _
      "\<lparr>r_id = ''f0'', r_success = False, r_error = Some ''too long''\<rparr>"
      "[\<lparr>r_id = ''f1'', r_success = True, r_error = None\<rparr>]", OF _ _ refl]
  by (simp add: sendable_def sample_offer_def result_error_def)

end
