(* ===== verification/Cli_Text.thy ===== *)
theory Cli_Text
  imports Filename Signaling "HOL-Library.Sublist"
begin

text \<open>
  The text helpers of the command line application: what a remote string looks like on the terminal
  (\<open>sanitize.rs\<close>), durations and the names of saved files (\<open>util.rs\<close>), the filter of the file picker
  (\<open>picker.rs\<close>) and the short form of a host in the device list (\<open>device_list.rs\<close>).
\<close>

section \<open>Remote strings on the terminal\<close>

definition line_char :: "rchar \<Rightarrow> rchar option" where
  "line_char c =
     (if c = 9 \<or> c = 10 \<or> c = 13 then Some 32 else if is_control c then None else Some c)"

definition single_line :: "rstring \<Rightarrow> rstring" where
  "single_line s = List.map_filter line_char s"

text \<open>\<open>chars.peek() == Some(&'\n')\<close>, and then \<open>chars.next()\<close>.\<close>

definition skip_newline :: "rstring \<Rightarrow> rstring" where
  "skip_newline s = (case s of c # cs \<Rightarrow> if c = 10 then cs else s | [] \<Rightarrow> [])"

lemma length_skip_newline [termination_simp]: "length (skip_newline s) < Suc (length s)"
  by (cases s) (auto simp: skip_newline_def)

fun multi_line :: "rstring \<Rightarrow> rstring" where
  "multi_line [] = []"
| "multi_line (c # cs) =
     (if c = 13 then 10 # multi_line (skip_newline cs)
      else if c = 10 \<or> c = 9 then c # multi_line cs
      else if is_control c then multi_line cs
      else c # multi_line cs)"

definition plain_line :: "rstring \<Rightarrow> bool" where
  "plain_line s \<longleftrightarrow> (\<forall>c \<in> set s. \<not> is_control c)"

definition plain_text :: "rstring \<Rightarrow> bool" where
  "plain_text s \<longleftrightarrow> (\<forall>c \<in> set s. is_control c \<longrightarrow> c = 9 \<or> c = 10)"

lemma controls: "is_control 9" "is_control 10" "is_control 13" "is_control 27" "\<not> is_control 32"
  by (simp_all add: is_control_def)

lemma line_char_plain: "line_char c = Some d \<Longrightarrow> \<not> is_control d"
  using controls by (auto simp: line_char_def split: if_splits)

lemma line_char_id: "\<not> is_control c \<Longrightarrow> line_char c = Some c"
  using controls by (auto simp: line_char_def)

lemma plain_single_line: "plain_line (single_line s)"
  by (induction s) (auto simp: plain_line_def single_line_def map_filter_simps dest: line_char_plain split: option.split)

lemma single_line_plain: "plain_line s \<Longrightarrow> single_line s = s"
  by (induction s) (simp_all add: plain_line_def single_line_def map_filter_simps line_char_id)

lemma plain_multi_line: "plain_text (multi_line s)"
  by (induction s rule: multi_line.induct) (simp_all add: plain_text_def)

lemma multi_line_plain: "plain_text s \<Longrightarrow> multi_line s = s"
proof (induction s)
  case (Cons c s)
  then have "c \<noteq> 13" using controls by (auto simp: plain_text_def)
  then show ?case using Cons by (auto simp: plain_text_def)
qed simp

interpretation lines: sanitizer single_line plain_line
  by unfold_locales (rule plain_single_line, rule single_line_plain)

interpretation texts: sanitizer multi_line plain_text
  by unfold_locales (rule plain_multi_line, rule multi_line_plain)

text \<open>
  No remote string can steer the terminal: what is printed of it has no escape, no other control
  character, and no line break where a single line is expected; a string that is harmless already is
  printed as it is, and sanitizing twice changes nothing.
\<close>

theorem terminal_text_harmless:
  "27 \<notin> set (single_line s) \<and> 10 \<notin> set (single_line s) \<and> 13 \<notin> set (single_line s) \<and>
   27 \<notin> set (multi_line s) \<and> 13 \<notin> set (multi_line s) \<and>
   (plain_line s \<longleftrightarrow> single_line s = s) \<and> (plain_text s \<longleftrightarrow> multi_line s = s) \<and>
   single_line (single_line s) = single_line s \<and> multi_line (multi_line s) = multi_line s"
  using lines.san_valid [of s] texts.san_valid [of s] lines.valid_iff_fixpoint [of s]
    texts.valid_iff_fixpoint [of s] lines.san_idem [of s] texts.san_idem [of s] controls
  by (auto simp: plain_line_def [of "single_line s"] plain_text_def [of "multi_line s"])

section \<open>Durations\<close>

definition show_nat :: "nat \<Rightarrow> rstring" where
  "show_nat n = lit (show_radix 10 n)"

definition format_duration :: "nat \<Rightarrow> rstring" where
  "format_duration secs =
     (let h = secs div 3600; m = secs mod 3600 div 60; s = secs mod 60
      in if 0 < h then show_nat h @ lit ''h '' @ show_nat m @ lit ''m''
         else if 0 < m then show_nat m @ lit ''m '' @ show_nat s @ lit ''s''
         else show_nat s @ lit ''s'')"

section \<open>The file picker's filter\<close>

text \<open>\<open>name.any(|c| c == needle)\<close> consumes the characters up to the match.\<close>

fun seek :: "rchar \<Rightarrow> rstring \<Rightarrow> rstring option" where
  "seek needle [] = None"
| "seek needle (c # cs) = (if c = needle then Some cs else seek needle cs)"

fun all_found :: "rstring \<Rightarrow> rstring \<Rightarrow> bool" where
  "all_found [] name = True"
| "all_found (needle # query) name =
     (case seek needle name of None \<Rightarrow> False | Some rest \<Rightarrow> all_found query rest)"

text \<open>\<open>lower\<close> is \<open>str::to_lowercase\<close>.\<close>

definition matches_query :: "(rstring \<Rightarrow> rstring) \<Rightarrow> rstring \<Rightarrow> rstring \<Rightarrow> bool" where
  "matches_query lower query name = all_found (lower query) (lower name)"

lemma seek_subseq: "subseq (x # xs) ys \<longleftrightarrow> (\<exists>rest. seek x ys = Some rest \<and> subseq xs rest)"
  by (induction ys) auto

lemma all_found_subseq: "all_found query name \<longleftrightarrow> subseq query name"
  by (induction query name rule: all_found.induct) (auto simp: seek_subseq split: option.splits)

text \<open>The greedy search of the filter finds exactly the names that have the query as a subsequence.\<close>

lemma matches_query_subseq: "matches_query lower query name \<longleftrightarrow> subseq (lower query) (lower name)"
  by (simp add: matches_query_def all_found_subseq)

section \<open>Hosts in the device list\<close>

definition split_once :: "rchar \<Rightarrow> rstring \<Rightarrow> (rstring \<times> rstring) option" where
  "split_once c s =
     (if c \<in> set s then Some (takeWhile (\<lambda>x. x \<noteq> c) s, tl (dropWhile (\<lambda>x. x \<noteq> c) s)) else None)"

definition rsplit_once :: "rchar \<Rightarrow> rstring \<Rightarrow> (rstring \<times> rstring) option" where
  "rsplit_once c s =
     (case split_once c (rev s) of
        None \<Rightarrow> None
      | Some (after, before) \<Rightarrow> Some (rev before, rev after))"

text \<open>An IPv6 address is reduced to its last group, with its scope.\<close>

definition shorten_host :: "rstring \<Rightarrow> rstring" where
  "shorten_host h =
     (let (address, scope) = (case split_once 37 h of Some (a, s) \<Rightarrow> (a, Some s) | None \<Rightarrow> (h, None))
      in case rsplit_once 58 address of
           None \<Rightarrow> h
         | Some (_, last_group) \<Rightarrow>
             lit ''::'' @ last_group @ (case scope of Some s \<Rightarrow> 37 # s | None \<Rightarrow> []))"

lemma shorten_host_examples:
  "shorten_host (lit ''fe80::6888:8aff:febd:8578%15'') = lit ''::8578%15''"
  "shorten_host (lit ''2a00:1450:4001:829::200e'') = lit ''::200e''"
  "shorten_host (lit ''192.168.178.183'') = lit ''192.168.178.183''"
  by code_simp+

section \<open>Names of saved files\<close>

text \<open>
  The files that exist are a predicate on names in the destination directory; \<open>r\<close> is
  \<open>Rules::current()\<close>. The search counts up without a bound (\<open>1..\<close>), so it is a partial function: it
  returns \<open>None\<close> if every candidate is taken.
\<close>

definition stem_and_extension :: "rstring \<Rightarrow> rstring \<times> rstring" where
  "stem_and_extension name =
     (case rsplit_once 46 name of
        Some (stem, extension) \<Rightarrow> if stem \<noteq> [] then (stem, 46 # extension) else (name, [])
      | None \<Rightarrow> (name, []))"

definition numbered :: "rstring \<times> rstring \<Rightarrow> nat \<Rightarrow> rstring" where
  "numbered se i = fst se @ lit '' ('' @ show_nat i @ lit '')'' @ snd se"

partial_function (option) first_free :: "(nat \<Rightarrow> rstring) \<Rightarrow> (rstring \<Rightarrow> bool) \<Rightarrow> nat \<Rightarrow> rstring option" where
  "first_free candidate taken i =
     (if \<not> taken (candidate i) then Some (candidate i) else first_free candidate taken (i + 1))"

definition unique_path :: "rules \<Rightarrow> (rstring \<Rightarrow> bool) \<Rightarrow> rstring \<Rightarrow> rstring option" where
  "unique_path r taken path =
     (let name = sanitize_path path r
      in if \<not> taken name then Some name
         else first_free (numbered (stem_and_extension name)) taken 1)"

lemma first_free_found:
  "\<not> taken (candidate (i + n)) \<Longrightarrow> \<forall>m < n. taken (candidate (i + m)) \<Longrightarrow>
    first_free candidate taken i = Some (candidate (i + n))"
proof (induction n arbitrary: i)
  case (Suc n)
  have "taken (candidate i)" using Suc.prems(2) by force
  moreover have "\<forall>m < n. taken (candidate (i + 1 + m))" using Suc.prems(2) by force
  ultimately show ?case using Suc.IH [of "i + 1"] Suc.prems(1) by (subst first_free.simps) simp
qed (subst first_free.simps, simp)

lemma first_free_in: "first_free candidate taken i = Some p \<Longrightarrow> \<exists>j. p = candidate j"
  by (rule first_free.raw_induct [of "\<lambda>candidate taken i p. \<exists>j. p = candidate j"]) (auto split: if_splits)

lemma show_radix_not_Nil: "show_radix b n \<noteq> []"
  by (subst show_radix.simps) simp

lemma numbered_inj: "numbered se i = numbered se j \<Longrightarrow> i = j"
proof -
  assume "numbered se i = numbered se j"
  then have "map of_char (show_radix 10 i) = (map of_char (show_radix 10 j) :: nat list)"
    by (simp add: numbered_def show_nat_def lit_def)
  then have "show_radix 10 i = show_radix 10 j"
    by (simp add: inj_map_eq_map inj_on_def)
  then show "i = j" by (rule show_radix_inj [rotated 2]) simp_all
qed

text \<open>Finitely many files cannot take every number: the search comes to an end at the first free one.\<close>

lemma first_free_terminates:
  assumes "finite {n. taken n}"
  shows "\<exists>i \<ge> k. first_free (numbered se) taken k = Some (numbered se i) \<and> \<not> taken (numbered se i) \<and>
    (\<forall>j. k \<le> j \<and> j < i \<longrightarrow> taken (numbered se j))"
proof -
  have "inj (\<lambda>m. numbered se (k + m))" by (rule injI) (drule numbered_inj, simp)
  then have "\<not> finite (range (\<lambda>m. numbered se (k + m)))" using finite_imageD infinite_UNIV_nat by blast
  then have "\<not> range (\<lambda>m. numbered se (k + m)) \<subseteq> {n. taken n}"
    using assms finite_subset by blast
  then have ex: "\<exists>m. \<not> taken (numbered se (k + m))" by auto
  define m where "m = (LEAST m. \<not> taken (numbered se (k + m)))"
  have m: "\<not> taken (numbered se (k + m))" "\<forall>x < m. taken (numbered se (k + x))"
    unfolding m_def using LeastI_ex [OF ex] not_less_Least by blast+
  then have "\<forall>j. k \<le> j \<and> j < k + m \<longrightarrow> taken (numbered se j)"
    by (metis add_diff_inverse_nat le_add_diff_inverse less_diff_conv2 add.commute)
  then show ?thesis using m(1) first_free_found [OF m] by (intro exI [of _ "k + m"]) simp
qed

lemma split_once_append: "split_once c s = Some (a, b) \<Longrightarrow> s = a @ c # b \<and> c \<notin> set a"
proof -
  assume s: "split_once c s = Some (a, b)"
  then have c: "c \<in> set s" and a: "a = takeWhile (\<lambda>x. x \<noteq> c) s" and b: "b = tl (dropWhile (\<lambda>x. x \<noteq> c) s)"
    by (auto simp: split_once_def split: if_splits)
  have "dropWhile (\<lambda>x. x \<noteq> c) s = c # b"
    using c hd_dropWhile [of "\<lambda>x. x \<noteq> c" s] unfolding b by (cases "dropWhile (\<lambda>x. x \<noteq> c) s") auto
  then have "s = a @ c # b" using takeWhile_dropWhile_id [of "\<lambda>x. x \<noteq> c" s] a by simp
  moreover have "c \<notin> set a" unfolding a using set_takeWhileD by fastforce
  ultimately show ?thesis by blast
qed

lemma rsplit_once_append: "rsplit_once c s = Some (a, b) \<Longrightarrow> s = a @ c # b \<and> c \<notin> set b"
proof -
  assume "rsplit_once c s = Some (a, b)"
  then have "split_once c (rev s) = Some (rev b, rev a)"
    by (auto simp: rsplit_once_def split: option.splits prod.splits)
  then have rs: "rev s = rev b @ c # rev a" and cb: "c \<notin> set b" using split_once_append by fastforce+
  have "rev (rev s) = rev (rev b @ c # rev a)" by (rule arg_cong [OF rs])
  then show ?thesis using cb by simp
qed

lemma stem_and_extension_append: "fst (stem_and_extension n) @ snd (stem_and_extension n) = n"
  by (auto simp: stem_and_extension_def dest!: rsplit_once_append split: option.split)

lemma set_show_nat: "set (show_nat i) \<subseteq> {48..57}"
proof -
  have dig: "of_char (digit n) \<in> {48..57 :: nat}" if "n < 10" for n
  proof -
    have "n \<in> {0, 1, 2, 3, 4, 5, 6, 7, 8, 9}" using that by auto
    then show ?thesis by (auto simp: digit_def)
  qed
  have "c \<in> set (show_radix 10 i) \<Longrightarrow> of_char c \<in> {48..57 :: nat}" for c
  proof (induction i rule: less_induct)
    case (less n)
    show ?case
    proof (cases "n < 10")
      case True
      then show ?thesis using less.prems dig by (simp add: show_radix.simps [of 10 n])
    next
      case False
      then show ?thesis
        using less.prems less.IH [of "n div 10"] dig [of "n mod 10"] by (auto simp: show_radix.simps [of 10 n])
    qed
  qed
  then show ?thesis by (auto simp: show_nat_def lit_def)
qed

lemma set_numbered:
  "set (numbered (stem_and_extension n) i) = set n \<union> set (show_nat i) \<union> {32, 40, 41}"
proof -
  have "set (fst (stem_and_extension n)) \<union> set (snd (stem_and_extension n)) = set n"
    using stem_and_extension_append [of n] by (metis set_append)
  then show ?thesis by (auto simp: numbered_def lit_def)
qed

lemma byte_len_append: "byte_len (a @ b) = byte_len a + byte_len b"
  by (simp add: byte_len_def)

lemma byte_len_numbered:
  "byte_len (numbered (stem_and_extension n) i) = byte_len n + byte_len (show_nat i) + 3"
proof -
  have "byte_len (fst (stem_and_extension n)) + byte_len (snd (stem_and_extension n)) = byte_len n"
    by (simp add: stem_and_extension_append flip: byte_len_append)
  then show ?thesis
    by (simp add: numbered_def byte_len_append) (simp add: byte_len_def lit_def len_utf8_def)
qed

section \<open>What the name of a saved file can be\<close>

lemma unique_path_terminates: "finite {n. taken n} \<Longrightarrow> \<exists>p. unique_path r taken path = Some p"
  using first_free_terminates [of taken 1 "stem_and_extension (sanitize_path path r)"]
  by (auto simp: unique_path_def Let_def)


text \<open>
  A collision can make the name longer than the limit the sanitizer keeps for the file system: with
  a name of 252 to 255 bytes that exists, the chosen name is not a valid one.
\<close>

theorem unique_path_too_long:
  assumes "taken (sanitize_path path r)" and "MAX_LEN < byte_len (sanitize_path path r) + 4"
    and "unique_path r taken path = Some p"
  shows "\<not> is_valid p r"
proof -
  obtain i where p: "p = numbered (stem_and_extension (sanitize_path path r)) i"
    using assms by (auto simp: unique_path_def Let_def dest!: first_free_in)
  have "0 < byte_len (show_nat i)"
    using show_radix_not_Nil [of 10 i] by (cases "show_nat i") (auto simp: byte_len_def show_nat_def lit_def)
  then have "MAX_LEN < byte_len p" using assms(2) by (simp add: p byte_len_numbered)
  then show ?thesis by (auto simp: is_valid_iff acceptable_def)
qed

definition one_file :: "rstring \<Rightarrow> bool" where
  "one_file n \<longleftrightarrow> n = lit ''a.txt'' \<or> n = lit ''a (1).txt''"

lemma unique_path_example: "unique_path Posix one_file (lit ''x/a.txt'') = Some (lit ''a (2).txt'')"
proof -
  have "sanitize_path (lit ''x/a.txt'') Posix = lit ''a.txt''" by code_simp
  moreover have "numbered (stem_and_extension (lit ''a.txt'')) 1 = lit ''a (1).txt''"
    "numbered (stem_and_extension (lit ''a.txt'')) 2 = lit ''a (2).txt''" by code_simp+
  moreover have "one_file (lit ''a.txt'')" "one_file (lit ''a (1).txt'')" "\<not> one_file (lit ''a (2).txt'')"
    by code_simp+
  ultimately show ?thesis
    using first_free_found [of one_file "numbered (stem_and_extension (lit ''a.txt''))" 1 1]
    by (simp add: unique_path_def numeral_2_eq_2)
qed


theorem unique_path_too_long_witness:
  "\<exists>p. unique_path Posix (\<lambda>n. n = replicate 255 97) (replicate 255 97) = Some p \<and> \<not> is_valid p Posix"
proof -
  let ?name = "replicate 255 97 :: rstring"
  have san: "sanitize_path ?name Posix = ?name" by code_simp
  have fin: "finite {n. n = ?name}" by simp
  obtain p where p: "unique_path Posix (\<lambda>n. n = ?name) ?name = Some p"
    using unique_path_terminates [OF fin] by blast
  have "MAX_LEN < byte_len (sanitize_path ?name Posix) + 4" unfolding san by code_simp
  then have "\<not> is_valid p Posix"
    using unique_path_too_long [of "\<lambda>n. n = ?name", OF _ _ p] san by simp
  then show ?thesis using p by blast
qed

end
