(* ===== verification/Cli_Select.thy ===== *)
theory Cli_Select
  imports Cli_Text Discovery_Store
begin

text \<open>
  How the user of the command line application addresses devices: the hotkeys of discovered devices
  (\<open>slots.rs\<close>), the decoding of key presses with the two chords (\<open>app/keys.rs\<close>) and the destination of
  a headless send (\<open>app/target.rs\<close>).
\<close>

section \<open>Hotkey slots\<close>

type_synonym slots = "(rstring \<times> nat option) list"

definition free_slot :: "slots \<Rightarrow> nat option" where
  "free_slot s = List.find (\<lambda>n. \<not> list_ex (\<lambda>(_, assigned). assigned = Some n) s) [1..<10]"

definition assign :: "slots \<Rightarrow> rstring \<Rightarrow> nat option \<times> slots" where
  "assign s fp =
     (case map_of s fp of
        Some n \<Rightarrow> (n, s)
      | None \<Rightarrow> (let n = free_slot s in (n, s @ [(fp, n)])))"

definition slot_get :: "slots \<Rightarrow> rstring \<Rightarrow> nat option" where
  "slot_get s fp = Option.bind (map_of s fp) (\<lambda>n. n)"

definition fingerprint_by_slot :: "slots \<Rightarrow> nat \<Rightarrow> rstring option" where
  "fingerprint_by_slot s n = map_option fst (List.find (\<lambda>(_, assigned). assigned = Some n) s)"

text \<open>The slots after devices were discovered in this order.\<close>

definition assign_all :: "rstring list \<Rightarrow> slots" where
  "assign_all fps = fold (\<lambda>fp s. snd (assign s fp)) fps []"

text \<open>What the slots are meant to be: the first nine devices have the keys 1 to 9, in this order.\<close>

definition slots_of :: "rstring list \<Rightarrow> slots" where
  "slots_of fps = map (\<lambda>i. (fps ! i, if i < 9 then Some (i + 1) else None)) [0..<length fps]"

definition first_seen :: "'a list \<Rightarrow> 'a list" where
  "first_seen xs = rev (remdups (rev xs))"

lemma first_seen_snoc: "first_seen (xs @ [x]) = (if x \<in> set xs then first_seen xs else first_seen xs @ [x])"
  by (simp add: first_seen_def)

lemma slots_of_snoc:
  "slots_of (fps @ [fp]) = slots_of fps @ [(fp, if length fps < 9 then Some (length fps + 1) else None)]"
  by (simp add: slots_of_def nth_append)

lemma map_fst_slots_of [simp]: "map fst (slots_of fps) = fps"
  by (simp add: slots_of_def comp_def map_nth)

lemma map_of_slots_of: "map_of (slots_of fps) fp = None \<longleftrightarrow> fp \<notin> set fps"
  by (simp add: map_of_eq_None_iff flip: set_map)

lemma free_slot_slots_of:
  "free_slot (slots_of fps) = (if length fps < 9 then Some (length fps + 1) else None)"
proof -
  have taken: "list_ex (\<lambda>(_, assigned). assigned = Some n) (slots_of fps) \<longleftrightarrow>
      1 \<le> n \<and> n \<le> length fps \<and> n \<le> 9" for n
    by (auto simp: slots_of_def list_ex_iff intro: bexI [of _ "n - 1"])
  show ?thesis
  proof (cases "length fps < 9")
    case True
    then have "List.find (\<lambda>n. \<not> (1 \<le> n \<and> n \<le> length fps \<and> n \<le> 9)) [1..<10] = Some (length fps + 1)"
      unfolding find_Some_iff by (intro exI [of _ "length fps"]) auto
    then show ?thesis using True by (simp add: free_slot_def taken)
  next
    case False
    then have "List.find (\<lambda>n. \<not> (1 \<le> n \<and> n \<le> length fps \<and> n \<le> 9)) [1..<10] = None"
      unfolding find_None_iff by auto
    then show ?thesis using False by (simp add: free_slot_def taken)
  qed
qed

lemma assign_slots_of: "snd (assign (slots_of fps) fp) = slots_of (if fp \<in> set fps then fps else fps @ [fp])"
  using map_of_slots_of [of fps fp]
  by (auto simp: assign_def slots_of_snoc free_slot_slots_of Let_def split: option.splits)

lemma assign_all_slots_of: "assign_all fps = slots_of (first_seen fps)"
proof (induction fps rule: rev_induct)
  case Nil
  then show ?case by (simp add: assign_all_def slots_of_def first_seen_def)
next
  case (snoc fp fps)
  have "set (first_seen fps) = set fps" by (simp add: first_seen_def)
  then show ?case
    using snoc assign_slots_of [of "first_seen fps" fp] by (simp add: assign_all_def first_seen_snoc)
qed

lemma slots_of_entry:
  "distinct fps \<Longrightarrow> map_of (slots_of fps) fp = Some n \<longleftrightarrow> (fp, n) \<in> set (slots_of fps)"
  by (rule map_of_eq_Some_iff) simp

lemma find_unique:
  assumes "x \<in> set xs" "P x" "\<And>y. y \<in> set xs \<Longrightarrow> P y \<Longrightarrow> y = x"
  shows "List.find P xs = Some x"
proof (cases "List.find P xs")
  case None
  then have "\<forall>y \<in> set xs. \<not> P y" by (simp add: find_None_all)
  then show ?thesis using assms(1,2) by simp
next
  case (Some y)
  have "y = x" using find_Some_in [OF Some] by (intro assms(3)) simp_all
  then show ?thesis using Some by simp
qed

text \<open>
  A hotkey means the same device for the whole run. Whatever devices are discovered in whatever
  order and however often, the first nine of them have the keys 1 to 9 in the order in which they
  were first seen, later ones have none, and a key leads back to the one device that has it.
\<close>

theorem slots_in_discovery_order:
  "assign_all fps = slots_of (first_seen fps) \<and>
   (fingerprint_by_slot (assign_all fps) n = Some fp \<longleftrightarrow> slot_get (assign_all fps) fp = Some n) \<and>
   (slot_get (assign_all fps) fp = Some n \<longleftrightarrow>
      1 \<le> n \<and> n \<le> 9 \<and> n \<le> length (first_seen fps) \<and> first_seen fps ! (n - 1) = fp)"
proof -
  let ?ds = "first_seen fps"
  have dist: "distinct ?ds" by (simp add: first_seen_def)
  have entry: "(fp, Some n) \<in> set (slots_of ?ds) \<longleftrightarrow> 1 \<le> n \<and> n \<le> 9 \<and> n \<le> length ?ds \<and> ?ds ! (n - 1) = fp"
    for fp n by (auto simp: slots_of_def image_iff intro: bexI [of _ "n - 1"])
  have get: "slot_get (slots_of ?ds) fp = Some n \<longleftrightarrow> (fp, Some n) \<in> set (slots_of ?ds)" for fp n
    using slots_of_entry [OF dist, of fp "Some n"] by (auto simp: slot_get_def bind_eq_Some_conv)
  have "fingerprint_by_slot (slots_of ?ds) n = Some fp \<longleftrightarrow> (fp, Some n) \<in> set (slots_of ?ds)"
  proof
    assume "fingerprint_by_slot (slots_of ?ds) n = Some fp"
    then show "(fp, Some n) \<in> set (slots_of ?ds)"
      by (auto simp: fingerprint_by_slot_def dest!: find_Some_in)
  next
    assume mem: "(fp, Some n) \<in> set (slots_of ?ds)"
    have "List.find (\<lambda>(_, a). a = Some n) (slots_of ?ds) = Some (fp, Some n)"
      by (rule find_unique [OF mem]) (use mem entry in auto)
    then show "fingerprint_by_slot (slots_of ?ds) n = Some fp" by (simp add: fingerprint_by_slot_def)
  qed
  then show ?thesis using get entry by (simp add: assign_all_slots_of)
qed

section \<open>Key presses\<close>

text \<open>A key code is a character or another key; of the modifiers only Control and Alt matter.\<close>

datatype key_code =
    Key_Char rchar
  | Key_Esc | Key_Enter | Key_Backspace
  | Key_Up | Key_Down | Key_Left | Key_Right
  | Key_Page_Up | Key_Page_Down | Key_Home | Key_End
  | Key_Other nat

record key_event =
  key_code :: key_code
  control :: bool
  alt :: bool

datatype answer = Answer_Accept | Answer_Decline | Answer_Accept_And_Pair

datatype intent =
    Intent_Cancel
  | Intent_Overlay key_event
  | Toggle_Web_Share
  | Toggle_Web_Receive
  | Intent_Answer answer
  | Open_Device_List
  | Pick_Device nat

text \<open>The state of the decoder is whether \<open>W\<close> is held; the result is \<open>decode\<close>'s and the new state.\<close>

definition decode :: "bool \<Rightarrow> key_event \<Rightarrow> bool \<Rightarrow> intent option \<times> bool" where
  "decode chord_w key overlay_open =
     (if key_code key = Key_Char 99 \<and> control key then (Some Intent_Cancel, False)
      else if overlay_open then (Some (Intent_Overlay key), chord_w)
      else case key_code key of
        Key_Char ch \<Rightarrow>
          (let c = to_ascii_lowercase ch
           in if c = 115 \<and> chord_w then (Some Toggle_Web_Share, False)
              else if c = 114 \<and> chord_w then (Some Toggle_Web_Receive, False)
              else if c = 119 then (None, True)
              else if c = 121 then (Some (Intent_Answer Answer_Accept), False)
              else if c = 110 then (Some (Intent_Answer Answer_Decline), False)
              else if c = 112 then (Some (Intent_Answer Answer_Accept_And_Pair), False)
              else if c = 100 then (Some Open_Device_List, False)
              else if 49 \<le> c \<and> c \<le> 57 then (Some (Pick_Device (ch - 48)), False)
              else (None, False))
      | _ \<Rightarrow> (None, chord_w))"

text \<open>The decoder after these keys, with no overlay open.\<close>

definition decoder_after :: "key_event list \<Rightarrow> bool" where
  "decoder_after keys = fold (\<lambda>k held. snd (decode held k False)) keys False"

fun char_of_key :: "key_event \<Rightarrow> rchar option" where
  "char_of_key k = (case key_code k of Key_Char c \<Rightarrow> Some (to_ascii_lowercase c) | _ \<Rightarrow> None)"

text \<open>The last character key among some keys.\<close>

definition last_char :: "key_event list \<Rightarrow> rchar option" where
  "last_char keys = (case rev (List.map_filter char_of_key keys) of [] \<Rightarrow> None | c # _ \<Rightarrow> Some c)"

lemma map_filter_snoc:
  "List.map_filter f (xs @ [x]) = List.map_filter f xs @ (case f x of None \<Rightarrow> [] | Some y \<Rightarrow> [y])"
  by (simp add: List.map_filter_def split: option.split)

lemma last_char_snoc:
  "last_char (keys @ [k]) = (case char_of_key k of None \<Rightarrow> last_char keys | Some c \<Rightarrow> Some c)"
  by (simp add: last_char_def map_filter_snoc split: option.split)

lemma lower_c [simp]: "to_ascii_lowercase 99 = 99"
  by (simp add: to_ascii_lowercase_def)

lemma decoder_after_iff: "decoder_after keys \<longleftrightarrow> last_char keys = Some 119"
proof (induction keys rule: rev_induct)
  case Nil
  then show ?case by (simp add: decoder_after_def last_char_def map_filter_simps)
next
  case (snoc k keys)
  have step: "decoder_after (keys @ [k]) = snd (decode (decoder_after keys) k False)"
    by (simp add: decoder_after_def)
  show ?case
  proof (cases "key_code k")
    case (Key_Char c)
    then show ?thesis
      by (auto simp: step last_char_snoc decode_def Let_def)
  qed (simp_all add: step snoc last_char_snoc decode_def)
qed

text \<open>
  The two chords: \<open>S\<close> toggles sharing and \<open>R\<close> toggles receiving via link exactly when the last
  character key before was \<open>W\<close>. Keys that are no characters (arrows, Escape) do not end the chord,
  although the decoder is documented to track whether the previously pressed key was \<open>W\<close>.
\<close>

theorem chord_needs_w:
  "(fst (decode (decoder_after keys) key False) = Some Toggle_Web_Share \<longleftrightarrow>
      last_char keys = Some 119 \<and> char_of_key key = Some 115) \<and>
   (fst (decode (decoder_after keys) key False) = Some Toggle_Web_Receive \<longleftrightarrow>
      last_char keys = Some 119 \<and> char_of_key key = Some 114)"
proof (cases "key_code key")
  case (Key_Char c)
  then show ?thesis by (auto simp: decode_def decoder_after_iff Let_def)
qed (simp_all add: decode_def)

section \<open>The destination of a headless send\<close>

definition is_whitespace :: "rchar \<Rightarrow> bool" where
  "is_whitespace c \<longleftrightarrow> (9 \<le> c \<and> c \<le> 13) \<or> c = 32 \<or> c = 133 \<or> c = 160 \<or> c = 5760 \<or>
     (8192 \<le> c \<and> c \<le> 8202) \<or> c = 8232 \<or> c = 8233 \<or> c = 8239 \<or> c = 8287 \<or> c = 12288"

definition trim :: "rstring \<Rightarrow> rstring" where
  "trim s = rev (dropWhile is_whitespace (rev (dropWhile is_whitespace s)))"

datatype target_selector = Target_Alias rstring | Target_Ip ip_addr

text \<open>\<open>parse_ip\<close> is \<open>str::parse::<IpAddr>\<close>, \<open>show_ip\<close> its \<open>Display\<close>.\<close>

definition parse_target :: "(rstring \<Rightarrow> ip_addr option) \<Rightarrow> rstring \<Rightarrow> string + target_selector" where
  "parse_target parse_ip value =
     (let v = trim value
      in if v = [] then Inl ''Destination cannot be empty''
         else case parse_ip v of Some a \<Rightarrow> Inr (Target_Ip a) | None \<Rightarrow> Inr (Target_Alias v))"

definition DEFAULT_PORT :: u16 where
  "DEFAULT_PORT = 48855"

definition direct_channel :: "(ip_addr \<Rightarrow> string) \<Rightarrow> target_selector \<Rightarrow> http_channel option" where
  "direct_channel show_ip t =
     (case t of
        Target_Ip a \<Rightarrow> Some \<lparr>host = show_ip a, ch_port = DEFAULT_PORT, ch_protocol = Https\<rparr>
      | Target_Alias _ \<Rightarrow> None)"

definition target_matches ::
  "(string \<Rightarrow> bool) \<Rightarrow> (rstring \<Rightarrow> ip_addr option) \<Rightarrow> target_selector \<Rightarrow> stateful_device \<Rightarrow> bool" where
  "target_matches is_v6 parse_ip t d =
     (case t of
        Target_Alias a \<Rightarrow> lit (d_alias (device d)) = a
      | Target_Ip a \<Rightarrow>
          list_ex (\<lambda>c. parse_ip (takeWhile (\<lambda>x. x \<noteq> 37) (lit (channel_host c))) = Some a)
            (get_ranked_channels is_v6 d))"

datatype target_error = Not_Discovered target_selector | Ambiguous target_selector nat

definition resolve ::
  "(string \<Rightarrow> bool) \<Rightarrow> (rstring \<Rightarrow> ip_addr option) \<Rightarrow> target_selector \<Rightarrow> store \<Rightarrow> target_error + string" where
  "resolve is_v6 parse_ip t devices =
     (case filter (target_matches is_v6 parse_ip t) devices of
        [] \<Rightarrow> Inl (Not_Discovered t)
      | [d] \<Rightarrow> Inr (d_fingerprint (device d))
      | ds \<Rightarrow> Inl (Ambiguous t (length ds)))"

text \<open>A destination is resolved exactly when one device matches; over a store that holds each
  fingerprint once, the answer names that device.\<close>

lemma resolve_iff:
  assumes "distinct (map (\<lambda>d. d_fingerprint (device d)) devices)"
  shows "resolve is_v6 parse_ip t devices = Inr fp \<longleftrightarrow>
    (\<exists>d. {d \<in> set devices. target_matches is_v6 parse_ip t d} = {d} \<and> d_fingerprint (device d) = fp)"
proof -
  let ?ms = "filter (target_matches is_v6 parse_ip t) devices"
  have dist: "distinct ?ms" using assms by (simp add: distinct_map)
  have set: "{d \<in> set devices. target_matches is_v6 parse_ip t d} = set ?ms" by simp
  show ?thesis
  proof (cases ?ms)
    case Nil
    then show ?thesis unfolding set by (simp add: resolve_def)
  next
    case (Cons d ds)
    note ms = Cons
    show ?thesis
    proof (cases ds)
      case Nil
      then show ?thesis unfolding set using ms by (auto simp: resolve_def)
    next
      case (Cons e es)
      then have "d \<noteq> e" using dist ms by simp
      then show ?thesis unfolding set using ms Cons by (auto simp: resolve_def)
    qed
  qed
qed

end
