(* ===== verification/Cli_Devices.thy ===== *)
theory Cli_Devices
  imports Cli_Select "HOL-Library.List_Lexorder"
begin

text \<open>
  The devices the command line application knows: the paired ones, which are stored on disk
  (\<open>storage/paired.rs\<close>) and kept in step with the discovery store (\<open>app/discovery.rs\<close>), and the modal
  list of paired and discovered devices with its cursor (\<open>device_list.rs\<close>, \<open>app/devices.rs\<close>).
\<close>

section \<open>Paired devices\<close>

record paired_device =
  pd_alias :: rstring
  pd_channels :: "http_channel list"

text \<open>A \<open>BTreeMap\<close>: the entries in the order of their keys. The bytes of UTF-8 compare like the
  code points.\<close>

type_synonym btree = "(rstring \<times> paired_device) list"

definition btree_remove :: "rstring \<Rightarrow> btree \<Rightarrow> btree" where
  "btree_remove k t = filter (\<lambda>(j, _). j \<noteq> k) t"

definition btree_insert :: "rstring \<Rightarrow> paired_device \<Rightarrow> btree \<Rightarrow> btree" where
  "btree_insert k v t = insort_key fst (k, v) (btree_remove k t)"

text \<open>\<open>stored\<close> is what \<open>paired-v2.json\<close> holds, \<open>None\<close> while it does not exist.\<close>

record paired_devices =
  devices :: btree
  stored :: "(nat \<times> btree) option"

definition PAIRED_DEVICES_VERSION :: nat where
  "PAIRED_DEVICES_VERSION = 1"

definition contains :: "paired_devices \<Rightarrow> rstring \<Rightarrow> bool" where
  "contains p fp \<longleftrightarrow> map_of (devices p) fp \<noteq> None"

text \<open>The file is written beside and renamed, so a failed save (\<open>err\<close>) leaves the old one.\<close>

definition save :: "string option \<Rightarrow> paired_devices \<Rightarrow> (string + unit) \<times> paired_devices" where
  "save err p =
     (case err of
        Some e \<Rightarrow> (Inl e, p)
      | None \<Rightarrow> (Inr (), p\<lparr>stored := Some (PAIRED_DEVICES_VERSION, devices p)\<rparr>))"

definition paired_insert ::
  "string option \<Rightarrow> rstring \<Rightarrow> rstring \<Rightarrow> http_channel list \<Rightarrow> paired_devices \<Rightarrow> (string + unit) \<times> paired_devices" where
  "paired_insert err fp name chans p =
     save err (p\<lparr>devices := btree_insert fp \<lparr>pd_alias = name, pd_channels = chans\<rparr> (devices p)\<rparr>)"

definition paired_update ::
  "string option \<Rightarrow> rstring \<Rightarrow> rstring \<Rightarrow> http_channel list \<Rightarrow> paired_devices \<Rightarrow> (string + unit) \<times> paired_devices" where
  "paired_update err fp name chans p =
     (case map_of (devices p) fp of
        None \<Rightarrow> (Inr (), p)
      | Some d \<Rightarrow>
          if pd_alias d = name \<and> pd_channels d = chans then (Inr (), p)
          else save err (p\<lparr>devices := btree_insert fp \<lparr>pd_alias = name, pd_channels = chans\<rparr> (devices p)\<rparr>))"

definition paired_remove ::
  "string option \<Rightarrow> rstring \<Rightarrow> paired_devices \<Rightarrow> (string + paired_device option) \<times> paired_devices" where
  "paired_remove err fp p =
     (case map_of (devices p) fp of
        None \<Rightarrow> (Inr None, p)
      | Some d \<Rightarrow>
          (case save err (p\<lparr>devices := btree_remove fp (devices p)\<rparr>) of
             (r, p) \<Rightarrow> (map_sum id (\<lambda>_. Some d) r, p)))"

definition known_http_channels :: "paired_devices \<Rightarrow> http_channel list" where
  "known_http_channels p = concat (map (\<lambda>(_, d). pd_channels d) (devices p))"

text \<open>
  What is read at startup. The file is missing, unreadable, or a text; \<open>version_of\<close> and \<open>devices_of\<close>
  are \<open>serde_json::from_str\<close> at the two types it is read at.
\<close>

datatype 'f file_read = File_Missing | File_Unreadable string | File_Text 'f

definition load_paired ::
  "('f \<Rightarrow> nat option) \<Rightarrow> ('f \<Rightarrow> btree option) \<Rightarrow> 'f file_read \<Rightarrow> string + btree" where
  "load_paired version_of devices_of f =
     (case f of
        File_Missing \<Rightarrow> Inr []
      | File_Unreadable e \<Rightarrow> Inl e
      | File_Text t \<Rightarrow>
          (case version_of t of
             None \<Rightarrow> Inl ''Invalid paired devices file''
           | Some v \<Rightarrow>
               if v = PAIRED_DEVICES_VERSION
               then (case devices_of t of None \<Rightarrow> Inl ''Invalid paired devices file'' | Some d \<Rightarrow> Inr d)
               else Inl ''unsupported version''))"

section \<open>Facts on paired devices\<close>

definition btree_ok :: "btree \<Rightarrow> bool" where
  "btree_ok t \<longleftrightarrow> sorted (map fst t) \<and> distinct (map fst t)"

lemma keys_remove: "map fst (btree_remove k t) = filter (\<lambda>j. j \<noteq> k) (map fst t)"
  by (induction t) (auto simp: btree_remove_def)

lemma btree_remove_ok: "btree_ok t \<Longrightarrow> btree_ok (btree_remove k t)"
  by (simp add: btree_ok_def btree_remove_def sorted_filter distinct_map_filter)

lemma keys_insort: "map fst (insort_key fst (k, v) t) = insort k (map fst t)"
  by (induction t) auto

lemma btree_insert_ok: "btree_ok t \<Longrightarrow> btree_ok (btree_insert k v t)"
  using btree_remove_ok [of t k]
  by (simp add: btree_ok_def btree_insert_def keys_insort sorted_insort distinct_insort keys_remove)

lemma map_of_remove: "map_of (btree_remove k t) = (map_of t)(k := None)"
  by (induction t) (auto simp: btree_remove_def fun_eq_iff)

lemma map_of_insort: "k \<notin> fst ` set t \<Longrightarrow> map_of (insort_key fst (k, v) t) = (map_of t)(k \<mapsto> v)"
  by (induction t) (auto simp: fun_eq_iff)

lemma map_of_insert: "map_of (btree_insert k v t) = (map_of t)(k \<mapsto> v)"
proof -
  have "k \<notin> fst ` set (btree_remove k t)" by (auto simp: btree_remove_def)
  then show ?thesis by (simp add: btree_insert_def map_of_insort map_of_remove)
qed

interpretation pairings: upsert_store "\<lambda>p. map_of (devices p)"
  "\<lambda>p (fp, name, chans). snd (paired_insert err fp name chans p)" fst for err
  by unfold_locales
    (auto simp: paired_insert_def save_def map_of_insert split: prod.splits option.splits)

section \<open>Pairings over restarts\<close>

datatype pairing_op =
    Op_Insert rstring rstring "http_channel list"
  | Op_Update rstring rstring "http_channel list"
  | Op_Remove rstring

fun run_pairing :: "string option \<Rightarrow> pairing_op \<Rightarrow> paired_devices \<Rightarrow> paired_devices" where
  "run_pairing err (Op_Insert fp name chans) p = snd (paired_insert err fp name chans p)"
| "run_pairing err (Op_Update fp name chans) p = snd (paired_update err fp name chans p)"
| "run_pairing err (Op_Remove fp) p = snd (paired_remove err fp p)"

definition no_pairings :: paired_devices where
  "no_pairings = \<lparr>devices = [], stored = None\<rparr>"

text \<open>What a restart finds on disk, with \<open>print\<close> for \<open>serde_json::to_string_pretty\<close>.\<close>

definition on_disk :: "(nat \<times> btree \<Rightarrow> 'f) \<Rightarrow> paired_devices \<Rightarrow> 'f file_read" where
  "on_disk print p = (case stored p of None \<Rightarrow> File_Missing | Some f \<Rightarrow> File_Text (print f))"

definition in_step :: "paired_devices \<Rightarrow> bool" where
  "in_step p \<longleftrightarrow> btree_ok (devices p) \<and>
     stored p = (if stored p = None \<and> devices p = [] then None else Some (PAIRED_DEVICES_VERSION, devices p))"

lemma run_pairing_ok: "btree_ok (devices p) \<Longrightarrow> btree_ok (devices (run_pairing err op p))"
  by (cases op)
    (auto simp: paired_insert_def paired_update_def paired_remove_def save_def
      intro: btree_insert_ok btree_remove_ok split: option.splits prod.splits)

lemma run_pairing_in_step: "in_step p \<Longrightarrow> in_step (run_pairing None op p)"
  using run_pairing_ok [of p None op]
  by (cases op)
    (auto simp: in_step_def paired_insert_def paired_update_def paired_remove_def save_def
      split: option.splits if_splits)

text \<open>
  C27. Pairings survive a restart: after any pairings, refreshes and removals whose saves succeeded, what
  the next start reads is exactly what this run had, the devices once each and in the order of their
  fingerprints.
\<close>

theorem pairings_survive_restart:
  assumes "\<forall>f. version_of (print f) = Some (fst f) \<and> devices_of (print f) = Some (snd f)"
  shows "load_paired version_of devices_of (on_disk print (fold (run_pairing None) ops no_pairings)) =
      Inr (devices (fold (run_pairing None) ops no_pairings)) \<and>
    sorted (map fst (devices (fold (run_pairing None) ops no_pairings))) \<and>
    distinct (map fst (devices (fold (run_pairing None) ops no_pairings)))"
proof -
  have "in_step (fold (run_pairing None) ops p)" if "in_step p" for p
    using that by (induction ops arbitrary: p) (auto intro: run_pairing_in_step)
  moreover have "in_step no_pairings" by (simp add: in_step_def no_pairings_def btree_ok_def)
  ultimately have step: "in_step (fold (run_pairing None) ops no_pairings)" by blast
  show ?thesis
  proof (cases "stored (fold (run_pairing None) ops no_pairings)")
    case None
    then show ?thesis
      using step by (auto simp: in_step_def btree_ok_def on_disk_def load_paired_def split: if_splits)
  next
    case (Some f)
    then show ?thesis
      using step assms by (auto simp: in_step_def btree_ok_def on_disk_def load_paired_def split: if_splits)
  qed
qed

theorem pairings_survive_restart_witness:
  "load_paired (\<lambda>f. Some (fst f)) (\<lambda>f. Some (snd f))
     (on_disk id (fold (run_pairing None) [Op_Insert [66] [1] [], Op_Insert [65] [2] [], Op_Remove [66]] no_pairings)) =
   Inr [([65], \<lparr>pd_alias = [2], pd_channels = []\<rparr>)]"
proof -
  have "devices (fold (run_pairing None) [Op_Insert [66] [1] [], Op_Insert [65] [2] [], Op_Remove [66]] no_pairings) =
    [([65], \<lparr>pd_alias = [2], pd_channels = []\<rparr>)]"
    by (simp add: no_pairings_def paired_insert_def paired_remove_def save_def btree_insert_def btree_remove_def)
  then show ?thesis
    using pairings_survive_restart [where version_of = "\<lambda>f. Some (fst f)" and print = id and
        devices_of = "\<lambda>f. Some (snd f)" and ops = "[Op_Insert [66] [1] [], Op_Insert [65] [2] [], Op_Remove [66]]"]
    by simp
qed

section \<open>Keeping pairings in step with discovery\<close>

definition device_by_fingerprint :: "store \<Rightarrow> rstring \<Rightarrow> stateful_device option" where
  "device_by_fingerprint s fp = List.find (\<lambda>d. lit (d_fingerprint (device d)) = fp) s"

fun http_of :: "device_channel \<Rightarrow> http_channel" where
  "http_of (Http_Channel c) = c"

definition channels_of :: "(string \<Rightarrow> bool) \<Rightarrow> stateful_device \<Rightarrow> http_channel list" where
  "channels_of is_v6 d = map http_of (get_ranked_channels is_v6 d)"

definition refresh_paired_channels ::
  "(string \<Rightarrow> bool) \<Rightarrow> store \<Rightarrow> string option \<Rightarrow> rstring \<Rightarrow> paired_devices \<Rightarrow> (string + unit) \<times> paired_devices" where
  "refresh_paired_channels is_v6 s err fp p =
     (if \<not> contains p fp then (Inr (), p)
      else case device_by_fingerprint s fp of
        None \<Rightarrow> (Inr (), p)
      | Some d \<Rightarrow> paired_update err fp (single_line (lit (d_alias (device d)))) (channels_of is_v6 d) p)"

lemma refresh_keeps_pairings:
  "contains (snd (refresh_paired_channels is_v6 s err fp p)) k \<longleftrightarrow> contains p k"
  by (auto simp: refresh_paired_channels_def paired_update_def save_def contains_def map_of_insert
      split: option.splits)

section \<open>The device list\<close>

record device_row =
  dr_fingerprint :: rstring
  dr_alias :: rstring
  dr_slot :: "nat option"
  dr_hosts :: "string list"
  dr_paired :: bool

datatype row = Row_Header string | Row_Empty | Row_Spacer | Row_Device device_row

definition channel_hosts :: "(string \<Rightarrow> bool) \<Rightarrow> stateful_device \<Rightarrow> string list" where
  "channel_hosts is_v6 d = map (\<lambda>c. host (http_of c)) (get_ranked_channels is_v6 d)"

definition or_empty :: "row list \<Rightarrow> row list" where
  "or_empty rs = (if rs = [] then [Row_Empty] else rs)"

text \<open>The paired devices, with the live address of those that are also discovered, then the others.\<close>

definition device_rows :: "(string \<Rightarrow> bool) \<Rightarrow> paired_devices \<Rightarrow> store \<Rightarrow> slots \<Rightarrow> row list" where
  "device_rows is_v6 p s sl =
     Row_Header ''Paired'' #
     or_empty (map (\<lambda>(fp, pd).
         let d = device_by_fingerprint s fp
         in Row_Device \<lparr>dr_fingerprint = fp,
              dr_alias = (case d of Some d \<Rightarrow> single_line (lit (d_alias (device d)))
                          | None \<Rightarrow> single_line (pd_alias pd)),
              dr_slot = slot_get sl fp,
              dr_hosts = (case d of Some d \<Rightarrow> channel_hosts is_v6 d | None \<Rightarrow> []),
              dr_paired = True\<rparr>) (devices p)) @
     [Row_Spacer, Row_Header ''Discovered''] @
     or_empty (map (\<lambda>d. Row_Device \<lparr>dr_fingerprint = lit (d_fingerprint (device d)),
              dr_alias = single_line (lit (d_alias (device d))),
              dr_slot = slot_get sl (lit (d_fingerprint (device d))),
              dr_hosts = channel_hosts is_v6 d,
              dr_paired = False\<rparr>)
         (filter (\<lambda>d. \<not> contains p (lit (d_fingerprint (device d)))) s))"

record device_list =
  rows :: "row list"
  selected :: "nat option"

fun row_device :: "row \<Rightarrow> device_row option" where
  "row_device (Row_Device d) = Some d"
| "row_device _ = None"

text \<open>The positions of the device rows, with the devices.\<close>

definition device_positions :: "row list \<Rightarrow> (nat \<times> device_row) list" where
  "device_positions rs =
     List.map_filter (\<lambda>(i, r). map_option (Pair i) (row_device r)) (zip [0..<length rs] rs)"

definition selected_device :: "device_list \<Rightarrow> device_row option" where
  "selected_device l =
     (case selected l of
        None \<Rightarrow> None
      | Some i \<Rightarrow> if i < length (rows l) then row_device (rows l ! i) else None)"

definition select_first_device :: "device_list \<Rightarrow> device_list" where
  "select_first_device l =
     l\<lparr>selected := (case device_positions (rows l) of [] \<Rightarrow> None | (i, _) # _ \<Rightarrow> Some i)\<rparr>"

definition open_list :: "row list \<Rightarrow> device_list" where
  "open_list rs = select_first_device \<lparr>rows = rs, selected = None\<rparr>"

definition set_rows :: "row list \<Rightarrow> device_list \<Rightarrow> device_list" where
  "set_rows rs l =
     (let l' = l\<lparr>rows := rs\<rparr>
      in case Option.bind (selected_device l)
                (\<lambda>d. List.find (\<lambda>(_, e). dr_fingerprint e = dr_fingerprint d) (device_positions rs)) of
           Some (i, _) \<Rightarrow> l'\<lparr>selected := Some i\<rparr>
         | None \<Rightarrow> select_first_device l')"

definition index_of :: "'a \<Rightarrow> 'a list \<Rightarrow> nat option" where
  "index_of x xs = List.find (\<lambda>i. xs ! i = x) [0..<length xs]"

text \<open>\<open>rem_euclid\<close> is \<open>mod\<close> on the integers.\<close>

definition move_cursor :: "int \<Rightarrow> device_list \<Rightarrow> device_list" where
  "move_cursor delta l =
     (let indices = map fst (device_positions (rows l))
      in if indices = [] then l
         else let cursor = (case Option.bind (selected l) (\<lambda>s. index_of s indices) of
                              Some i \<Rightarrow> i | None \<Rightarrow> 0);
                  next_cursor = nat ((int cursor + delta) mod int (length indices))
              in l\<lparr>selected := Some (indices ! next_cursor)\<rparr>)"

datatype device_list_outcome =
    List_Open
  | List_Closed
  | List_Send rstring
  | List_Pair rstring
  | List_Unpair rstring

definition list_handle_key :: "key_event \<Rightarrow> device_list \<Rightarrow> device_list_outcome \<times> device_list" where
  "list_handle_key key l =
     (case key_code key of
        Key_Esc \<Rightarrow> (List_Closed, l)
      | Key_Up \<Rightarrow> (List_Open, move_cursor (- 1) l)
      | Key_Down \<Rightarrow> (List_Open, move_cursor 1 l)
      | Key_Enter \<Rightarrow>
          (case selected_device l of
             Some d \<Rightarrow> if dr_hosts d \<noteq> [] then (List_Send (dr_fingerprint d), l) else (List_Open, l)
           | None \<Rightarrow> (List_Open, l))
      | Key_Char c \<Rightarrow>
          if to_ascii_lowercase c = 100 then (List_Closed, l)
          else if to_ascii_lowercase c = 112
          then (case selected_device l of
                  Some d \<Rightarrow> ((if dr_paired d then List_Unpair (dr_fingerprint d)
                              else List_Pair (dr_fingerprint d)), l)
                | None \<Rightarrow> (List_Open, l))
          else (List_Open, l)
      | _ \<Rightarrow> (List_Open, l))"

section \<open>Facts on the list\<close>

lemma in_map_filter: "y \<in> set (List.map_filter f xs) \<longleftrightarrow> (\<exists>x \<in> set xs. f x = Some y)"
  by (induction xs) (auto simp: map_filter_simps split: option.split)

lemma device_positions_iff:
  "(i, d) \<in> set (device_positions rs) \<longleftrightarrow> i < length rs \<and> row_device (rs ! i) = Some d"
  by (auto simp: device_positions_def in_map_filter in_set_zip intro!: bexI [of _ "(i, rs ! i)"]
      exI [of _ i])

definition list_ok :: "device_list \<Rightarrow> bool" where
  "list_ok l \<longleftrightarrow>
     (case selected l of
        None \<Rightarrow> device_positions (rows l) = []
      | Some i \<Rightarrow> i < length (rows l) \<and> row_device (rows l ! i) \<noteq> None)"

lemma select_first_device_ok: "list_ok (select_first_device l)"
proof (cases "device_positions (rows l)")
  case (Cons p ps)
  then have "(fst p, snd p) \<in> set (device_positions (rows l))" by simp
  then have "fst p < length (rows l) \<and> row_device (rows l ! fst p) = Some (snd p)"
    by (simp only: device_positions_iff)
  then show ?thesis using Cons
    by (cases p) (simp add: select_first_device_def list_ok_def)
qed (simp add: select_first_device_def list_ok_def)

lemma set_rows_ok: "list_ok (set_rows rs l)"
proof (cases "Option.bind (selected_device l)
    (\<lambda>d. List.find (\<lambda>(_, e). dr_fingerprint e = dr_fingerprint d) (device_positions rs))")
  case None
  then show ?thesis using select_first_device_ok by (simp add: set_rows_def Let_def)
next
  case (Some p)
  obtain i e where p: "p = (i, e)" by (cases p)
  from Some have "p \<in> set (device_positions rs)"
    by (auto simp: bind_eq_Some_conv dest!: find_Some_in)
  then show ?thesis using Some by (simp add: set_rows_def list_ok_def p device_positions_iff)
qed

lemma move_cursor_ok: "list_ok l \<Longrightarrow> list_ok (move_cursor delta l)"
proof (cases "device_positions (rows l) = []")
  case False
  let ?indices = "map fst (device_positions (rows l))"
  define k where "k = nat ((int (case Option.bind (selected l) (\<lambda>s. index_of s ?indices) of
      Some i \<Rightarrow> i | None \<Rightarrow> 0) + delta) mod int (length (device_positions (rows l))))"
  have "0 < int (length (device_positions (rows l)))" using False by simp
  then have "k < length ?indices" unfolding k_def
    using pos_mod_bound pos_mod_sign by (simp add: nat_less_iff)
  then have "?indices ! k \<in> set ?indices" by (rule nth_mem)
  then obtain d where "(?indices ! k, d) \<in> set (device_positions (rows l))" by auto
  then show ?thesis
    using False unfolding device_positions_iff
    by (simp add: move_cursor_def list_ok_def Let_def flip: k_def)
qed (simp add: move_cursor_def)

text \<open>What happens to an open list: a key, or new rows from discovery and pairing.\<close>

datatype list_event = List_Key key_event | List_Rows "row list"

definition list_step :: "list_event \<Rightarrow> device_list \<Rightarrow> device_list" where
  "list_step e l = (case e of List_Key k \<Rightarrow> snd (list_handle_key k l) | List_Rows rs \<Rightarrow> set_rows rs l)"

lemma list_step_ok: "list_ok l \<Longrightarrow> list_ok (list_step e l)"
  by (auto simp: list_step_def list_handle_key_def set_rows_ok move_cursor_ok
      split: list_event.split key_code.split option.split)

lemma selected_device_ok:
  "list_ok l \<Longrightarrow> selected_device l = None \<longleftrightarrow> device_positions (rows l) = []"
  using device_positions_iff [of _ _ "rows l"]
  by (auto simp: list_ok_def selected_device_def split: option.splits)

text \<open>What a key may ask for: it concerns the highlighted device only.\<close>

definition offered_actions :: "device_list \<Rightarrow> device_list_outcome set" where
  "offered_actions l =
     {List_Open, List_Closed} \<union>
     (case selected_device l of
        None \<Rightarrow> {}
      | Some d \<Rightarrow> (if dr_hosts d = [] then {} else {List_Send (dr_fingerprint d)}) \<union>
                 {if dr_paired d then List_Unpair (dr_fingerprint d) else List_Pair (dr_fingerprint d)})"

lemma refresh_keeps_highlight:
  assumes "selected_device l = Some d" and "dr_fingerprint d \<in> dr_fingerprint ` snd ` set (device_positions rs)"
  shows "map_option dr_fingerprint (selected_device (set_rows rs l)) = Some (dr_fingerprint d)"
proof -
  have "List.find (\<lambda>(_, e). dr_fingerprint e = dr_fingerprint d) (device_positions rs) \<noteq> None"
    unfolding find_None_all using assms(2) by force
  then obtain i e where f: "List.find (\<lambda>(_, e). dr_fingerprint e = dr_fingerprint d) (device_positions rs) = Some (i, e)"
    by auto
  then have "(i, e) \<in> set (device_positions rs)" "dr_fingerprint e = dr_fingerprint d"
    by (auto dest: find_Some_in)
  then show ?thesis
    using assms(1) f by (simp add: set_rows_def selected_device_def [of "_ \<lparr>selected := _\<rparr>"] device_positions_iff)
qed

text \<open>
  The cursor of the device list never leaves the devices: whatever keys and refreshes come, a device
  is highlighted exactly when the list shows one. What a key asks for concerns that device: a send
  needs an address of it, pairing an unpaired one, unpairing a paired one.
\<close>

theorem device_list_cursor:
  "(selected_device (fold list_step events (open_list rs)) = None \<longleftrightarrow>
      device_positions (rows (fold list_step events (open_list rs))) = []) \<and>
   fst (list_handle_key key (fold list_step events (open_list rs)))
     \<in> offered_actions (fold list_step events (open_list rs))"
proof
  have "list_ok (fold list_step events l)" if "list_ok l" for l
    using that by (induction events arbitrary: l) (auto intro: list_step_ok)
  then have "list_ok (fold list_step events (open_list rs))"
    by (simp add: open_list_def select_first_device_ok)
  then show "selected_device (fold list_step events (open_list rs)) = None \<longleftrightarrow>
      device_positions (rows (fold list_step events (open_list rs))) = []"
    by (rule selected_device_ok)
  show "fst (list_handle_key key l) \<in> offered_actions l" for l
    by (auto simp: list_handle_key_def offered_actions_def split: key_code.split option.split)
qed

end
