(* ===== verification/Cli_App.thy ===== *)
theory Cli_App
  imports Cli_Devices Web_Download
begin

text \<open>
  The interactive command line application (\<open>app/mod.rs\<close>, \<open>app/receive.rs\<close>, \<open>app/sending.rs\<close>,
  \<open>app/web_link.rs\<close>, \<open>app/devices.rs\<close>, \<open>app/discovery.rs\<close>): one loop that handles one event after the
  other and owns all state. A handler is a function from the state to the next state and to what it does
  to the outside (\<open>effect\<close>), in order. What the outside answers at that moment (the discovery store, the
  file system, whether a request still waits, whether the server restarts) is the environment of the
  event. Log texts are values that hold what they print.
\<close>

section \<open>State\<close>

record sender_target =
  st_host :: peer_ip
  st_port :: u16
  st_protocol :: protocol_type
  st_fingerprint :: rstring

record pending_receive =
  pn_session :: string
  pn_alias :: rstring
  pn_sender :: sender_target
  pn_files :: "(string \<times> file_dto) list"

record receive_session =
  rs_session :: string
  rs_alias :: rstring
  rs_sender :: sender_target
  rs_files :: "(string \<times> file_dto) list"
  rs_total :: u64
  rs_finished :: nat
  rs_failed :: nat
  rs_finalized :: u64
  rs_in_progress :: "(string \<times> u64) list"
  rs_ended :: "session_end_reason option"

text \<open>\<open>ss_cancelled\<close> is the cancellation token, \<open>ss_by_peer\<close> the flag beside it.\<close>

record send_state =
  ss_session :: "string option"
  ss_alias :: rstring
  ss_host :: string
  ss_total :: u64
  ss_cancelled :: bool
  ss_by_peer :: bool

datatype link_mode = Link_Share "(string \<times> rstring) list" | Link_Receive

datatype server_mode = Mode_Tls | Mode_Download | Mode_Upload

datatype picker_target = To_Device rstring rstring | To_Web_Share

datatype picker_outcome = Picker_Open | Picker_Picked "rstring list" | Picker_Cancelled

datatype overlay = No_Overlay | Picker picker_target | Device_List device_list

text \<open>\<open>a_server\<close> is how the running server was started, \<open>None\<close> while it is stopped.\<close>

record app =
  a_web :: "link_mode option"
  a_server :: "server_mode option"
  a_chord :: bool
  a_slots :: slots
  a_paired :: paired_devices
  a_pending :: "pending_receive option"
  a_receive :: "receive_session option"
  a_send :: "send_state option"
  a_overlay :: overlay
  a_preselected :: "rstring list"
  a_exit_error :: bool

section \<open>Effects and the environment\<close>

datatype notice =
    N_Message rstring rstring
  | N_Request rstring nat "rstring list" bool
  | N_Aborted rstring
  | N_Server_Stopped string
  | N_Failed rstring rstring string
  | N_Received rstring nat u64 nat
  | N_Cancelled_By_Sender rstring nat nat
  | N_Cancelled rstring nat nat
  | N_Declined rstring
  | N_Accepted rstring
  | N_Paired rstring
  | N_Pairing_Not_Saved rstring
  | N_Unpaired rstring
  | N_Request_Ended rstring
  | N_Discovered "nat option" rstring string
  | N_No_Address rstring
  | N_No_Device nat
  | N_Browser peer_ip "string option"
  | N_Browser_Downloads string rstring
  | N_Text string

datatype effect =
    Decide string prepare_upload_decision
  | Confirm_Device string register_dto_v2
  | Notice notice
  | Save_At string string rstring
  | No_Free_Name
  | Cancel_V2_Session string sender_target
  | Restart server_mode
  | Start_Send stateful_device "(string \<times> file_dto \<times> rstring) list"
  | Allow_Download string
  | Serve_Download string rstring

text \<open>
  \<open>waiting\<close>: the sessions whose prepare-upload request still waits for a decision; \<open>on_disk_names\<close>: the
  files in the destination directory; \<open>collect\<close>: \<open>collect_files\<close> on the picked paths, with the id of each
  file, its metadata and its path; \<open>restart_error\<close>, \<open>save_error\<close>, \<open>screen_error\<close>: what fails.
\<close>

record env =
  show_peer :: "peer_ip \<Rightarrow> string"
  v6_host :: "string \<Rightarrow> bool"
  own_print :: rstring
  known :: store
  waiting :: "string \<Rightarrow> bool"
  naming :: rules
  on_disk_names :: "rstring \<Rightarrow> bool"
  collect :: "rstring list \<Rightarrow> (string \<times> file_dto \<times> rstring) list"
  restart_error :: "server_mode \<Rightarrow> string option"
  save_error :: "string option"
  screen_error :: "string option"
  picker_key :: "key_event \<Rightarrow> picker_outcome"

type_synonym reaction = "app \<times> effect list"

definition also_do :: "effect list \<Rightarrow> reaction \<Rightarrow> reaction" where
  "also_do es r = (fst r, es @ snd r)"

definition and_then :: "reaction \<Rightarrow> (app \<Rightarrow> reaction) \<Rightarrow> reaction" where
  "and_then r f = also_do (snd r) (f (fst r))"

lemma also_do_simps [simp]:
  "fst (also_do es r) = fst r" "snd (also_do es r) = es @ snd r"
  by (simp_all add: also_do_def)

lemma and_then_simps [simp]:
  "fst (and_then r f) = fst (f (fst r))" "snd (and_then r f) = snd r @ snd (f (fst r))"
  by (simp_all add: and_then_def)

section \<open>Receiving\<close>

text \<open>\<open>values().map(size).sum()\<close>; the sum wraps in a release build.\<close>

definition total_size :: "(string \<times> file_dto) list \<Rightarrow> u64" where
  "total_size files = sum_list (map (\<lambda>(_, f). size_of f) files)"

definition new_session ::
  "string \<Rightarrow> rstring \<Rightarrow> sender_target \<Rightarrow> (string \<times> file_dto) list \<Rightarrow> receive_session" where
  "new_session sid name sender files =
     \<lparr>rs_session = sid, rs_alias = name, rs_sender = sender, rs_files = files,
      rs_total = total_size files, rs_finished = 0, rs_failed = 0, rs_finalized = 0,
      rs_in_progress = [], rs_ended = None\<rparr>"

definition done_bytes :: "receive_session \<Rightarrow> u64" where
  "done_bytes s = rs_finalized s + sum_list (map snd (rs_in_progress s))"

definition message_of :: "(string \<times> file_dto) list \<Rightarrow> string option" where
  "message_of files =
     (case files of
        [(_, f)] \<Rightarrow> if file_type f \<noteq> ''text'' \<and> \<not> prefix ''text/'' (file_type f) then None else preview f
      | _ \<Rightarrow> None)"

definition MAX_LISTED_FILES :: nat where
  "MAX_LISTED_FILES = 20"

text \<open>The names in the prompt, the largest files first.\<close>

definition listed_names :: "(string \<times> file_dto) list \<Rightarrow> rstring list" where
  "listed_names files =
     map (\<lambda>f. single_line (file_name f))
       (take MAX_LISTED_FILES (sort_key (\<lambda>f. - int (unat (size_of f))) (map snd files)))"

definition device_confirmed :: "env \<Rightarrow> peer_ip \<Rightarrow> register_dto_v2 \<Rightarrow> effect list" where
  "device_confirmed env addr info =
     (if fingerprint info = own_print env then [] else [Confirm_Device (show_peer env addr) info])"

text \<open>The session is only kept if the decision still reached the request.\<close>

definition on_prepare_upload ::
  "env \<Rightarrow> string \<Rightarrow> peer_ip \<Rightarrow> register_dto_v2 \<Rightarrow> rstring option \<Rightarrow> (string \<times> file_dto) list \<Rightarrow> app \<Rightarrow> reaction" where
  "on_prepare_upload env sid addr info cert_fp files a =
     also_do (device_confirmed env addr info)
       (let name = single_line (lit (dto_alias info))
        in case message_of files of
             Some m \<Rightarrow>
               (a, [Decide sid (Accept []), Notice (N_Message name (multi_line (lit m)))])
           | None \<Rightarrow>
               (let sender = \<lparr>st_host = addr, st_port = port info, st_protocol = protocol info,
                      st_fingerprint = (case cert_fp of Some fp \<Rightarrow> fp | None \<Rightarrow> fingerprint info)\<rparr>
                in if contains (a_paired a) (st_fingerprint sender)
                   then (if waiting env sid
                         then a\<lparr>a_receive := Some (new_session sid name sender files)\<rparr> else a,
                         [Decide sid (Accept (map fst files))])
                   else (a\<lparr>a_pending := Some \<lparr>pn_session = sid, pn_alias = name, pn_sender = sender,
                             pn_files = files\<rparr>\<rparr>,
                         [Notice (N_Request name (length files) (listed_names files)
                            (a_web a \<noteq> Some Link_Receive))])))"

definition finish_receive_if_done :: "app \<Rightarrow> reaction" where
  "finish_receive_if_done a =
     (case a_receive a of
        None \<Rightarrow> (a, [])
      | Some s \<Rightarrow>
          (case rs_ended s of
             None \<Rightarrow> (a, [])
           | Some reason \<Rightarrow>
               if rs_in_progress s \<noteq> [] then (a, [])
               else (a\<lparr>a_receive := None\<rparr>,
                     [Notice (case reason of
                        Finished \<Rightarrow> N_Received (rs_alias s) (rs_finished s) (rs_finalized s) (rs_failed s)
                      | Cancelled \<Rightarrow> N_Cancelled_By_Sender (rs_alias s) (rs_finished s) (length (rs_files s)))])))"

text \<open>The session of the application, if it is the one meant.\<close>

definition session_of :: "app \<Rightarrow> string \<Rightarrow> receive_session option" where
  "session_of a sid =
     (case a_receive a of Some s \<Rightarrow> if rs_session s = sid then Some s else None | None \<Rightarrow> None)"

definition on_session_end :: "string \<Rightarrow> session_end_reason \<Rightarrow> app \<Rightarrow> reaction" where
  "on_session_end sid reason a =
     (case session_of a sid of
        None \<Rightarrow> (a, [])
      | Some s \<Rightarrow> finish_receive_if_done (a\<lparr>a_receive := Some (s\<lparr>rs_ended := Some reason\<rparr>)\<rparr>))"

definition handle_file_upload :: "env \<Rightarrow> string \<Rightarrow> string \<Rightarrow> file_dto \<Rightarrow> app \<Rightarrow> reaction" where
  "handle_file_upload env sid fid file a =
     (case session_of a sid of
        None \<Rightarrow> (a, [])
      | Some s \<Rightarrow>
          (a\<lparr>a_receive := Some (s\<lparr>rs_in_progress := AList.update fid 0 (rs_in_progress s)\<rparr>)\<rparr>,
           (case unique_path (naming env) (on_disk_names env) (file_name file) of
              Some p \<Rightarrow> [Save_At sid fid p]
            | None \<Rightarrow> [No_Free_Name])))"

text \<open>The task that stores the progress of a file.\<close>

definition on_progress :: "string \<Rightarrow> string \<Rightarrow> u64 \<Rightarrow> app \<Rightarrow> reaction" where
  "on_progress sid fid written a =
     (case session_of a sid of
        None \<Rightarrow> (a, [])
      | Some s \<Rightarrow>
          (a\<lparr>a_receive := Some (s\<lparr>rs_in_progress := AList.map_entry fid (\<lambda>_. written) (rs_in_progress s)\<rparr>)\<rparr>, []))"

definition receive_file_result :: "string \<Rightarrow> string \<Rightarrow> string + unit \<Rightarrow> app \<Rightarrow> reaction" where
  "receive_file_result sid fid result a =
     (case session_of a sid of
        None \<Rightarrow> (a, [])
      | Some s \<Rightarrow>
          (let s = s\<lparr>rs_in_progress := AList.delete fid (rs_in_progress s)\<rparr>
           in case result of
                Inr _ \<Rightarrow>
                  finish_receive_if_done (a\<lparr>a_receive := Some (s\<lparr>rs_finished := rs_finished s + 1,
                    rs_finalized := rs_finalized s +
                      (case map_of (rs_files s) fid of Some f \<Rightarrow> size_of f | None \<Rightarrow> 0)\<rparr>)\<rparr>)
              | Inl err \<Rightarrow>
                  also_do [Notice (N_Failed (rs_alias s)
                      (case map_of (rs_files s) fid of
                         Some f \<Rightarrow> single_line (file_name f)
                       | None \<Rightarrow> single_line (lit fid)) err)]
                    (finish_receive_if_done (a\<lparr>a_receive := Some (s\<lparr>rs_failed := rs_failed s + 1\<rparr>)\<rparr>))))"

definition on_aborted :: "string \<Rightarrow> app \<Rightarrow> reaction" where
  "on_aborted sid a =
     (case a_pending a of
        Some p \<Rightarrow> if pn_session p = sid then (a\<lparr>a_pending := None\<rparr>, [Notice (N_Aborted (pn_alias p))])
                  else (a, [])
      | None \<Rightarrow> (a, []))"

definition cancel_by_peer :: "env \<Rightarrow> peer_ip \<Rightarrow> string \<Rightarrow> app \<Rightarrow> reaction" where
  "cancel_by_peer env addr sid a =
     (case a_send a of
        Some t \<Rightarrow> if ss_session t = Some sid \<and> ss_host t = show_peer env addr
                  then (a\<lparr>a_send := Some (t\<lparr>ss_by_peer := True, ss_cancelled := True\<rparr>)\<rparr>, [])
                  else (a, [])
      | None \<Rightarrow> (a, []))"

definition handle_server_event :: "env \<Rightarrow> server_event \<Rightarrow> app \<Rightarrow> reaction" where
  "handle_server_event env e a =
     (case e of
        Register addr info \<Rightarrow> (a, device_confirmed env addr info)
      | PrepareUpload sid addr info cert_fp files \<Rightarrow> on_prepare_upload env sid addr info cert_fp files a
      | FileUpload sid fid file \<Rightarrow> handle_file_upload env sid fid file a
      | SessionEnd sid reason \<Rightarrow> on_session_end sid reason a
      | PrepareUploadAborted sid \<Rightarrow> on_aborted sid a
      | CancelReceived addr sid \<Rightarrow> cancel_by_peer env addr sid a
      | ListenerFailed err \<Rightarrow> (a, [Notice (N_Server_Stopped err)]))"

definition cancel_receive :: "app \<Rightarrow> reaction" where
  "cancel_receive a =
     (case a_receive a of
        None \<Rightarrow> (a, [])
      | Some s \<Rightarrow>
          (a\<lparr>a_receive := None\<rparr>,
           [Cancel_V2_Session (rs_session s) (rs_sender s),
            Notice (N_Cancelled (rs_alias s) (rs_finished s) (length (rs_files s)))]))"

definition pair_sender :: "env \<Rightarrow> pending_receive \<Rightarrow> app \<Rightarrow> reaction" where
  "pair_sender env p a =
     (let fp = st_fingerprint (pn_sender p);
          chans = (case device_by_fingerprint (known env) fp of
                     Some d \<Rightarrow> channels_of (v6_host env) d | None \<Rightarrow> [])
      in case paired_insert (save_error env) fp (pn_alias p) chans (a_paired a) of
           (r, paired) \<Rightarrow>
             (a\<lparr>a_paired := paired\<rparr>,
              [Notice (case r of Inr _ \<Rightarrow> N_Paired (pn_alias p) | Inl _ \<Rightarrow> N_Pairing_Not_Saved (pn_alias p))]))"

definition answer_pending :: "env \<Rightarrow> answer \<Rightarrow> app \<Rightarrow> reaction" where
  "answer_pending env ans a =
     (case a_pending a of
        None \<Rightarrow> (a, [])
      | Some p \<Rightarrow>
          (let a = a\<lparr>a_pending := None\<rparr>
           in if ans = Answer_Decline
              then (a, [Decide (pn_session p) Decline, Notice (N_Declined (pn_alias p))])
              else also_do [Notice (N_Accepted (pn_alias p))]
                (and_then
                  (if ans = Answer_Accept_And_Pair \<and> a_web a \<noteq> Some Link_Receive
                   then pair_sender env p a else (a, []))
                  (\<lambda>a. also_do [Decide (pn_session p) (Accept (map fst (pn_files p)))]
                     (if waiting env (pn_session p)
                      then (a\<lparr>a_receive := Some (new_session (pn_session p) (pn_alias p) (pn_sender p)
                               (pn_files p))\<rparr>, [])
                      else (a, [Notice (N_Request_Ended (pn_alias p))]))))))"

section \<open>Web links\<close>

text \<open>The old server is stopped first; if the new one does not start, none runs. The flag: it started.\<close>

definition restart_server :: "env \<Rightarrow> server_mode \<Rightarrow> app \<Rightarrow> bool \<times> reaction" where
  "restart_server env mode a =
     (case restart_error env mode of
        None \<Rightarrow> (True, a\<lparr>a_server := Some mode\<rparr>, [Restart mode])
      | Some e \<Rightarrow> (False, a\<lparr>a_server := None\<rparr>, [Restart mode]))"

definition disable_web :: "env \<Rightarrow> app \<Rightarrow> reaction" where
  "disable_web env a =
     (case restart_server env Mode_Tls (a\<lparr>a_web := None\<rparr>) of
        (True, a, es) \<Rightarrow> (a, es @ [Notice (N_Text ''disabled, encryption is back on'')])
      | (False, a, es) \<Rightarrow> (a, es @ [Notice (N_Text ''disabled, but the server could not be restarted'')]))"

definition restore_encrypted_server :: "env \<Rightarrow> app \<Rightarrow> reaction" where
  "restore_encrypted_server env a =
     (case restart_server env Mode_Tls a of
        (True, r) \<Rightarrow> r
      | (False, a, es) \<Rightarrow> (a, es @ [Notice (N_Text ''Could not restore the encrypted server'')]))"

definition enable_web_share :: "env \<Rightarrow> rstring list \<Rightarrow> app \<Rightarrow> reaction" where
  "enable_web_share env picked a =
     (let files = collect env picked
      in if files = [] then (a, [Notice (N_Text ''No files selected'')])
         else case restart_server env Mode_Download a of
           (True, a, es) \<Rightarrow>
             (a\<lparr>a_web := Some (Link_Share (map (\<lambda>(i, _, p). (i, p)) files))\<rparr>,
              es @ [Notice (N_Text ''Share via link enabled'')])
         | (False, a, es) \<Rightarrow>
             also_do (es @ [Notice (N_Text ''Share via link: could not restart the server'')])
               (restore_encrypted_server env a))"

definition close_overlay :: "app \<Rightarrow> app" where
  "close_overlay a = a\<lparr>a_overlay := No_Overlay\<rparr>"

definition open_picker :: "env \<Rightarrow> picker_target \<Rightarrow> app \<Rightarrow> reaction" where
  "open_picker env target a =
     (if (case target of To_Device _ _ \<Rightarrow> True | To_Web_Share \<Rightarrow> False) \<and> a_send a \<noteq> None
      then (close_overlay a, [Notice (N_Text ''A send is already in progress'')])
      else case screen_error env of
             None \<Rightarrow> (a\<lparr>a_overlay := Picker target\<rparr>, [])
           | Some e \<Rightarrow> (a\<lparr>a_overlay := No_Overlay\<rparr>, [Notice (N_Text ''Could not open the file picker'')]))"

definition toggle_web_share :: "env \<Rightarrow> app \<Rightarrow> reaction" where
  "toggle_web_share env a =
     (case a_web a of
        Some (Link_Share _) \<Rightarrow> disable_web env a
      | Some Link_Receive \<Rightarrow>
          (a, [Notice (N_Text ''Receive via link is active, press W+R to stop it first'')])
      | None \<Rightarrow>
          if a_pending a \<noteq> None \<or> a_receive a \<noteq> None
          then (a, [Notice (N_Text ''Share via link: not while a receive is active'')])
          else if a_preselected a = [] then open_picker env To_Web_Share a
          else enable_web_share env (a_preselected a) a)"

definition toggle_web_receive :: "env \<Rightarrow> app \<Rightarrow> reaction" where
  "toggle_web_receive env a =
     (case a_web a of
        Some Link_Receive \<Rightarrow> disable_web env a
      | Some (Link_Share _) \<Rightarrow>
          (a, [Notice (N_Text ''Share via link is active, press W+S to stop it first'')])
      | None \<Rightarrow>
          if a_pending a \<noteq> None \<or> a_receive a \<noteq> None
          then (a, [Notice (N_Text ''Receive via link: not while a receive is active'')])
          else case restart_server env Mode_Upload a of
                 (True, a, es) \<Rightarrow>
                   (a\<lparr>a_web := Some Link_Receive\<rparr>, es @ [Notice (N_Text ''Receive via link enabled'')])
               | (False, a, es) \<Rightarrow>
                   also_do (es @ [Notice (N_Text ''Receive via link: could not restart the server'')])
                     (restore_encrypted_server env a))"

definition handle_web_event :: "web_event \<Rightarrow> app \<Rightarrow> reaction" where
  "handle_web_event e a =
     (case e of
        PrepareDownload addr sid agent \<Rightarrow> (a, [Allow_Download sid, Notice (N_Browser addr agent)])
      | FileDownload sid fid file \<Rightarrow>
          (case a_web a of
             Some (Link_Share paths) \<Rightarrow>
               (case map_of paths fid of
                  Some p \<Rightarrow> (a, [Serve_Download fid p, Notice (N_Browser_Downloads sid (file_name file))])
                | None \<Rightarrow> (a, []))
           | _ \<Rightarrow> (a, [])))"

section \<open>Sending\<close>

text \<open>The state of a new transfer with the files to send, or why it cannot start.\<close>

definition spawn_send ::
  "env \<Rightarrow> stateful_device \<Rightarrow> rstring list \<Rightarrow> notice + send_state \<times> (string \<times> file_dto \<times> rstring) list" where
  "spawn_send env d picked =
     (let name = single_line (lit (d_alias (device d)))
      in case get_best_channel (v6_host env) d of
           None \<Rightarrow> Inl (N_No_Address name)
         | Some c \<Rightarrow>
             (let files = collect env picked
              in if files = [] then Inl (N_Text ''No files selected'')
                 else Inr (\<lparr>ss_session = None, ss_alias = name, ss_host = host (http_of c),
                            ss_total = total_size (map (\<lambda>(i, f, _). (i, f)) files),
                            ss_cancelled = False, ss_by_peer = False\<rparr>, files)))"

definition start_send :: "env \<Rightarrow> rstring \<Rightarrow> rstring list \<Rightarrow> app \<Rightarrow> reaction" where
  "start_send env fp picked a =
     (if a_send a \<noteq> None then (a, [Notice (N_Text ''A send is already in progress'')])
      else case device_by_fingerprint (known env) fp of
             None \<Rightarrow> (a, [])
           | Some d \<Rightarrow>
               (case spawn_send env d picked of
                  Inr (state, files) \<Rightarrow> (a\<lparr>a_send := Some state\<rparr>, [Start_Send d files])
                | Inl reason \<Rightarrow> (a, [Notice reason])))"

definition device_target :: "stateful_device \<Rightarrow> picker_target" where
  "device_target d = To_Device (lit (d_fingerprint (device d))) (single_line (lit (d_alias (device d))))"

definition start_picking :: "env \<Rightarrow> nat \<Rightarrow> app \<Rightarrow> reaction" where
  "start_picking env slot a =
     (case Option.bind (fingerprint_by_slot (a_slots a) slot) (device_by_fingerprint (known env)) of
        None \<Rightarrow> (a, [Notice (N_No_Device slot)])
      | Some d \<Rightarrow>
          if a_preselected a \<noteq> [] then start_send env (lit (d_fingerprint (device d))) (a_preselected a) a
          else open_picker env (device_target d) a)"

definition handle_picker_key :: "env \<Rightarrow> key_event \<Rightarrow> picker_target \<Rightarrow> app \<Rightarrow> reaction" where
  "handle_picker_key env key target a =
     (case picker_key env key of
        Picker_Open \<Rightarrow> (a, [])
      | Picker_Picked files \<Rightarrow>
          (case target of
             To_Device fp _ \<Rightarrow> start_send env fp files (close_overlay a)
           | To_Web_Share \<Rightarrow> enable_web_share env files (close_overlay a))
      | Picker_Cancelled \<Rightarrow> (close_overlay a, []))"

section \<open>Devices and discovery\<close>

definition rows_now :: "env \<Rightarrow> app \<Rightarrow> row list" where
  "rows_now env a = device_rows (v6_host env) (a_paired a) (known env) (a_slots a)"

definition refresh_list :: "env \<Rightarrow> app \<Rightarrow> app" where
  "refresh_list env a =
     (case a_overlay a of
        Device_List l \<Rightarrow> a\<lparr>a_overlay := Device_List (set_rows (rows_now env a) l)\<rparr>
      | _ \<Rightarrow> a)"

definition open_device_list :: "env \<Rightarrow> app \<Rightarrow> reaction" where
  "open_device_list env a =
     (case screen_error env of
        None \<Rightarrow> (a\<lparr>a_overlay := Device_List (open_list (rows_now env a))\<rparr>, [])
      | Some e \<Rightarrow> (a, [Notice (N_Text ''Could not open the device list'')]))"

definition pair :: "env \<Rightarrow> rstring \<Rightarrow> app \<Rightarrow> reaction" where
  "pair env fp a =
     (case device_by_fingerprint (known env) fp of
        None \<Rightarrow> (a, [])
      | Some d \<Rightarrow>
          (let name = single_line (lit (d_alias (device d)))
           in case paired_insert (save_error env) fp name (channels_of (v6_host env) d) (a_paired a) of
                (r, paired) \<Rightarrow>
                  (refresh_list env (a\<lparr>a_paired := paired\<rparr>),
                   [Notice (case r of Inr _ \<Rightarrow> N_Paired name | Inl _ \<Rightarrow> N_Pairing_Not_Saved name)])))"

definition unpair :: "env \<Rightarrow> rstring \<Rightarrow> app \<Rightarrow> reaction" where
  "unpair env fp a =
     (case paired_remove (save_error env) fp (a_paired a) of
        (r, paired) \<Rightarrow>
          (refresh_list env (a\<lparr>a_paired := paired\<rparr>),
           (case r of
              Inr (Some d) \<Rightarrow> [Notice (N_Unpaired (single_line (pd_alias d)))]
            | Inr None \<Rightarrow> []
            | Inl _ \<Rightarrow> [Notice (N_Text ''Unpaired for this run, but saving failed'')])))"

definition handle_device_list_key :: "env \<Rightarrow> key_event \<Rightarrow> device_list \<Rightarrow> app \<Rightarrow> bool \<times> reaction" where
  "handle_device_list_key env key l a =
     (case list_handle_key key l of
        (asked, l) \<Rightarrow>
          (let a = a\<lparr>a_overlay := Device_List l\<rparr>
           in case asked of
                List_Open \<Rightarrow> (False, a, [])
              | List_Closed \<Rightarrow> (a_preselected a \<noteq> [], close_overlay a, [])
              | List_Send fp \<Rightarrow>
                  (False,
                   (case (a_preselected a = [], device_by_fingerprint (known env) fp) of
                      (True, Some d) \<Rightarrow> open_picker env (device_target d) a
                    | _ \<Rightarrow>
                        (if a_preselected a \<noteq> [] then start_send env fp (a_preselected a) (close_overlay a)
                         else (close_overlay a, []))))
              | List_Pair fp \<Rightarrow> (False, pair env fp a)
              | List_Unpair fp \<Rightarrow> (False, unpair env fp a)))"

definition discovered_host :: "discovered_device \<Rightarrow> string" where
  "discovered_host d = channel_host (d_channel d)"

definition handle_discovery :: "env \<Rightarrow> discovery_event \<Rightarrow> app \<Rightarrow> reaction" where
  "handle_discovery env e a =
     (let refreshed = (\<lambda>d. case refresh_paired_channels (v6_host env) (known env) (save_error env)
              (lit (d_fingerprint d)) (a_paired a) of
            (r, paired) \<Rightarrow> (a\<lparr>a_paired := paired\<rparr>,
               case r of Inr _ \<Rightarrow> [] | Inl _ \<Rightarrow> [Notice (N_Text ''Could not save the paired devices'')]))
      in case e of
           MulticastFailed \<Rightarrow>
             (a, [Notice (N_Text ''Multicast stopped, no longer hearing announcements'')])
         | Updated d \<Rightarrow> refreshed d
         | Discovered d \<Rightarrow>
             and_then (refreshed d)
               (\<lambda>a. case assign (a_slots a) (lit (d_fingerprint d)) of
                  (slot, sl) \<Rightarrow>
                    (a\<lparr>a_slots := sl\<rparr>,
                     if a_web a = Some Link_Receive then []
                     else [Notice (N_Discovered slot (single_line (lit (d_alias d))) (discovered_host d))])))"

section \<open>The loop\<close>

definition handle_ctrl_c :: "env \<Rightarrow> app \<Rightarrow> bool \<times> reaction" where
  "handle_ctrl_c env a =
     (case a_overlay a of
        Picker _ \<Rightarrow> (False, close_overlay a, [])
      | Device_List _ \<Rightarrow> (a_preselected a \<noteq> [], close_overlay a, [])
      | No_Overlay \<Rightarrow>
          (a_pending a = None \<and> a_send a = None \<and> a_receive a = None,
           and_then
             (and_then
               (if a_pending a \<noteq> None then answer_pending env Answer_Decline a else (a, []))
               (\<lambda>a. (case a_send a of
                       Some t \<Rightarrow> a\<lparr>a_send := Some (t\<lparr>ss_cancelled := True\<rparr>)\<rparr>
                     | None \<Rightarrow> a, [])))
             (\<lambda>a. if a_receive a \<noteq> None then cancel_receive a else (a, []))))"

definition handle_intent :: "env \<Rightarrow> intent \<Rightarrow> app \<Rightarrow> bool \<times> reaction" where
  "handle_intent env i a =
     (case i of
        Intent_Cancel \<Rightarrow> handle_ctrl_c env a
      | Intent_Overlay key \<Rightarrow>
          (case a_overlay a of
             Picker target \<Rightarrow> (False, handle_picker_key env key target a)
           | Device_List l \<Rightarrow> handle_device_list_key env key l a
           | No_Overlay \<Rightarrow> (False, a, []))
      | Toggle_Web_Share \<Rightarrow> (False, toggle_web_share env a)
      | Toggle_Web_Receive \<Rightarrow> (False, toggle_web_receive env a)
      | Intent_Answer ans \<Rightarrow> (False, answer_pending env ans a)
      | Open_Device_List \<Rightarrow> (False, open_device_list env a)
      | Pick_Device slot \<Rightarrow> (False, start_picking env slot a))"

definition handle_key :: "env \<Rightarrow> key_event \<Rightarrow> app \<Rightarrow> bool \<times> reaction" where
  "handle_key env key a =
     (case decode (a_chord a) key (a_overlay a \<noteq> No_Overlay) of
        (i, chord) \<Rightarrow>
          (let a = a\<lparr>a_chord := chord\<rparr>
           in case i of Some i \<Rightarrow> handle_intent env i a | None \<Rightarrow> (False, a, [])))"

datatype app_event =
    Ev_Key key_event
  | Ev_Server server_event
  | Ev_Web web_event
  | Ev_Discovery discovery_event
  | Ev_Tick
  | Ev_File_Result string string "string + unit"
  | Ev_Progress string string u64
  | Ev_Send_Started string u64
  | Ev_Send_Ended bool
  | Ev_Discovery_Finished
  | Ev_Log string

text \<open>The flag tells to quit.\<close>

definition app_dispatch :: "env \<Rightarrow> app_event \<Rightarrow> app \<Rightarrow> bool \<times> reaction" where
  "app_dispatch env e a =
     (case e of
        Ev_Key key \<Rightarrow> handle_key env key a
      | Ev_Server e \<Rightarrow> (False, handle_server_event env e a)
      | Ev_Web e \<Rightarrow> (False, handle_web_event e a)
      | Ev_Discovery e \<Rightarrow> (False, handle_discovery env e a)
      | Ev_Tick \<Rightarrow> (False, refresh_list env a, [])
      | Ev_File_Result sid fid result \<Rightarrow> (False, receive_file_result sid fid result a)
      | Ev_Progress sid fid written \<Rightarrow> (False, on_progress sid fid written a)
      | Ev_Send_Started sid accepted \<Rightarrow>
          (False,
           (case a_send a of
              Some t \<Rightarrow> a\<lparr>a_send := Some (t\<lparr>ss_session := Some sid, ss_total := accepted\<rparr>)\<rparr>
            | None \<Rightarrow> a), [])
      | Ev_Send_Ended success \<Rightarrow>
          (a_preselected a \<noteq> [],
           a\<lparr>a_send := None,
             a_exit_error := a_exit_error a \<or> (\<not> success \<and> a_preselected a \<noteq> [])\<rparr>, [])
      | Ev_Discovery_Finished \<Rightarrow> (False, a, [])
      | Ev_Log text \<Rightarrow> (False, a, [Notice (N_Text text)]))"

text \<open>The start: in \<open>send\<close> mode the device list is opened at once.\<close>

definition start_app :: "env \<Rightarrow> paired_devices \<Rightarrow> rstring list \<Rightarrow> reaction" where
  "start_app env paired picked =
     (let a = \<lparr>a_web = None, a_server = Some Mode_Tls, a_chord = False, a_slots = [], a_paired = paired,
               a_pending = None, a_receive = None, a_send = None, a_overlay = No_Overlay,
               a_preselected = picked, a_exit_error = False\<rparr>
      in if picked = [] then (a, []) else open_device_list env a)"

text \<open>The events of a run, each with its environment, until one quits; with all effects.\<close>

fun run_app :: "(env \<times> app_event) list \<Rightarrow> app \<Rightarrow> app \<times> effect list" where
  "run_app [] a = (a, [])"
| "run_app ((env, e) # es) a =
     (case app_dispatch env e a of
        (True, r) \<Rightarrow> r
      | (False, a, out) \<Rightarrow> (case run_app es a of (b, more_out) \<Rightarrow> (b, out @ more_out)))"

end
