(* ===== verification/Cli_App_Safety.thy ===== *)
theory Cli_App_Safety
  imports Cli_App
begin

text \<open>
  What holds of every event the interactive application handles, and of every run: what is accepted and
  for whom, what is paired, when the server runs without encryption and when it is restarted, and what
  cancelling does.
\<close>

section \<open>Decisions\<close>

definition accepts :: "effect list \<Rightarrow> (string \<times> string list) set" where
  "accepts es = {(sid, ids). Decide sid (Accept ids) \<in> set es}"

lemma accepts_simps [simp]:
  "accepts [] = {}"
  "accepts (Decide sid (Accept ids) # es) = insert (sid, ids) (accepts es)"
  "accepts (Decide sid Decline # es) = accepts es"
  "accepts (Notice n # es) = accepts es"
  "accepts (Confirm_Device h i # es) = accepts es"
  "accepts (Save_At sid fid p # es) = accepts es"
  "accepts (No_Free_Name # es) = accepts es"
  "accepts (Cancel_V2_Session sid t # es) = accepts es"
  "accepts (Restart m # es) = accepts es"
  "accepts (Start_Send d fs # es) = accepts es"
  "accepts (Allow_Download sid # es) = accepts es"
  "accepts (Serve_Download fid p # es) = accepts es"
  "accepts (xs @ ys) = accepts xs \<union> accepts ys"
  by (auto simp: accepts_def)

lemmas web_ops = disable_web_def restore_encrypted_server_def enable_web_share_def restart_server_def
  toggle_web_share_def toggle_web_receive_def open_picker_def close_overlay_def

lemmas device_ops = pair_def unpair_def open_device_list_def handle_device_list_key_def start_send_def
  start_picking_def handle_picker_key_def

lemmas receive_ops = on_session_end_def handle_file_upload_def on_progress_def receive_file_result_def
  on_aborted_def cancel_by_peer_def cancel_receive_def Let_def

lemma accepts_web [simp]:
  "accepts (snd (disable_web env a)) = {}"
  "accepts (snd (restore_encrypted_server env a)) = {}"
  "accepts (snd (enable_web_share env picked a)) = {}"
  "accepts (snd (open_picker env target a)) = {}"
  "accepts (snd (toggle_web_share env a)) = {}"
  "accepts (snd (toggle_web_receive env a)) = {}"
  by (auto simp: web_ops Let_def split: option.split link_mode.split)

lemma accepts_devices [simp]:
  "accepts (snd (start_send env fp picked a)) = {}"
  "accepts (snd (start_picking env slot a)) = {}"
  "accepts (snd (handle_picker_key env key target a)) = {}"
  "accepts (snd (pair env fp a)) = {}"
  "accepts (snd (unpair env fp a)) = {}"
  "accepts (snd (open_device_list env a)) = {}"
  "accepts (snd (snd (handle_device_list_key env key l a))) = {}"
  by (auto simp: device_ops Let_def split: option.split picker_outcome.split picker_target.split
      sum.split prod.split device_list_outcome.split)

lemma accepts_discovery [simp]: "accepts (snd (handle_discovery env e a)) = {}"
  by (auto simp: handle_discovery_def Let_def split: discovery_event.split prod.split sum.split)

lemma accepts_web_event [simp]: "accepts (snd (handle_web_event e a)) = {}"
  by (auto simp: handle_web_event_def split: web_event.split option.split link_mode.split)

lemma accepts_finish [simp]: "accepts (snd (finish_receive_if_done a)) = {}"
  by (auto simp: finish_receive_if_done_def split: option.split session_end_reason.split)

lemma accepts_receive [simp]:
  "accepts (snd (on_session_end sid reason a)) = {}"
  "accepts (snd (handle_file_upload env sid fid file a)) = {}"
  "accepts (snd (on_progress sid fid written a)) = {}"
  "accepts (snd (receive_file_result sid fid result a)) = {}"
  "accepts (snd (on_aborted sid a)) = {}"
  "accepts (snd (cancel_by_peer env addr sid a)) = {}"
  "accepts (snd (cancel_receive a)) = {}"
  by (auto simp: receive_ops split: option.split sum.split)

lemma accepts_confirmed [simp]: "accepts (device_confirmed env addr info) = {}"
  by (simp add: device_confirmed_def)

text \<open>The fingerprint a request is attributed to: that of the certificate, or the one it claims.\<close>

definition attributed :: "rstring option \<Rightarrow> register_dto_v2 \<Rightarrow> rstring" where
  "attributed cert_fp info = (case cert_fp of Some fp \<Rightarrow> fp | None \<Rightarrow> fingerprint info)"

lemma accepts_prepare_upload:
  "accepts (snd (on_prepare_upload env sid addr info cert_fp files a)) =
     (if message_of files \<noteq> None then {(sid, [])}
      else if contains (a_paired a) (attributed cert_fp info) then {(sid, map fst files)} else {})"
  by (auto simp: on_prepare_upload_def Let_def attributed_def split: option.split)

lemma accepts_server_event:
  "accepts (snd (handle_server_event env e a)) =
     (case e of
        PrepareUpload sid addr info cert_fp files \<Rightarrow>
          accepts (snd (on_prepare_upload env sid addr info cert_fp files a))
      | _ \<Rightarrow> {})"
  by (simp add: handle_server_event_def split: server_event.split)

lemma accepts_pair_sender [simp]: "accepts (snd (pair_sender env p a)) = {}"
  by (auto simp: pair_sender_def Let_def split: option.split prod.split sum.split)

lemma accepts_answer:
  "accepts (snd (answer_pending env ans a)) =
     (case a_pending a of
        None \<Rightarrow> {}
      | Some p \<Rightarrow> if ans = Answer_Decline then {} else {(pn_session p, map fst (pn_files p))})"
  by (auto simp: answer_pending_def Let_def split: option.split)

lemma accepts_ctrl_c [simp]: "accepts (snd (snd (handle_ctrl_c env a))) = {}"
  by (auto simp: handle_ctrl_c_def accepts_answer split: overlay.split option.split)

lemma accepts_intent:
  "accepts (snd (snd (handle_intent env i a))) =
     (case i of Intent_Answer ans \<Rightarrow> accepts (snd (answer_pending env ans a)) | _ \<Rightarrow> {})"
  by (simp add: handle_intent_def split: intent.split overlay.split)

text \<open>The keys that say yes: \<open>Y\<close> and \<open>P\<close>.\<close>

definition says_yes :: "key_event \<Rightarrow> bool" where
  "says_yes key \<longleftrightarrow> char_of_key key = Some 121 \<or> char_of_key key = Some 112"

lemma decode_answer:
  "(\<exists>ans. ans \<noteq> Answer_Decline \<and> fst (decode chord key overlay_open) = Some (Intent_Answer ans)) \<longleftrightarrow>
   \<not> overlay_open \<and> says_yes key"
  by (cases "key_code key") (auto simp: decode_def says_yes_def Let_def)

lemma accepts_key:
  "accepts (snd (snd (handle_key env key a))) =
     (case a_pending a of
        None \<Rightarrow> {}
      | Some p \<Rightarrow> if a_overlay a = No_Overlay \<and> says_yes key
                  then {(pn_session p, map fst (pn_files p))} else {})"
proof (cases "fst (decode (a_chord a) key (a_overlay a \<noteq> No_Overlay))")
  case None
  then show ?thesis
    using decode_answer [of "a_chord a" key "a_overlay a \<noteq> No_Overlay"]
    by (auto simp: handle_key_def split: prod.split option.split)
next
  case (Some i)
  then show ?thesis
    using decode_answer [of "a_chord a" key "a_overlay a \<noteq> No_Overlay"]
    by (auto simp: handle_key_def accepts_intent accepts_answer Let_def split: prod.split option.split intent.split)
qed

text \<open>What may be accepted at an event: a message, the files of a paired sender, or what the user affirms.\<close>

definition consented :: "app \<Rightarrow> app_event \<Rightarrow> (string \<times> string list) set" where
  "consented a e =
     (case e of
        Ev_Server (PrepareUpload sid addr info cert_fp files) \<Rightarrow>
          if message_of files \<noteq> None then {(sid, [])}
          else if contains (a_paired a) (attributed cert_fp info) then {(sid, map fst files)} else {}
      | Ev_Key key \<Rightarrow>
          (case a_pending a of
             Some p \<Rightarrow> if a_overlay a = No_Overlay \<and> says_yes key
                       then {(pn_session p, map fst (pn_files p))} else {}
           | None \<Rightarrow> {})
      | _ \<Rightarrow> {})"


section \<open>Encryption and web links\<close>

definition app_step :: "app \<Rightarrow> app \<Rightarrow> bool" where
  "app_step a b \<longleftrightarrow> (\<exists>env e. b = fst (snd (app_dispatch env e a)))"

definition app_started :: "app \<Rightarrow> bool" where
  "app_started a \<longleftrightarrow> (\<exists>env paired picked. a = fst (start_app env paired picked))"

text \<open>How the server may run under a link: encrypted or not at all without one.\<close>

fun servers_under :: "link_mode option \<Rightarrow> server_mode option set" where
  "servers_under None = {None, Some Mode_Tls}"
| "servers_under (Some (Link_Share _)) = {Some Mode_Download}"
| "servers_under (Some Link_Receive) = {Some Mode_Upload}"

definition link_ok :: "app \<Rightarrow> bool" where
  "link_ok a \<longleftrightarrow> a_server a \<in> servers_under (a_web a) \<and>
     (a_overlay a = Picker To_Web_Share \<longrightarrow> a_web a = None)"

text \<open>Operations that touch neither the link nor the server and open no picker for sharing.\<close>

definition same_link :: "app \<Rightarrow> app \<Rightarrow> bool" where
  "same_link a b \<longleftrightarrow> a_web b = a_web a \<and> a_server b = a_server a \<and>
     (a_overlay b = Picker To_Web_Share \<longrightarrow> a_overlay a = Picker To_Web_Share)"

lemma same_link_ok: "same_link a b \<Longrightarrow> link_ok a \<Longrightarrow> link_ok b"
  by (auto simp: same_link_def link_ok_def)

lemma same_link_refl [simp]: "same_link a a"
  by (simp add: same_link_def)

lemma same_link_trans: "same_link a b \<Longrightarrow> same_link b c \<Longrightarrow> same_link a c"
  by (auto simp: same_link_def)

lemma same_link_receive [simp]:
  "same_link a (fst (finish_receive_if_done a))"
  "same_link a (fst (on_session_end sid reason a))"
  "same_link a (fst (handle_file_upload env sid fid file a))"
  "same_link a (fst (on_progress sid fid written a))"
  "same_link a (fst (receive_file_result sid fid result a))"
  "same_link a (fst (on_aborted sid a))"
  "same_link a (fst (cancel_by_peer env addr sid a))"
  "same_link a (fst (cancel_receive a))"
  "same_link a (fst (on_prepare_upload env sid addr info cert_fp files a))"
  "same_link a (fst (pair_sender env p a))"
  by (auto simp: same_link_def receive_ops finish_receive_if_done_def on_prepare_upload_def pair_sender_def
      split: option.split sum.split prod.split session_end_reason.split)

lemma same_link_answer [simp]: "same_link a (fst (answer_pending env ans a))"
  by (auto simp: same_link_def answer_pending_def pair_sender_def Let_def split: option.split prod.split)

lemma same_link_server_event [simp]: "same_link a (fst (handle_server_event env e a))"
  by (simp add: handle_server_event_def split: server_event.split)

lemma same_link_devices [simp]:
  "same_link a (refresh_list env a)"
  "same_link a (close_overlay a)"
  "same_link a (fst (start_send env fp picked a))"
  "same_link a (fst (open_picker env (device_target d) a))"
  "same_link a (fst (start_picking env slot a))"
  "same_link a (fst (pair env fp a))"
  "same_link a (fst (unpair env fp a))"
  "same_link a (fst (open_device_list env a))"
  by (auto simp: same_link_def refresh_list_def device_ops device_target_def open_picker_def close_overlay_def Let_def
      split: overlay.split option.split prod.split sum.split)

lemma same_link_list_key [simp]: "same_link a (fst (snd (handle_device_list_key env key l a)))"
proof -
  obtain asked l' where asked: "list_handle_key key l = (asked, l')" by fastforce
  let ?b = "a\<lparr>a_overlay := Device_List l'\<rparr>"
  have b: "same_link a ?b" by (simp add: same_link_def)
  note via = same_link_trans [OF b]
  have "same_link a (close_overlay ?b)" using via same_link_devices(2) .
  note via2 = same_link_trans [OF this]
  show ?thesis
    unfolding handle_device_list_key_def asked prod.case Let_def
    by (auto split: device_list_outcome.split option.split bool.split
        intro: via2 [OF same_link_devices(3)] via same_link_devices)
qed

lemma same_link_discovery [simp]: "same_link a (fst (handle_discovery env e a))"
  by (auto simp: same_link_def handle_discovery_def Let_def split: discovery_event.split prod.split)

lemma same_link_web_event [simp]: "same_link a (fst (handle_web_event e a))"
  by (auto simp: handle_web_event_def split: web_event.split option.split link_mode.split)

lemma ctrl_c_state:
  assumes "a_overlay a = No_Overlay"
  shows "fst (snd (handle_ctrl_c env a)) =
    a\<lparr>a_pending := None, a_receive := None, a_send := map_option (\<lambda>t. t\<lparr>ss_cancelled := True\<rparr>) (a_send a)\<rparr>"
  using assms
  by (cases "a_pending a"; cases "a_send a"; cases "a_receive a")
    (simp_all add: handle_ctrl_c_def answer_pending_def cancel_receive_def)

lemma same_link_ctrl_c [simp]: "same_link a (fst (snd (handle_ctrl_c env a)))"
proof (cases "a_overlay a")
  case No_Overlay
  then show ?thesis unfolding ctrl_c_state [OF No_Overlay] by (simp add: same_link_def)
qed (simp_all add: handle_ctrl_c_def)

lemma link_ok_restart:
  "restart_server env mode a = (b, a', es) \<Longrightarrow>
     a_server a' = (if b then Some mode else None) \<and> a_web a' = a_web a \<and> a_overlay a' = a_overlay a \<and>
     es = [Restart mode]"
  by (auto simp: restart_server_def split: option.splits)

lemma disable_web_ok: "a_overlay a = No_Overlay \<Longrightarrow> link_ok (fst (disable_web env a))"
  by (auto simp: disable_web_def link_ok_def dest!: link_ok_restart split: prod.split bool.split)

lemma restore_ok: "a_web a = None \<Longrightarrow> link_ok (fst (restore_encrypted_server env a))"
  by (auto simp: restore_encrypted_server_def link_ok_def dest!: link_ok_restart split: prod.split bool.split)

lemma enable_web_share_ok:
  "link_ok a \<Longrightarrow> a_web a = None \<Longrightarrow> a_overlay a = No_Overlay \<Longrightarrow> link_ok (fst (enable_web_share env picked a))"
  by (auto simp: enable_web_share_def Let_def split: prod.split bool.split dest!: link_ok_restart intro!: restore_ok)
    (auto simp: link_ok_def)

lemma toggle_web_share_ok:
  "link_ok a \<Longrightarrow> a_overlay a = No_Overlay \<Longrightarrow> link_ok (fst (toggle_web_share env a))"
  by (auto simp: toggle_web_share_def disable_web_ok enable_web_share_ok split: option.split link_mode.split)
    (auto simp: open_picker_def link_ok_def split: option.split)

lemma toggle_web_receive_ok:
  "link_ok a \<Longrightarrow> a_overlay a = No_Overlay \<Longrightarrow> link_ok (fst (toggle_web_receive env a))"
  by (auto simp: toggle_web_receive_def disable_web_ok dest!: link_ok_restart intro!: restore_ok
      split: option.split link_mode.split prod.split bool.split)
    (auto simp: link_ok_def)

lemma handle_picker_key_ok:
  "link_ok a \<Longrightarrow> a_overlay a = Picker target \<Longrightarrow> link_ok (fst (handle_picker_key env key target a))"
proof -
  assume a: "link_ok a" "a_overlay a = Picker target"
  have closed: "link_ok (close_overlay a)" using a(1) same_link_devices(2) by (rule same_link_ok [rotated])
  have web: "a_web a = None" if "target = To_Web_Share" using a that by (simp add: link_ok_def)
  have "link_ok (fst (start_send env fp files (close_overlay a)))" for fp files
    using closed same_link_devices(3) by (rule same_link_ok [rotated])
  moreover have "link_ok (fst (enable_web_share env files (close_overlay a)))" if "target = To_Web_Share" for files
    using closed web [OF that] by (intro enable_web_share_ok) (simp_all add: close_overlay_def)
  ultimately show ?thesis
    using a closed by (simp add: handle_picker_key_def split: picker_outcome.split picker_target.split)
qed

lemma decode_no_overlay:
  "fst (decode chord key True) \<in> {Some Intent_Cancel, Some (Intent_Overlay key)}"
  by (simp add: decode_def)

lemma handle_key_ok: "link_ok a \<Longrightarrow> link_ok (fst (snd (handle_key env key a)))"
proof -
  assume ok: "link_ok a"
  obtain i chord where dec: "decode (a_chord a) key (a_overlay a \<noteq> No_Overlay) = (i, chord)" by fastforce
  let ?a = "a\<lparr>a_chord := chord\<rparr>"
  have a: "link_ok ?a" using ok by (simp add: link_ok_def)
  have "link_ok (fst (snd (handle_intent env j ?a)))" if "i = Some j" for j
  proof (cases "a_overlay a = No_Overlay")
    case True
    then show ?thesis
      using a by (auto simp: handle_intent_def toggle_web_share_ok toggle_web_receive_ok split: intent.split
          intro: same_link_ok [OF _ a])
  next
    case False
    then have "j = Intent_Cancel \<or> j = Intent_Overlay key"
      using dec that decode_no_overlay [of "a_chord a" key] by auto
    then show ?thesis
      using a by (auto simp: handle_intent_def handle_picker_key_ok split: overlay.split
          intro: same_link_ok [OF _ a] same_link_ok [OF same_link_list_key a])
  qed
  then show ?thesis using a dec by (cases i) (simp_all add: handle_key_def)
qed

lemma app_dispatch_ok: "link_ok a \<Longrightarrow> link_ok (fst (snd (app_dispatch env e a)))"
proof -
  assume ok: "link_ok a"
  show ?thesis
    using ok by (auto simp: app_dispatch_def handle_key_ok split: app_event.split option.split
        intro: same_link_ok [OF _ ok]) (auto simp: link_ok_def)
qed

interpretation links: transition_system app_started app_step link_ok
proof
  show "link_ok s" if "app_started s" for s
    using that by (auto simp: app_started_def start_app_def Let_def link_ok_def open_device_list_def split: option.split)
  show "link_ok t" if "link_ok s" "app_step s t" for s t
    using that app_dispatch_ok by (auto simp: app_step_def)
qed

text \<open>
  C22. The server runs without encryption exactly as long as a link says so: in every state the
  application can reach, a running server uses TLS if and only if no web link is active, it serves
  downloads if and only if files are shared, and no picker for a new link is open while one is active.
\<close>

theorem plain_server_only_while_linked:
  assumes "app_started s" and "rtranclp app_step s a"
  shows "a_server a \<in> servers_under (a_web a) \<and> (a_overlay a = Picker To_Web_Share \<longrightarrow> a_web a = None)"
  using links.reachable_inv [OF assms] by (simp add: link_ok_def)

text \<open>An environment in which everything works, for the examples.\<close>

definition sample_env :: env where
  "sample_env = \<lparr>show_peer = (\<lambda>_. ''10.0.0.2''), v6_host = (\<lambda>_. False), own_print = lit ''me'', known = [],
     waiting = (\<lambda>_. True), naming = Posix, on_disk_names = (\<lambda>_. False),
     collect = map (\<lambda>p. (''id'', sample_dto ''id'' 1, p)), restart_error = (\<lambda>_. None), save_error = None,
     screen_error = None, picker_key = (\<lambda>_. Picker_Picked [lit ''a.txt''])\<rparr>"

definition char_key :: "char \<Rightarrow> key_event" where
  "char_key c = \<lparr>key_code = Key_Char (of_char c), control = False, alt = False\<rparr>"

definition idle_app :: app where
  "idle_app = fst (start_app sample_env no_pairings [])"

lemma idle_started: "app_started idle_app"
  unfolding app_started_def idle_app_def by (intro exI) (rule refl)

theorem plain_server_only_while_linked_witness:
  "a_server (fst (snd (app_dispatch sample_env (Ev_Key (char_key (CHR ''w''))) idle_app))) \<in> {None, Some Mode_Tls}"
proof -
  let ?a = "fst (snd (app_dispatch sample_env (Ev_Key (char_key (CHR ''w''))) idle_app))"
  have "app_step idle_app ?a" unfolding app_step_def by (intro exI) (rule refl)
  then have "rtranclp app_step idle_app ?a" by (rule r_into_rtranclp)
  from plain_server_only_while_linked [OF idle_started this]
  show ?thesis
    by (simp add: idle_app_def start_app_def app_dispatch_def handle_key_def char_key_def decode_def
        to_ascii_lowercase_def)
qed

section \<open>Cancelling and quitting\<close>

definition declined :: "pending_receive option \<Rightarrow> effect list" where
  "declined p = (case p of None \<Rightarrow> [] | Some p \<Rightarrow> [Decide (pn_session p) Decline, Notice (N_Declined (pn_alias p))])"

definition cancelled :: "receive_session option \<Rightarrow> effect list" where
  "cancelled s =
     (case s of
        None \<Rightarrow> []
      | Some s \<Rightarrow> [Cancel_V2_Session (rs_session s) (rs_sender s),
                   Notice (N_Cancelled (rs_alias s) (rs_finished s) (length (rs_files s)))])"

text \<open>
  Ctrl+C cancels all that is going on, and quits only when nothing is: with an overlay open it only
  closes it (and ends a \<open>send\<close> run at the device list); otherwise it declines the pending request, fires
  the cancellation of the transfer being sent and ends the session being received, each exactly when
  there is one, and quits if and only if there is none of them.
\<close>

theorem ctrl_c_cancels_or_quits:
  "handle_ctrl_c env a =
     (case a_overlay a of
        Picker _ \<Rightarrow> (False, a\<lparr>a_overlay := No_Overlay\<rparr>, [])
      | Device_List _ \<Rightarrow> (a_preselected a \<noteq> [], a\<lparr>a_overlay := No_Overlay\<rparr>, [])
      | No_Overlay \<Rightarrow>
          (a_pending a = None \<and> a_send a = None \<and> a_receive a = None,
           a\<lparr>a_pending := None, a_receive := None,
             a_send := map_option (\<lambda>t. t\<lparr>ss_cancelled := True\<rparr>) (a_send a)\<rparr>,
           declined (a_pending a) @ cancelled (a_receive a)))"
proof (cases "a_overlay a")
  case No_Overlay
  have "fst (handle_ctrl_c env a) = (a_pending a = None \<and> a_send a = None \<and> a_receive a = None)"
    using No_Overlay by (simp add: handle_ctrl_c_def)
  moreover have "snd (snd (handle_ctrl_c env a)) = declined (a_pending a) @ cancelled (a_receive a)"
    using No_Overlay
    by (cases "a_pending a"; cases "a_send a"; cases "a_receive a")
      (simp_all add: handle_ctrl_c_def answer_pending_def cancel_receive_def declined_def cancelled_def)
  ultimately show ?thesis
    using ctrl_c_state [OF No_Overlay, of env] No_Overlay by (simp add: prod_eq_iff)
qed (simp_all add: handle_ctrl_c_def close_overlay_def)

section \<open>Links and pairing without certificates\<close>

text \<open>
  While a link is active the server speaks plain HTTP and no request has a certificate, but the
  application still accepts a request on its own if the fingerprint it merely claims is paired: any
  client that knows the fingerprint of a paired device (it is announced by multicast) gets a session
  for all its files without a question.
\<close>

theorem link_trusts_claimed_fingerprint:
  assumes "contains (a_paired a) (fingerprint info)" and "waiting env sid" and "files \<noteq> []"
    and "message_of files = None" and "v2_pin v2 = None" and "v2_session v2 = None" and "cert client = None"
  shows "\<exists>v2'. prepare_upload ops sha (Some v2) query client
      (Inr \<lparr>pr_info = info, pr_files = files\<rparr>) sid tok new_token True (Decided (Accept (map fst files))) =
        (session_reply sid (accepted_files new_token files (map fst files)), Some v2',
         [PrepareUpload sid (peer client) info None files]) \<and>
      v2_session v2' = install_session sid (peer client) (accepted_files new_token files (map fst files)) \<and>
      accepts (snd (snd (app_dispatch env (Ev_Server (PrepareUpload sid (peer client) info None files)) a))) =
        {(sid, map fst files)} \<and>
      session_of (fst (snd (app_dispatch env (Ev_Server (PrepareUpload sid (peer client) info None files)) a))) sid \<noteq> None"
proof -
  have all: "filter (\<lambda>(i, _). i \<in> fst ` set files) files = files" by (rule filter_True) force
  have "accepted_files new_token files (map fst files) \<noteq> []"
    using assms(3) by (simp add: accepted_files_def all)
  then have "prepare_upload ops sha (Some v2) query client (Inr \<lparr>pr_info = info, pr_files = files\<rparr>) sid tok
      new_token True (Decided (Accept (map fst files))) =
    (session_reply sid (accepted_files new_token files (map fst files)),
     Some (v2\<lparr>v2_session := install_session sid (peer client) (accepted_files new_token files (map fst files))\<rparr>),
     [PrepareUpload sid (peer client) info None files])"
    using assms by (simp add: prepare_upload_def require_v2_def check_pin_def claim_slot_def cert_fingerprint_def Let_def)
  moreover have "accepts (snd (snd (app_dispatch env (Ev_Server (PrepareUpload sid (peer client) info None files)) a))) =
      {(sid, map fst files)}"
    using assms by (simp add: app_dispatch_def accepts_server_event accepts_prepare_upload attributed_def)
  moreover have "session_of (fst (snd (app_dispatch env (Ev_Server (PrepareUpload sid (peer client) info None files)) a))) sid \<noteq> None"
    using assms by (simp add: app_dispatch_def handle_server_event_def on_prepare_upload_def session_of_def new_session_def Let_def)
  ultimately show ?thesis by auto
qed

definition browser :: request_client_info where
  "browser = \<lparr>peer = \<lparr>ip = V4 9, scope_id = None\<rparr>, cert = None\<rparr>"

text \<open>An application that has paired the fingerprint \<open>ab\<close>.\<close>

definition paired_app :: app where
  "paired_app = idle_app\<lparr>a_paired := \<lparr>devices = [(lit ''ab'', \<lparr>pd_alias = lit ''Nice Orange'', pd_channels = []\<rparr>)],
     stored = None\<rparr>\<rparr>"

definition offered_file :: "(string \<times> file_dto) list" where
  "offered_file = [(''f1'', sample_dto ''f1'' 2)]"

lemma offered_file_no_message [simp]: "message_of offered_file = None" "offered_file \<noteq> []"
  "map fst offered_file = [''f1'']"
  by (simp_all add: message_of_def offered_file_def sample_dto_def)

lemma paired_app_contains [simp]: "contains (a_paired paired_app) (fingerprint sample_info)"
  by (simp add: contains_def paired_app_def sample_info_def)

theorem link_trusts_claimed_fingerprint_witness:
  "accepts (snd (snd (app_dispatch sample_env
      (Ev_Server (PrepareUpload ''s1'' (peer browser) sample_info None offered_file))
      (paired_app\<lparr>a_web := Some Link_Receive, a_server := Some Mode_Upload\<rparr>)))) = {(''s1'', [''f1''])}"
proof -
  let ?a = "paired_app\<lparr>a_web := Some Link_Receive, a_server := Some Mode_Upload\<rparr>"
  have "contains (a_paired ?a) (fingerprint sample_info)" "waiting sample_env ''s1''" "cert browser = None"
    "v2_pin free_state = None" "v2_session free_state = None"
    by (simp_all add: sample_env_def browser_def free_state_def del: fun_upd_apply)
  note hyps = this offered_file_no_message
  note link = link_trusts_claimed_fingerprint [where ops = "list_lru PIN_CACHE_CAPACITY" and sha = id and
      ?v2.0 = free_state and client = browser and env = sample_env and a = ?a and info = sample_info and
      sid = "''s1''" and files = offered_file and query = Map.empty and tok = 0 and new_token = id]
  from link [OF hyps(1,2,7,6,4,5,3)] show ?thesis by (elim exE conjE) simp
qed

text \<open>
  While files are shared via link the server speaks plain HTTP as well, and the prompt offers P: one
  press pairs the fingerprint a client merely claims, and from then on that fingerprint is accepted
  without a question, also over TLS.
\<close>

theorem share_link_pairs_claimed_fingerprint:
  assumes "a_web a = Some (Link_Share paths)" and "a_overlay a = No_Overlay" and "message_of files = None"
    and "\<not> contains (a_paired a) (fingerprint info)" and "char_of_key key = Some 112"
  shows "contains (a_paired (fst (run_app
      [(env, Ev_Server (PrepareUpload sid addr info None files)), (env, Ev_Key key)] a))) (fingerprint info)"
proof -
  let ?sender = "\<lparr>st_host = addr, st_port = port info, st_protocol = protocol info,
    st_fingerprint = fingerprint info\<rparr>"
  let ?p = "\<lparr>pn_session = sid, pn_alias = single_line (lit (dto_alias info)), pn_sender = ?sender, pn_files = files\<rparr>"
  have first: "fst (snd (app_dispatch env (Ev_Server (PrepareUpload sid addr info None files)) a)) = a\<lparr>a_pending := Some ?p\<rparr>"
    and go: "fst (app_dispatch env (Ev_Server (PrepareUpload sid addr info None files)) a) = False"
    using assms(3,4) by (simp_all add: app_dispatch_def handle_server_event_def on_prepare_upload_def Let_def)
  have dec: "decode chord key False = (Some (Intent_Answer Answer_Accept_And_Pair), False)" for chord
    using assms(5) by (cases "key_code key") (auto simp: decode_def Let_def)
  have "contains (a_paired (fst (snd (app_dispatch env (Ev_Key key) (a\<lparr>a_pending := Some ?p\<rparr>))))) (fingerprint info)"
    using assms(1,2)
    by (auto simp: app_dispatch_def handle_key_def dec handle_intent_def answer_pending_def pair_sender_def
        paired_insert_def save_def contains_def map_of_insert Let_def split: option.split)
  then show ?thesis
    using first go by (auto split: prod.split bool.split)
qed

theorem share_link_pairs_claimed_fingerprint_witness:
  "contains (a_paired (fst (run_app
     [(sample_env, Ev_Server (PrepareUpload ''s1'' (peer browser) sample_info None offered_file)),
      (sample_env, Ev_Key (char_key (CHR ''p'')))] (idle_app\<lparr>a_web := Some (Link_Share [])\<rparr>)))) (lit ''ab'')"
proof -
  have "\<not> contains (a_paired (idle_app\<lparr>a_web := Some (Link_Share [])\<rparr>)) (fingerprint sample_info)"
    "a_overlay (idle_app\<lparr>a_web := Some (Link_Share [])\<rparr>) = No_Overlay"
    "char_of_key (char_key (CHR ''p'')) = Some 112" "fingerprint sample_info = lit ''ab''"
    by (simp_all add: idle_app_def start_app_def contains_def no_pairings_def char_key_def to_ascii_lowercase_def
        sample_info_def)
  with share_link_pairs_claimed_fingerprint [of "idle_app\<lparr>a_web := Some (Link_Share [])\<rparr>" "[]" offered_file sample_info
      "char_key (CHR ''p'')" sample_env "''s1''" "peer browser"]
  show ?thesis by simp
qed

section \<open>Restarts\<close>

definition busy :: "app \<Rightarrow> bool" where
  "busy a \<longleftrightarrow> a_pending a \<noteq> None \<or> a_receive a \<noteq> None"

definition restarts :: "effect list \<Rightarrow> bool" where
  "restarts es \<longleftrightarrow> (\<exists>m. Restart m \<in> set es)"

lemma restarts_simps [simp]:
  "\<not> restarts []"
  "restarts (Restart m # es)"
  "restarts (Decide sid decision # es) = restarts es"
  "restarts (Notice n # es) = restarts es"
  "restarts (Confirm_Device h i # es) = restarts es"
  "restarts (Save_At sid fid p # es) = restarts es"
  "restarts (No_Free_Name # es) = restarts es"
  "restarts (Cancel_V2_Session sid t # es) = restarts es"
  "restarts (Start_Send d fs # es) = restarts es"
  "restarts (Allow_Download sid # es) = restarts es"
  "restarts (Serve_Download fid p # es) = restarts es"
  "restarts (xs @ ys) \<longleftrightarrow> restarts xs \<or> restarts ys"
  by (auto simp: restarts_def)

lemma restarts_receive [simp]:
  "\<not> restarts (snd (finish_receive_if_done a))"
  "\<not> restarts (snd (on_session_end sid reason a))"
  "\<not> restarts (snd (handle_file_upload env sid fid file a))"
  "\<not> restarts (snd (on_progress sid fid written a))"
  "\<not> restarts (snd (receive_file_result sid fid result a))"
  "\<not> restarts (snd (on_aborted sid a))"
  "\<not> restarts (snd (cancel_by_peer env addr sid a))"
  "\<not> restarts (snd (cancel_receive a))"
  "\<not> restarts (snd (pair_sender env p a))"
  "\<not> restarts (device_confirmed env addr info)"
  by (auto simp: receive_ops finish_receive_if_done_def pair_sender_def device_confirmed_def
      split: option.split sum.split prod.split session_end_reason.split)

lemma restarts_prepare [simp]:
  "\<not> restarts (snd (on_prepare_upload env sid addr info cert_fp files a))"
  "\<not> restarts (snd (answer_pending env ans a))"
  by (auto simp: on_prepare_upload_def answer_pending_def Let_def split: option.split)

lemma restarts_server_event [simp]: "\<not> restarts (snd (handle_server_event env e a))"
  by (simp add: handle_server_event_def split: server_event.split)

lemma restarts_devices [simp]:
  "\<not> restarts (snd (open_picker env target a))"
  "\<not> restarts (snd (start_send env fp picked a))"
  "\<not> restarts (snd (start_picking env slot a))"
  "\<not> restarts (snd (pair env fp a))"
  "\<not> restarts (snd (unpair env fp a))"
  "\<not> restarts (snd (open_device_list env a))"
  "\<not> restarts (snd (snd (handle_device_list_key env key l a)))"
  "\<not> restarts (snd (handle_discovery env e a))"
  "\<not> restarts (snd (handle_web_event we a))"
  by (auto simp: device_ops open_picker_def handle_discovery_def handle_web_event_def Let_def
      split: option.split sum.split prod.split device_list_outcome.split discovery_event.split web_event.split
        link_mode.split)

lemma restarts_ctrl_c [simp]: "\<not> restarts (snd (snd (handle_ctrl_c env a)))"
  by (auto simp: handle_ctrl_c_def split: overlay.split option.split)

lemma restarts_toggle:
  "busy a \<Longrightarrow> restarts (snd (toggle_web_share env a)) \<Longrightarrow> a_web a \<noteq> None"
  "busy a \<Longrightarrow> restarts (snd (toggle_web_receive env a)) \<Longrightarrow> a_web a \<noteq> None"
  by (auto simp: busy_def toggle_web_share_def toggle_web_receive_def split: option.splits)

lemma restarts_picker:
  "restarts (snd (handle_picker_key env key target a)) \<Longrightarrow> target = To_Web_Share"
  by (auto simp: handle_picker_key_def split: picker_outcome.splits picker_target.splits)

text \<open>
  A restart drops every connection, so the links are not to be toggled while something is received.
  That is ensured only where a link is turned on directly: with a request pending or a session being
  received, the server is still restarted when a link is turned off, or when the files of a link are
  picked that was opened before the request came.
\<close>

theorem restart_while_busy:
  assumes "restarts (snd (snd (app_dispatch env e a)))" and "busy a"
  shows "a_web a \<noteq> None \<or> a_overlay a = Picker To_Web_Share"
proof -
  obtain key where e: "e = Ev_Key key"
    using assms(1) by (cases e) (auto simp: app_dispatch_def)
  obtain i chord where dec: "decode (a_chord a) key (a_overlay a \<noteq> No_Overlay) = (i, chord)" by fastforce
  let ?a = "a\<lparr>a_chord := chord\<rparr>"
  have b: "busy ?a" using assms(2) by (simp add: busy_def)
  from assms(1) obtain j where j: "restarts (snd (snd (handle_intent env j ?a)))"
    by (cases i) (auto simp: e app_dispatch_def handle_key_def dec)
  show ?thesis
  proof (cases j)
    case (Intent_Overlay k)
    then show ?thesis using j restarts_picker by (cases "a_overlay a") (auto simp: handle_intent_def)
  next
    case Toggle_Web_Share
    then show ?thesis using j restarts_toggle(1) [OF b, of env] by (simp add: handle_intent_def)
  next
    case Toggle_Web_Receive
    then show ?thesis using j restarts_toggle(2) [OF b, of env] by (simp add: handle_intent_def)
  qed (use j in \<open>simp_all add: handle_intent_def\<close>)
qed

text \<open>It does happen: the picker for a link is opened, a paired device sends, and the files are picked.\<close>

definition share_picked :: app where
  "share_picked = fst (run_app
     [(sample_env, Ev_Key (char_key (CHR ''w''))), (sample_env, Ev_Key (char_key (CHR ''s''))),
      (sample_env, Ev_Server (PrepareUpload ''s1'' (peer sample_client) sample_info (Some (lit ''ab'')) offered_file))]
     paired_app)"

lemma share_picked_facts:
  "a_web share_picked = None" "a_overlay share_picked = Picker To_Web_Share" "a_receive share_picked \<noteq> None"
  by (simp_all add: share_picked_def app_dispatch_def handle_key_def char_key_def decode_def to_ascii_lowercase_def
      handle_intent_def toggle_web_share_def open_picker_def handle_server_event_def on_prepare_upload_def
      paired_app_def idle_app_def start_app_def sample_env_def contains_def Let_def)

theorem restart_while_busy_witness:
  "restarts (snd (snd (app_dispatch sample_env (Ev_Key (char_key (CHR ''a''))) share_picked))) \<and>
   a_receive (fst (snd (app_dispatch sample_env (Ev_Key (char_key (CHR ''a''))) share_picked))) \<noteq> None \<and>
   a_overlay share_picked = Picker To_Web_Share"
proof -
  let ?d = "app_dispatch sample_env (Ev_Key (char_key (CHR ''a''))) share_picked"
  have "restarts (snd (snd ?d)) \<and> a_receive (fst (snd ?d)) \<noteq> None"
    using share_picked_facts
    by (simp add: app_dispatch_def handle_key_def char_key_def decode_def handle_intent_def handle_picker_key_def
        sample_env_def enable_web_share_def restart_server_def close_overlay_def)
  moreover have "busy share_picked" using share_picked_facts(3) by (simp add: busy_def)
  ultimately show ?thesis
    using restart_while_busy [of sample_env "Ev_Key (char_key (CHR ''a''))" share_picked] share_picked_facts by simp
qed

end
