(* ===== verification/Cli_Receive.thy ===== *)
theory Cli_Receive
  imports Cli_App_Safety
begin

text \<open>
  An accepted session in the interactive application from its first upload to its summary: the events of
  the session as they reach the loop, in whatever order the two channels deliver them, and what they
  leave behind.
\<close>

section \<open>The events of a session\<close>

datatype session_event =
    Upload_Event string file_dto
  | Result_Event string "string + unit"
  | Progress_Event string u64
  | End_Event session_end_reason

fun app_event_of :: "string \<Rightarrow> session_event \<Rightarrow> app_event" where
  "app_event_of sid (Upload_Event fid file) = Ev_Server (FileUpload sid fid file)"
| "app_event_of sid (Result_Event fid r) = Ev_File_Result sid fid r"
| "app_event_of sid (Progress_Event fid n) = Ev_Progress sid fid n"
| "app_event_of sid (End_Event reason) = Ev_Server (SessionEnd sid reason)"

text \<open>
  A complete session: a file is not uploaded again before the result of its last upload is there, each
  result belongs to an upload, the server reports the end once and after the last upload, and in the end
  every upload has its result. \<open>flight\<close> are the uploads without one.
\<close>

fun complete :: "string set \<Rightarrow> session_end_reason option \<Rightarrow> session_event list \<Rightarrow> bool" where
  "complete flight over [] \<longleftrightarrow> flight = {} \<and> over \<noteq> None"
| "complete flight over (Upload_Event fid dto # es) \<longleftrightarrow>
     over = None \<and> fid \<notin> flight \<and> complete (insert fid flight) over es"
| "complete flight over (Result_Event fid r # es) \<longleftrightarrow> fid \<in> flight \<and> complete (flight - {fid}) over es"
| "complete flight over (Progress_Event fid n # es) \<longleftrightarrow> complete flight over es"
| "complete flight over (End_Event reason # es) \<longleftrightarrow> over = None \<and> complete flight (Some reason) es"

definition saved_files :: "session_event list \<Rightarrow> string list" where
  "saved_files es = List.map_filter (\<lambda>e. case e of Result_Event fid (Inr _) \<Rightarrow> Some fid | _ \<Rightarrow> None) es"

definition failures :: "session_event list \<Rightarrow> nat" where
  "failures es = length (filter (\<lambda>e. case e of Result_Event fid (Inl _) \<Rightarrow> True | _ \<Rightarrow> False) es)"

definition end_reason :: "session_event list \<Rightarrow> session_end_reason option" where
  "end_reason es = (case List.map_filter (\<lambda>e. case e of End_Event r \<Rightarrow> Some r | _ \<Rightarrow> None) es of
     [] \<Rightarrow> None | r # _ \<Rightarrow> Some r)"

definition size_in :: "(string \<times> file_dto) list \<Rightarrow> string \<Rightarrow> u64" where
  "size_in files fid = (case map_of files fid of Some f \<Rightarrow> size_of f | None \<Rightarrow> 0)"

text \<open>The summary such a session deserves.\<close>

definition summary :: "receive_session \<Rightarrow> session_end_reason \<Rightarrow> session_event list \<Rightarrow> notice" where
  "summary s reason es =
     (case reason of
        Finished \<Rightarrow> N_Received (rs_alias s) (rs_finished s + length (saved_files es))
          (rs_finalized s + sum_list (map (size_in (rs_files s)) (saved_files es))) (rs_failed s + failures es)
      | Cancelled \<Rightarrow> N_Cancelled_By_Sender (rs_alias s) (rs_finished s + length (saved_files es)) (length (rs_files s)))"

fun is_summary :: "effect \<Rightarrow> bool" where
  "is_summary (Notice (N_Received name n b k)) = True"
| "is_summary (Notice (N_Cancelled_By_Sender name n t)) = True"
| "is_summary _ = False"

section \<open>Running them\<close>

lemma session_of_iff: "session_of a sid = Some s \<longleftrightarrow> a_receive a = Some s \<and> rs_session s = sid"
  by (auto simp: session_of_def split: option.split)

lemma run_app_Cons:
  "\<not> fst (app_dispatch env e a) \<Longrightarrow>
   run_app ((env, e) # es) a =
     (fst (run_app es (fst (snd (app_dispatch env e a)))),
      snd (snd (app_dispatch env e a)) @ snd (run_app es (fst (snd (app_dispatch env e a)))))"
  by (auto split: prod.split)

lemma stays: "\<not> fst (app_dispatch env (app_event_of sid e) a)"
  by (cases e) (simp_all add: app_dispatch_def)

lemmas run_session = run_app_Cons [OF stays]

declare run_app.simps(2) [simp del]

lemma run_event:
  assumes "app_dispatch env e a = (False, p)"
  shows "run_app ((env, e) # es) a = (fst (run_app es (fst p)), snd p @ snd (run_app es (fst p)))"
  using run_app_Cons [of env e a es] assms by simp

lemma run_upload:
  "run_app ((env, Ev_Server (FileUpload sid fid dto)) # es) a =
     (let p = handle_file_upload env sid fid dto a
      in (fst (run_app es (fst p)), snd p @ snd (run_app es (fst p))))"
  and run_progress:
  "run_app ((env, Ev_Progress sid fid n) # es) a =
     (let p = on_progress sid fid n a in (fst (run_app es (fst p)), snd p @ snd (run_app es (fst p))))"
  and run_result:
  "run_app ((env, Ev_File_Result sid fid res) # es) a =
     (let p = receive_file_result sid fid res a
      in (fst (run_app es (fst p)), snd p @ snd (run_app es (fst p))))"
  and run_end:
  "run_app ((env, Ev_Server (SessionEnd sid r)) # es) a =
     (let p = on_session_end sid r a in (fst (run_app es (fst p)), snd p @ snd (run_app es (fst p))))"
  by (simp_all add: Let_def run_event app_dispatch_def handle_server_event_def)

lemmas run_events = run_upload run_progress run_result run_end

abbreviation session_run :: "string \<Rightarrow> (env \<times> session_event) list \<Rightarrow> app \<Rightarrow> app \<times> effect list" where
  "session_run sid es a \<equiv> run_app (map (\<lambda>(env, e). (env, app_event_of sid e)) es) a"

text \<open>Without the session, its events are without effect.\<close>

lemma run_without_session: "session_of a sid = None \<Longrightarrow> session_run sid es a = (a, [])"
proof (induction es)
  case (Cons x es)
  obtain env e where x: "x = (env, e)" by (cases x)
  have "snd (app_dispatch env (app_event_of sid e) a) = (a, [])"
    using Cons.prems
    by (cases e) (simp_all add: app_dispatch_def handle_server_event_def receive_ops)
  then show ?case using Cons by (simp add: x run_session)
qed simp

lemma keys_delete: "fst ` set (AList.delete k xs) = fst ` set xs - {k}"
proof -
  have "set (map fst (AList.delete k xs)) = set (removeAll k (map fst xs))" by (simp only: AList.delete_keys)
  then show ?thesis by simp
qed

lemma keys_update: "fst ` set (AList.update k v xs) = insert k (fst ` set xs)"
  by (simp add: AList.dom_update)

lemma keys_map_entry: "fst ` set (AList.map_entry k f xs) = fst ` set xs"
  by (induction xs) auto

lemma nothing_left:
  "complete {} (Some r) es \<Longrightarrow> saved_files es = [] \<and> failures es = 0 \<and> end_reason es = None"
  by (induction "{} :: string set" "Some r" es rule: complete.induct)
    (auto simp: saved_files_def failures_def end_reason_def map_filter_simps)

lemma finish_waits:
  "a_receive a = Some s \<Longrightarrow> rs_ended s = None \<or> rs_in_progress s \<noteq> [] \<Longrightarrow> finish_receive_if_done a = (a, [])"
  by (auto simp: finish_receive_if_done_def split: option.split)

lemma finish_done:
  "a_receive a = Some s \<Longrightarrow> rs_ended s = Some r \<Longrightarrow> rs_in_progress s = [] \<Longrightarrow>
   finish_receive_if_done a = (a\<lparr>a_receive := None\<rparr>, [Notice (summary s r [])])"
  by (simp add: finish_receive_if_done_def summary_def saved_files_def failures_def map_filter_simps
      split: session_end_reason.split)

lemma summary_is_summary [simp]: "is_summary (Notice (summary s r es))"
  by (cases r) (simp_all add: summary_def)

lemma summary_steps:
  "summary s r (Upload_Event fid dto # es) = summary s r es"
  "summary s r (Progress_Event fid n # es) = summary s r es"
  "summary s r (End_Event reason # es) = summary s r es"
  "summary s r (Result_Event fid (Inl err) # es) = summary (s\<lparr>rs_failed := rs_failed s + 1\<rparr>) r es"
  "summary s r (Result_Event fid (Inr u) # es) =
     summary (s\<lparr>rs_finished := rs_finished s + 1, rs_finalized := rs_finalized s + size_in (rs_files s) fid\<rparr>) r es"
  "summary (s\<lparr>rs_in_progress := p\<rparr>) r es = summary s r es"
  "summary (s\<lparr>rs_ended := e\<rparr>) r es = summary s r es"
  by (cases r; simp add: summary_def saved_files_def failures_def map_filter_simps)+

lemma summary_rest: "complete {} (Some r) es \<Longrightarrow> summary s r es = summary s r []"
  using nothing_left [of r es]
  by (cases r) (simp_all add: summary_def saved_files_def failures_def map_filter_simps)

lemma run_finishing:
  assumes "a_receive a = Some s" "rs_session s = sid" "rs_ended s = Some r" "rs_in_progress s = []"
    and "complete {} (Some r) (map snd es)"
  shows "fst (finish_receive_if_done a) = a\<lparr>a_receive := None\<rparr>"
    and "session_run sid es (a\<lparr>a_receive := None\<rparr>) = (a\<lparr>a_receive := None\<rparr>, [])"
    and "snd (finish_receive_if_done a) = [Notice (summary s r (map snd es))]"
  using finish_done [OF assms(1,3,4)] run_without_session [of "a\<lparr>a_receive := None\<rparr>" sid es]
    summary_rest [OF assms(5), of s]
  by (simp_all add: session_of_def)

lemma no_summary:
  "filter is_summary (snd (handle_file_upload env sid fid dto a)) = []"
  "filter is_summary (snd (on_progress sid fid n a)) = []"
  by (auto simp: handle_file_upload_def on_progress_def split: option.split)

definition reason_of :: "session_end_reason option \<Rightarrow> session_event list \<Rightarrow> session_end_reason option" where
  "reason_of over es = (case over of Some r \<Rightarrow> Some r | None \<Rightarrow> end_reason es)"

lemma reason_of_steps:
  "reason_of over (Upload_Event fid dto # es) = reason_of over es"
  "reason_of over (Progress_Event fid n # es) = reason_of over es"
  "reason_of over (Result_Event fid res # es) = reason_of over es"
  "reason_of None (End_Event r # es) = Some r"
  "reason_of (Some r) es = Some r"
  by (auto simp: reason_of_def end_reason_def map_filter_simps split: option.split sum.split)

lemma run_complete:
  assumes "a_receive a = Some s" "rs_session s = sid" "rs_ended s = over"
    and "fst ` set (rs_in_progress s) = flight" "complete flight over (map snd es)"
    and "over = None \<or> flight \<noteq> {}"
  shows "\<exists>r. reason_of over (map snd es) = Some r \<and> a_receive (fst (session_run sid es a)) = None \<and>
    filter is_summary (snd (session_run sid es a)) = [Notice (summary s r (map snd es))]"
  using assms
proof (induction es arbitrary: a s flight over)
  case (Cons x es)
  obtain env e where x: "x = (env, e)" by (cases x)
  note state = Cons.prems(1-4)
  have here: "session_of a sid = Some s" using state by (simp add: session_of_iff)
  show ?case
  proof (cases e)
    case (Upload_Event fid dto)
    let ?s = "s\<lparr>rs_in_progress := AList.update fid 0 (rs_in_progress s)\<rparr>"
    have fst_step: "fst (handle_file_upload env sid fid dto a) = a\<lparr>a_receive := Some ?s\<rparr>"
      by (simp add: handle_file_upload_def here)
    have rest: "over = None" "complete (insert fid flight) over (map snd es)"
      using Cons.prems(5) by (auto simp: x Upload_Event)
    have "fst ` set (rs_in_progress ?s) = insert fid flight" using state(4) by (simp add: keys_update)
    from Cons.IH [of "a\<lparr>a_receive := Some ?s\<rparr>" ?s over "insert fid flight"] this rest state
    show ?thesis
      by (simp add: x run_events Let_def fst_step no_summary Upload_Event summary_steps reason_of_steps)
  next
    case (Progress_Event fid n)
    let ?s = "s\<lparr>rs_in_progress := AList.map_entry fid (\<lambda>_. n) (rs_in_progress s)\<rparr>"
    have fst_step: "fst (on_progress sid fid n a) = a\<lparr>a_receive := Some ?s\<rparr>"
      by (simp add: on_progress_def here)
    have rest: "complete flight over (map snd es)" using Cons.prems(5) by (simp add: x Progress_Event)
    have "fst ` set (rs_in_progress ?s) = flight" using state(4) by (simp add: keys_map_entry)
    from Cons.IH [of "a\<lparr>a_receive := Some ?s\<rparr>" ?s over flight] this rest state Cons.prems(6)
    show ?thesis
      by (simp add: x run_events Let_def fst_step no_summary Progress_Event summary_steps reason_of_steps)
  next
    case (End_Event r)
    let ?s = "s\<lparr>rs_ended := Some r\<rparr>"
    let ?a = "a\<lparr>a_receive := Some ?s\<rparr>"
    have step: "on_session_end sid r a = finish_receive_if_done ?a"
      by (simp add: on_session_end_def here)
    have rest: "over = None" "complete flight (Some r) (map snd es)"
      using Cons.prems(5) by (auto simp: x End_Event)
    show ?thesis
    proof (cases "flight = {}")
      case True
      then have "rs_in_progress ?s = []" using state(4) by simp
      from run_finishing [of ?a ?s sid r es] this rest True state
      show ?thesis by (simp add: x run_events Let_def step End_Event summary_steps reason_of_steps)
    next
      case False
      then have "rs_in_progress ?s \<noteq> []" using state(4) by auto
      with finish_waits [of ?a ?s] have "finish_receive_if_done ?a = (?a, [])" by simp
      moreover from Cons.IH [of ?a ?s "Some r" flight] rest False state
      have "a_receive (fst (session_run sid es ?a)) = None \<and>
        filter is_summary (snd (session_run sid es ?a)) = [Notice (summary ?s r (map snd es))]"
        by (simp add: reason_of_steps)
      ultimately show ?thesis
        using rest(1) by (simp add: x run_events Let_def step End_Event summary_steps reason_of_steps)
    qed
  next
    case (Result_Event fid res)
    define p where "p = AList.delete fid (rs_in_progress s)"
    define t where "t = (case res of
        Inr _ \<Rightarrow> s\<lparr>rs_in_progress := p, rs_finished := rs_finished s + 1,
                 rs_finalized := rs_finalized s + size_in (rs_files s) fid\<rparr>
      | Inl _ \<Rightarrow> s\<lparr>rs_in_progress := p, rs_failed := rs_failed s + 1\<rparr>)"
    let ?a = "a\<lparr>a_receive := Some t\<rparr>"
    have t: "rs_session t = sid" "rs_ended t = over" "rs_in_progress t = p"
      using state by (auto simp: t_def split: sum.split)
    have keys: "fst ` set p = flight - {fid}" using state(4) by (simp add: p_def keys_delete)
    have sum: "summary s r (Result_Event fid res # map snd es) = summary t r (map snd es)" for r
      by (cases res; cases r) (simp_all add: t_def summary_def saved_files_def failures_def map_filter_simps)
    have fst_step: "fst (receive_file_result sid fid res a) = fst (finish_receive_if_done ?a)"
      and snd_step: "filter is_summary (snd (receive_file_result sid fid res a)) =
        filter is_summary (snd (finish_receive_if_done ?a))"
      by (simp_all add: receive_file_result_def here t_def p_def size_in_def split: sum.split)
    have rest: "complete (flight - {fid}) over (map snd es)"
      using Cons.prems(5) by (simp add: x Result_Event)
    show ?thesis
    proof (cases "over \<noteq> None \<and> flight - {fid} = {}")
      case True
      then obtain r where r: "over = Some r" by auto
      from True keys have "fst ` set p = {}" by auto
      then have "p = []" by simp
      with run_finishing [of ?a t sid r es] t rest True r
      show ?thesis
        by (simp add: x run_events Let_def fst_step snd_step sum Result_Event reason_of_steps)
    next
      case False
      have "rs_ended t = None \<or> rs_in_progress t \<noteq> []"
      proof (cases over)
        case (Some r)
        then have "fst ` set p \<noteq> {}" using False keys by simp
        then show ?thesis using t(3) by auto
      qed (simp add: t)
      with finish_waits [of ?a t] have "finish_receive_if_done ?a = (?a, [])" by simp
      with Cons.IH [of ?a t over "flight - {fid}"] t keys rest False
      show ?thesis
        by (auto simp: x run_events Let_def fst_step snd_step sum Result_Event reason_of_steps)
    qed
  qed
qed simp

section \<open>The summary of an accepted session\<close>


definition some_sender :: sender_target where
  "some_sender = \<lparr>st_host = peer browser, st_port = 53317, st_protocol = Https, st_fingerprint = lit ''ab''\<rparr>"

definition receiving_app :: app where
  "receiving_app = idle_app\<lparr>a_receive :=
     Some (new_session ''s1'' (lit ''Nice Orange'') some_sender
       [(''f1'', sample_dto ''f1'' 2), (''f2'', sample_dto ''f2'' 5)])\<rparr>"

text \<open>Two files side by side: the second is cut off, and the server reports the end before its result is there.\<close>

definition two_uploads :: "(env \<times> session_event) list" where
  "two_uploads = map (Pair sample_env)
     [Upload_Event ''f1'' (sample_dto ''f1'' 2), Upload_Event ''f2'' (sample_dto ''f2'' 5),
      Progress_Event ''f2'' 1, Result_Event ''f1'' (Inr ()), End_Event Finished, Result_Event ''f2'' (Inl ''cut off'')]"


section \<open>Uploads at the same time\<close>

text \<open>The destination a reaction hands to an upload.\<close>

definition saved_at :: "string \<Rightarrow> effect list \<Rightarrow> rstring list" where
  "saved_at fid es = List.map_filter (\<lambda>e. case e of Save_At sid f p \<Rightarrow> if f = fid then Some p else None | _ \<Rightarrow> None) es"

lemma session_of_set [simp]:
  "session_of (a\<lparr>a_receive := Some s\<rparr>) sid = (if rs_session s = sid then Some s else None)"
  by (simp add: session_of_def)

lemma upload_effects:
  assumes "session_of a sid = Some s" and "unique_path (naming env) (on_disk_names env) (file_name dto) = Some p"
  shows "saved_at fid (snd (handle_file_upload env sid fid dto a)) = [p]"
    and "fid' \<noteq> fid \<Longrightarrow> saved_at fid' (snd (handle_file_upload env sid fid dto a)) = []"
    and "session_of (fst (handle_file_upload env sid fid dto a)) sid \<noteq> None"
proof -
  have "rs_session s = sid" using assms(1) by (simp add: session_of_iff)
  then show "saved_at fid (snd (handle_file_upload env sid fid dto a)) = [p]"
    "fid' \<noteq> fid \<Longrightarrow> saved_at fid' (snd (handle_file_upload env sid fid dto a)) = []"
    "session_of (fst (handle_file_upload env sid fid dto a)) sid \<noteq> None"
    by (simp_all add: handle_file_upload_def saved_at_def map_filter_simps assms)
qed

lemma saved_at_append: "saved_at fid (es @ es') = saved_at fid es @ saved_at fid es'"
  by (simp add: saved_at_def List.map_filter_def)

lemma unique_path_cong:
  "sanitize_path n r = sanitize_path n' r \<Longrightarrow> unique_path r taken n = unique_path r taken n'"
  by (simp add: unique_path_def)

text \<open>
  The name of an upload is taken when its file is created, not when it is handed out: two files of a
  session with the same last path component that are requested before the first one is on the disk are
  both saved at the same path, and the second overwrites the first.
\<close>

theorem uploads_share_path:
  assumes "session_of a sid = Some s" and "fid1 \<noteq> fid2" and "finite {n. on_disk_names env n}"
    and "sanitize_path (file_name f1) (naming env) = sanitize_path (file_name f2) (naming env)"
  shows "\<exists>p. saved_at fid1 (snd (session_run sid [(env, Upload_Event fid1 f1), (env, Upload_Event fid2 f2)] a)) = [p] \<and>
    saved_at fid2 (snd (session_run sid [(env, Upload_Event fid1 f1), (env, Upload_Event fid2 f2)] a)) = [p]"
proof -
  obtain p where p: "unique_path (naming env) (on_disk_names env) (file_name f1) = Some p"
    using unique_path_terminates [OF assms(3)] by blast
  then have q: "unique_path (naming env) (on_disk_names env) (file_name f2) = Some p"
    using unique_path_cong [OF assms(4)] by simp
  let ?a = "fst (handle_file_upload env sid fid1 f1 a)"
  obtain s' where s': "session_of ?a sid = Some s'" using upload_effects(3) [OF assms(1) p] by blast
  have "saved_at fid [] = []" for fid by (simp add: saved_at_def map_filter_simps)
  then show ?thesis
    using upload_effects [OF assms(1) p, where fid = fid1] upload_effects(2) [OF s' q assms(2)]
      upload_effects(1) [OF s' q, of fid2] upload_effects(2) [OF assms(1) p, where fid = fid1 and fid' = fid2] assms(2)
    by (simp add: run_events Let_def saved_at_append)
qed

theorem uploads_share_path_witness:
  "\<exists>p. saved_at ''f1'' (snd (session_run ''s1''
       [(sample_env, Upload_Event ''f1'' (sample_dto ''f1'' 2)), (sample_env, Upload_Event ''f2'' (sample_dto ''f1'' 2))]
       receiving_app)) = [p]"
proof -
  have "session_of receiving_app ''s1'' = a_receive receiving_app"
    by (simp add: session_of_def receiving_app_def new_session_def)
  then obtain s where "session_of receiving_app ''s1'' = Some s" by (simp add: receiving_app_def)
  moreover have "finite {n. on_disk_names sample_env n}" by (simp add: sample_env_def)
  ultimately show ?thesis
    using uploads_share_path [of receiving_app "''s1''" s "''f1''" "''f2''" sample_env "sample_dto ''f1'' 2" "sample_dto ''f1'' 2"]
    by auto
qed

text \<open>
  The application keeps one entry for a file, and the result of an upload removes it whichever upload
  it belongs to: when the server asks again for a file before the result of the first try is there, that
  result ends the file, and with the end of the session the summary is printed, and the application free,
  while the second try is still being saved.
\<close>

theorem retried_upload_early_summary:
  "let run = session_run sid
       [(e1, Upload_Event fid dto), (e2, Upload_Event fid dto), (e3, Result_Event fid (Inl err)),
        (e4, End_Event Finished)] (a\<lparr>a_receive := Some (new_session sid name sender files)\<rparr>)
   in a_receive (fst run) = None \<and> filter is_summary (snd run) = [Notice (N_Received name 0 0 1)]"
  by (simp add: run_events Let_def handle_file_upload_def receive_file_result_def on_session_end_def
      finish_receive_if_done_def session_of_def new_session_def split: option.split)

end
