(* ===== verification/Client_V2.thy ===== *)
theory Client_V2
  imports Http_Routes
begin

text \<open>
  The clients of \<open>http/client/v2.rs\<close> and \<open>v3.rs\<close> and what they share (\<open>http/client/mod.rs\<close>): the
  request each operation makes and how it reads what comes back. The exchange itself (reqwest, TLS with
  its handshake) is the answer a definition is given; JSON, X.509 and the encoding of scoped hosts are
  arguments.
\<close>

section \<open>Requests and responses\<close>

datatype request_body = Json_Body string | Stream_Body | Empty_Body

record http_request =
  rq_method :: http_method
  rq_url :: string
  rq_json_type :: bool      \<comment> \<open>the header \<open>Content-Type: application/json\<close>\<close>
  rq_body :: request_body

text \<open>
  \<open>hr_tls\<close>: the \<open>TlsInfo\<close> of the response, with the certificate of the peer; \<open>hr_remote\<close>: its address.
\<close>

record http_response =
  hr_status :: status_code
  hr_text :: string
  hr_tls :: "bytes option option"
  hr_remote :: "ip_addr option"

datatype client_error =
    Status_Code status_code_error
  | Reqwest string
  | Json string
  | Io string
  | Other string
  | Client_Cancelled

text \<open>How an exchange ends: with a response, an error of the transport, or the cancellation token.\<close>

datatype exchange = Responded http_response | Not_Sent string | Token_Cancelled

fun received :: "exchange \<Rightarrow> client_error + http_response" where
  "received (Responded res) = Inr res"
| "received (Not_Sent e) = Inl (Reqwest e)"
| "received Token_Cancelled = Inl Client_Cancelled"

fun and_try :: "'e + 'a \<Rightarrow> ('a \<Rightarrow> 'e + 'b) \<Rightarrow> 'e + 'b" where
  "and_try (Inl e) f = Inl e"
| "and_try (Inr x) f = f x"

lemma and_try_Inr: "and_try r f = Inr y \<longleftrightarrow> (\<exists>x. r = Inr x \<and> f x = Inr y)"
  by (cases r) simp_all

text \<open>The X.509 crate and SHA-256.\<close>

record cert_ops =
  verify_der :: "bytes \<Rightarrow> string option \<Rightarrow> string + unit"
  key_of_der :: "bytes \<Rightarrow> string + string"
  sha_256 :: "bytes \<Rightarrow> bytes"

definition as_other :: "string + 'a \<Rightarrow> client_error + 'a" where
  "as_other r = (case r of Inl e \<Rightarrow> Inl (Other e) | Inr x \<Rightarrow> Inr x)"

definition peer_certificate :: "http_response \<Rightarrow> client_error + bytes" where
  "peer_certificate res =
     (case hr_tls res of
        None \<Rightarrow> Inl (Other ''TLS info not found'')
      | Some None \<Rightarrow> Inl (Other ''Certificate not found'')
      | Some (Some c) \<Rightarrow> Inr c)"

definition verify_cert_from_res :: "cert_ops \<Rightarrow> http_response \<Rightarrow> string option \<Rightarrow> client_error + string" where
  "verify_cert_from_res ops res public_key =
     and_try (peer_certificate res) (\<lambda>c.
       and_try (as_other (verify_der ops c public_key)) (\<lambda>_.
         case public_key of Some k \<Rightarrow> Inr k | None \<Rightarrow> as_other (key_of_der ops c)))"

definition cert_fingerprint_from_res :: "cert_ops \<Rightarrow> http_response \<Rightarrow> client_error + rstring" where
  "cert_fingerprint_from_res ops res =
     and_try (peer_certificate res) (\<lambda>c. Inr (fingerprint_from_cert_der (sha_256 ops) c))"

record 'a with_public_key =
  wk_public_key :: "string option"
  wk_cert_fingerprint :: "rstring option"
  wk_body :: 'a

definition failure :: "(string \<Rightarrow> string option) \<Rightarrow> http_response \<Rightarrow> client_error + 'a" where
  "failure parse_message res = Inl (Status_Code (into_error parse_message (hr_status res) (hr_text res)))"

definition parsed :: "(string \<Rightarrow> 'a option) \<Rightarrow> http_response \<Rightarrow> client_error + 'a" where
  "parsed parse res = (case parse (hr_text res) of Some x \<Rightarrow> Inr x | None \<Rightarrow> Inl (Reqwest ''error decoding response body''))"

text \<open>The certificate check of a request that may carry a public key to expect.\<close>

definition checked :: "cert_ops \<Rightarrow> protocol_type \<Rightarrow> string option \<Rightarrow> http_response \<Rightarrow> client_error + http_response" where
  "checked ops prot public_key res =
     (if prot = Https then and_try (verify_cert_from_res ops res public_key) (\<lambda>_. Inr res) else Inr res)"

section \<open>Building requests\<close>

fun url_scheme :: "protocol_type \<Rightarrow> string" where
  "url_scheme Http = ''http''"
| "url_scheme Https = ''https''"

text \<open>\<open>digits\<close> renders a port in decimal.\<close>

record address =
  ad_encode :: "string \<Rightarrow> string option"
  ad_digits :: "u16 \<Rightarrow> string"
  ad_protocol :: protocol_type
  ad_host :: string
  ad_port :: u16

definition request_url :: "address \<Rightarrow> string \<Rightarrow> (string \<times> string) list \<Rightarrow> string" where
  "request_url ad path params =
     target_url_to_string (ad_encode ad)
       \<lparr>tu_protocol = url_scheme (ad_protocol ad), tu_host = ad_host ad, tu_port = ad_digits ad (ad_port ad),
        tu_path = path, tu_params = params\<rparr>"

definition op_call :: "client_op \<Rightarrow> address \<Rightarrow> (string \<times> string) list \<Rightarrow> bool \<Rightarrow> request_body \<Rightarrow> http_request" where
  "op_call c ad params json_type body =
     (case op_request c of
        (meth, path) \<Rightarrow>
          \<lparr>rq_method = meth, rq_url = request_url ad path params, rq_json_type = json_type, rq_body = body\<rparr>)"

definition register_request :: "address \<Rightarrow> (register_dto_v2 \<Rightarrow> string) \<Rightarrow> register_dto_v2 \<Rightarrow> http_request" where
  "register_request ad to_json payload = op_call C2_Register ad [] True (Json_Body (to_json payload))"

definition prepare_upload_request ::
  "address \<Rightarrow> (prepare_request \<Rightarrow> string) \<Rightarrow> prepare_request \<Rightarrow> string option \<Rightarrow> http_request" where
  "prepare_upload_request ad to_json payload pin =
     op_call C2_PrepareUpload ad (case pin of Some p \<Rightarrow> [(''pin'', p)] | None \<Rightarrow> []) True (Json_Body (to_json payload))"

definition upload_params :: "string \<Rightarrow> string \<Rightarrow> string \<Rightarrow> (string \<times> string) list" where
  "upload_params sid fid token = [(''sessionId'', sid), (''fileId'', fid), (''token'', token)]"

definition upload_request :: "address \<Rightarrow> string \<Rightarrow> string \<Rightarrow> string \<Rightarrow> http_request" where
  "upload_request ad sid fid token = op_call C2_Upload ad (upload_params sid fid token) False Stream_Body"

definition cancel_request :: "address \<Rightarrow> string \<Rightarrow> http_request" where
  "cancel_request ad sid = op_call C2_Cancel ad [(''sessionId'', sid)] False Empty_Body"

definition info_request :: "address \<Rightarrow> http_request" where
  "info_request ad = op_call C2_Info ad [] False Empty_Body"

definition prepare_download_request :: "address \<Rightarrow> string option \<Rightarrow> string option \<Rightarrow> http_request" where
  "prepare_download_request ad sid pin =
     op_call C2_PrepareDownload ad
       ((case sid of Some s \<Rightarrow> [(''sessionId'', s)] | None \<Rightarrow> []) @
        (case pin of Some p \<Rightarrow> [(''pin'', p)] | None \<Rightarrow> [])) False Empty_Body"

definition download_request :: "address \<Rightarrow> string \<Rightarrow> string \<Rightarrow> http_request" where
  "download_request ad sid fid = op_call C2_Download ad [(''sessionId'', sid), (''fileId'', fid)] False Empty_Body"

section \<open>Reading responses\<close>

record 'a codec =
  c_message :: "string \<Rightarrow> string option"   \<comment> \<open>the message of an error body\<close>
  c_parse :: "string \<Rightarrow> 'a option"

definition register_result ::
  "cert_ops \<Rightarrow> info_response_v2 codec \<Rightarrow> protocol_type \<Rightarrow> exchange \<Rightarrow> client_error + info_response_v2 with_public_key" where
  "register_result ops js prot ex =
     and_try (received ex) (\<lambda>res.
       if hr_status res \<noteq> 200 then failure (c_message js) res
       else and_try (case prot of
               Https \<Rightarrow> and_try (verify_cert_from_res ops res None) (\<lambda>k.
                 and_try (cert_fingerprint_from_res ops res) (\<lambda>fp. Inr (Some k, Some fp)))
             | Http \<Rightarrow> Inr (None, None))
           (\<lambda>(k, fp). and_try (parsed (c_parse js) res) (\<lambda>b.
              Inr \<lparr>wk_public_key = k, wk_cert_fingerprint = fp, wk_body = b\<rparr>)))"

record upload_grant =
  ug_session :: string
  ug_files :: "(string \<times> string) list"

record prepared_upload =
  pu_status :: status_code
  pu_response :: "upload_grant option"

definition prepare_upload_result ::
  "cert_ops \<Rightarrow> upload_grant codec \<Rightarrow> protocol_type \<Rightarrow> string option \<Rightarrow> exchange \<Rightarrow> client_error + prepared_upload" where
  "prepare_upload_result ops js prot public_key ex =
     and_try (received ex) (\<lambda>res.
       and_try (checked ops prot public_key res) (\<lambda>res.
         if 400 \<le> hr_status res then failure (c_message js) res
         else if hr_status res = 204 then Inr \<lparr>pu_status = hr_status res, pu_response = None\<rparr>
         else and_try (parsed (c_parse js) res) (\<lambda>g.
           Inr \<lparr>pu_status = hr_status res, pu_response = Some g\<rparr>)))"

definition upload_result ::
  "cert_ops \<Rightarrow> (string \<Rightarrow> string option) \<Rightarrow> protocol_type \<Rightarrow> string option \<Rightarrow> exchange \<Rightarrow> client_error + unit" where
  "upload_result ops parse_message prot public_key ex =
     and_try (received ex) (\<lambda>res.
       and_try (checked ops prot public_key res) (\<lambda>res.
         if hr_status res \<noteq> 200 then failure parse_message res else Inr ()))"

text \<open>A cancel is content with any response.\<close>

definition cancel_result :: "exchange \<Rightarrow> client_error + unit" where
  "cancel_result ex = and_try (received ex) (\<lambda>_. Inr ())"

text \<open>\<open>info\<close> and \<open>prepare_download\<close> read their responses alike; \<open>download\<close> hands the response out.\<close>

definition json_result :: "'a codec \<Rightarrow> exchange \<Rightarrow> client_error + 'a" where
  "json_result js ex =
     and_try (received ex) (\<lambda>res.
       if hr_status res \<noteq> 200 then failure (c_message js) res else parsed (c_parse js) res)"

definition download_result :: "(string \<Rightarrow> string option) \<Rightarrow> exchange \<Rightarrow> client_error + http_response" where
  "download_result parse_message ex =
     and_try (received ex) (\<lambda>res. if hr_status res \<noteq> 200 then failure parse_message res else Inr res)"

text \<open>
  \<open>download_to_writer\<close>: the chunks of the body, each a piece or an error of the transport, are written
  one after the other; \<open>room\<close> tells how many bytes the writer takes, \<open>flush\<close> whether flushing works.
  Written bytes and the result.
\<close>

fun write_stream :: "nat option \<Rightarrow> (string + bytes) list \<Rightarrow> bytes \<Rightarrow> bytes \<times> (client_error + u64)" where
  "write_stream room [] out = (out, Inr (of_nat (length out)))"
| "write_stream room (Inl e # cs) out = (out, Inl (Reqwest e))"
| "write_stream room (Inr c # cs) out =
     (case room of
        None \<Rightarrow> write_stream room cs (out @ c)
      | Some n \<Rightarrow>
          if length c \<le> n then write_stream (Some (n - length c)) cs (out @ c)
          else (out @ take n c, Inl (Io ''write failed'')))"

definition download_to_writer ::
  "(string \<Rightarrow> string option) \<Rightarrow> exchange \<Rightarrow> (string + bytes) list \<Rightarrow> nat option \<Rightarrow> bool \<Rightarrow> bytes \<times> (client_error + u64)" where
  "download_to_writer parse_message ex chunks room flush =
     (case download_result parse_message ex of
        Inl e \<Rightarrow> ([], Inl e)
      | Inr _ \<Rightarrow>
          (case write_stream room chunks [] of
             (out, Inl e) \<Rightarrow> (out, Inl e)
           | (out, Inr n) \<Rightarrow> if flush then (out, Inr n) else (out, Inl (Io ''flush failed''))))"

text \<open>The body of an upload: its pieces as they are read, with the number of bytes reported at each.\<close>

fun upload_body :: "u64 \<Rightarrow> bytes list \<Rightarrow> (bytes \<times> u64) list" where
  "upload_body sent [] = []"
| "upload_body sent (c # cs) = (c, sent + of_nat (length c)) # upload_body (sent + of_nat (length c)) cs"

section \<open>The v3 client\<close>

text \<open>
  Registration reads the body whatever the status; preparing an upload takes no PIN; uploading and
  cancelling are as in v2. The nonce exchange remembers the nonces of both sides under the key of the peer.
\<close>

definition v3_register_result ::
  "cert_ops \<Rightarrow> register_response_dto codec \<Rightarrow> protocol_type \<Rightarrow> exchange \<Rightarrow> client_error + register_response_dto with_public_key" where
  "v3_register_result ops js prot ex =
     and_try (received ex) (\<lambda>res.
       and_try (case prot of
               Https \<Rightarrow> and_try (verify_cert_from_res ops res None) (\<lambda>k.
                 and_try (cert_fingerprint_from_res ops res) (\<lambda>fp. Inr (Some k, Some fp)))
             | Http \<Rightarrow> Inr (None, None))
           (\<lambda>(k, fp). and_try (parsed (c_parse js) res) (\<lambda>b.
              Inr \<lparr>wk_public_key = k, wk_cert_fingerprint = fp, wk_body = b\<rparr>)))"

definition to_identifier ::
  "cert_ops \<Rightarrow> (ip_addr \<Rightarrow> string) \<Rightarrow> http_response \<Rightarrow> bool \<Rightarrow> string option \<Rightarrow> client_error + string" where
  "to_identifier ops show_ip res require_cert public_key =
     (if require_cert then verify_cert_from_res ops res public_key
      else case hr_remote res of
        Some a \<Rightarrow> Inr (show_ip a)
      | None \<Rightarrow> Inl (Other ''Remote address not found in response''))"

definition nonce_result ::
  "cert_ops \<Rightarrow> (ip_addr \<Rightarrow> string) \<Rightarrow> string codec \<Rightarrow> (string \<Rightarrow> string + bytes) \<Rightarrow> protocol_type \<Rightarrow> bytes \<Rightarrow> exchange \<Rightarrow>
   nonce_map \<times> nonce_map \<Rightarrow> (client_error + string) \<times> nonce_map \<times> nonce_map" where
  "nonce_result ops show_ip js decode prot generated ex maps =
     (case and_try (received ex) (\<lambda>res.
             if hr_status res \<noteq> 200 then failure (c_message js) res
             else and_try (to_identifier ops show_ip res (prot = Https) None) (\<lambda>key.
               and_try (parsed (c_parse js) res) (\<lambda>text.
                 and_try (as_other (decode text)) (\<lambda>nonce. Inr (key, text, nonce))))) of
        Inl e \<Rightarrow> (Inl e, maps)
      | Inr (key, text, nonce) \<Rightarrow>
          (case maps of
             (received_nonces, generated_nonces) \<Rightarrow>
               (Inr text, (key, nonce) # received_nonces, (key, generated) # generated_nonces)))"

text \<open>\<open>LsHttpClient\<close> registers with either version and answers in the terms of v3.\<close>

definition any_register_result ::
  "bool \<Rightarrow> cert_ops \<Rightarrow> info_response_v2 codec \<Rightarrow> register_response_dto codec \<Rightarrow> protocol_type \<Rightarrow> exchange \<Rightarrow>
   client_error + register_response_dto with_public_key" where
  "any_register_result v2 ops js2 js3 prot ex =
     (if v2 then and_try (register_result ops js2 prot ex) (\<lambda>r.
        Inr \<lparr>wk_public_key = wk_public_key r, wk_cert_fingerprint = wk_cert_fingerprint r,
             wk_body = register_response_from_v2 (wk_body r)\<rparr>)
      else v3_register_result ops js3 prot ex)"

section \<open>The responses of the server\<close>

text \<open>How the server renders an error, and the reply of a prepare-upload; \<open>tls\<close> is the connection.\<close>

record grant_json =
  j_error :: "string \<Rightarrow> string"
  j_grant :: "upload_grant \<Rightarrow> string"

definition error_response ::
  "grant_json \<Rightarrow> (status_code \<Rightarrow> string) \<Rightarrow> bytes option option \<Rightarrow> app_error \<Rightarrow> http_response" where
  "error_response out show_code tls e =
     (let r = to_response show_code e
      in \<lparr>hr_status = resp_status r, hr_text = j_error out (resp_message r), hr_tls = tls, hr_remote = None\<rparr>)"

definition prepare_response ::
  "grant_json \<Rightarrow> (status_code \<Rightarrow> string) \<Rightarrow> bytes option option \<Rightarrow> prepare_reply \<Rightarrow> http_response" where
  "prepare_response out show_code tls reply =
     (case reply of
        Inl e \<Rightarrow> error_response out show_code tls e
      | Inr NoContent \<Rightarrow> \<lparr>hr_status = 204, hr_text = [], hr_tls = tls, hr_remote = None\<rparr>
      | Inr (Session sid tokens) \<Rightarrow>
          \<lparr>hr_status = 200, hr_text = j_grant out \<lparr>ug_session = sid, ug_files = tokens\<rparr>, hr_tls = tls,
           hr_remote = None\<rparr>)"

definition upload_response ::
  "grant_json \<Rightarrow> (status_code \<Rightarrow> string) \<Rightarrow> bytes option option \<Rightarrow> app_error + unit \<Rightarrow> http_response" where
  "upload_response out show_code tls reply =
     (case reply of
        Inl e \<Rightarrow> error_response out show_code tls e
      | Inr _ \<Rightarrow> \<lparr>hr_status = 200, hr_text = [], hr_tls = tls, hr_remote = None\<rparr>)"

section \<open>What the client makes of them\<close>

text \<open>The JSON of the two sides fits together.\<close>

definition json_fits :: "grant_json \<Rightarrow> upload_grant codec \<Rightarrow> bool" where
  "json_fits out js \<longleftrightarrow> (\<forall>m. c_message js (j_error out m) = Some m) \<and> (\<forall>g. c_parse js (j_grant out g) = Some g)"

text \<open>The connection is one whose certificate passes, if it needs one.\<close>

definition passes :: "cert_ops \<Rightarrow> protocol_type \<Rightarrow> string option \<Rightarrow> bytes option option \<Rightarrow> bool" where
  "passes ops prot public_key tls \<longleftrightarrow>
     (prot = Https \<longrightarrow> (\<exists>c. tls = Some (Some c) \<and> is_ok (verify_der ops c public_key) \<and>
        (public_key = None \<longrightarrow> is_ok (key_of_der ops c))))"

definition client_error_of :: "(status_code \<Rightarrow> string) \<Rightarrow> app_error \<Rightarrow> client_error" where
  "client_error_of show_code e =
     (let m = resp_message (to_response show_code e)
      in Status_Code \<lparr>sce_status = error_status e, sce_message = (if m = [] then None else Some m)\<rparr>)"

lemma checked_passes:
  assumes "passes ops prot public_key (hr_tls res)"
  shows "checked ops prot public_key res = Inr res"
proof (cases prot)
  case Https
  then obtain c where "hr_tls res = Some (Some c)" "is_ok (verify_der ops c public_key)"
    "public_key = None \<longrightarrow> is_ok (key_of_der ops c)" using assms by (auto simp: passes_def)
  then show ?thesis
    by (auto simp: checked_def verify_cert_from_res_def peer_certificate_def as_other_def is_ok_iff
        split: option.split)
qed (simp add: checked_def)

lemma error_response_simps [simp]:
  "hr_status (error_response out show_code tls e) = error_status e"
  "hr_tls (error_response out show_code tls e) = tls"
  "hr_text (error_response out show_code tls e) = j_error out (resp_message (to_response show_code e))"
  by (simp_all add: error_response_def Let_def)

lemma failure_error_response:
  "json_fits out js \<Longrightarrow> failure (c_message js) (error_response out show_code tls e) = Inl (client_error_of show_code e)"
  by (simp add: failure_def into_error_def json_fits_def client_error_of_def Let_def)

lemma prepare_read:
  assumes "json_fits out js" and "passes ops prot public_key tls"
    and "\<And>e. reply = Inl e \<Longrightarrow> 400 \<le> error_status e"
  shows "prepare_upload_result ops js prot public_key (Responded (prepare_response out show_code tls reply)) =
    (case reply of
       Inl e \<Rightarrow> Inl (client_error_of show_code e)
     | Inr NoContent \<Rightarrow> Inr \<lparr>pu_status = 204, pu_response = None\<rparr>
     | Inr (Session sid tokens) \<Rightarrow>
         Inr \<lparr>pu_status = 200, pu_response = Some \<lparr>ug_session = sid, ug_files = tokens\<rparr>\<rparr>)"
proof (cases reply)
  case (Inl e)
  then have "400 \<le> error_status e" by (rule assms(3))
  with Inl assms(1,2) show ?thesis
    by (simp add: prepare_upload_result_def prepare_response_def checked_passes failure_error_response)
next
  case (Inr ok)
  with assms(1,2) show ?thesis
    by (cases ok) (simp_all add: prepare_upload_result_def prepare_response_def checked_passes parsed_def json_fits_def)
qed

lemma upload_read:
  assumes "json_fits out js" and "passes ops prot public_key tls"
    and "\<And>e. reply = Inl e \<Longrightarrow> error_status e \<noteq> 200"
  shows "upload_result ops (c_message js) prot public_key (Responded (upload_response out show_code tls reply)) =
    (case reply of Inl e \<Rightarrow> Inl (client_error_of show_code e) | Inr _ \<Rightarrow> Inr ())"
proof (cases reply)
  case (Inl e)
  then have "error_status e \<noteq> 200" by (rule assms(3))
  with Inl assms(1,2) show ?thesis
    by (simp add: upload_result_def upload_response_def checked_passes failure_error_response)
next
  case (Inr u)
  with assms(1,2) show ?thesis by (simp add: upload_result_def upload_response_def checked_passes)
qed

text \<open>Every error of the two handlers has a status the client takes for an error.\<close>

lemma check_pin_status: "check_pin ops correct cache q addr = (Inl e, c) \<Longrightarrow> 400 \<le> error_status e"
  by (auto simp: check_pin_def Let_def split: option.splits if_splits prod.splits)

lemma after_decision_status:
  "after_decision new_token files woken = ReturnArmed e \<or>
   after_decision new_token files woken = ClearAndReturn (Inl e) \<Longrightarrow> 400 \<le> error_status e"
  by (cases "(new_token, files, woken)" rule: after_decision.cases) (auto simp: Let_def split: if_splits)

lemma prepare_upload_status:
  assumes "prepare_upload ops sha v2opt query client body sid tok new_token sent woken = (Inl e, v2opt', evs)"
    and "\<And>e. body = Inl e \<Longrightarrow> 400 \<le> error_status e"
  shows "400 \<le> error_status e"
  using assms check_pin_status [of ops]
  by (auto simp: prepare_upload_def require_v2_def claim_slot_def session_reply_def Let_def
      dest!: after_decision_status [OF disjI1] after_decision_status [OF disjI2]
      split: option.splits sum.splits prod.splits if_splits prepare_next.splits)

lemma upload_status:
  assumes "upload sha parse v2opt query addr sent target frames limit = (Inl e, v2opt', evs)"
  shows "error_status e \<noteq> 200"
proof -
  have "upload_reply r = Inl e \<Longrightarrow> error_status e \<noteq> 200" for r by (cases r) auto
  with assms show ?thesis
    by (auto simp: upload_def require_v2_def begin_upload_def invalid_token_error_def Let_def
        split: option.splits sum.splits prod.splits if_splits session_state.splits)
qed

text \<open>What is downloaded: exactly the body, or the reason why not.\<close>

lemma write_stream_all: "write_stream None (map Inr cs) out = (out @ concat cs, Inr (of_nat (length (out @ concat cs))))"
  by (induction cs arbitrary: out) simp_all

lemma write_stream_Ok:
  "write_stream room cs out = (out', Inr n) \<Longrightarrow> \<exists>ds. cs = map Inr ds \<and> out' = out @ concat ds \<and> n = of_nat (length out')"
proof (induction room cs out rule: write_stream.induct)
  case (3 room c cs out)
  then obtain room' where "write_stream room' cs (out @ c) = (out', Inr n)"
    and "\<exists>ds. cs = map Inr ds \<and> out' = (out @ c) @ concat ds \<and> n = of_nat (length out')"
    by (auto split: option.splits if_splits)
  then obtain ds where "cs = map Inr ds" "out' = (out @ c) @ concat ds" "n = of_nat (length out')" by blast
  then show ?case by (intro exI [of _ "c # ds"]) simp
qed auto

lemma upload_body_chunks: "map fst (upload_body sent cs) = cs"
  by (induction cs arbitrary: sent) simp_all

lemma upload_body_total:
  "cs \<noteq> [] \<Longrightarrow> snd (last (upload_body sent cs)) = sent + of_nat (length (concat cs))"
proof (induction cs arbitrary: sent)
  case (Cons c cs)
  have "upload_body s cs = [] \<longleftrightarrow> cs = []" for s by (cases cs) simp_all
  then show ?case using Cons by (cases "cs = []") (simp_all add: add.assoc)
qed simp

text \<open>Over TLS the identity a registration reports is the certificate of the connection.\<close>

lemma register_identity:
  "register_result ops js Https ex = Inr r \<Longrightarrow>
   \<exists>res c. ex = Responded res \<and> hr_tls res = Some (Some c) \<and>
     wk_cert_fingerprint r = Some (fingerprint_from_cert_der (sha_256 ops) c)"
  by (cases ex)
    (auto simp: register_result_def and_try_Inr cert_fingerprint_from_res_def peer_certificate_def failure_def
      split: if_splits option.splits)

end
