(* ===== verification/Cli_Send.thy ===== *)
theory Cli_Send
  imports Cli_Receive Client_V2
begin

text \<open>
  Sending from the command line: which files the picked paths stand for (\<open>collect_path\<close>,
  \<open>collect_files\<close> of \<open>app/sending.rs\<close>) and the send task of \<open>send_task.rs\<close> against any receiver, whose
  side of the exchange is a state the requests of the client act on.
\<close>

section \<open>Collecting files\<close>

text \<open>A path as its components (\<open>Path::components\<close>).\<close>

datatype component = Root_Dir | Cur_Dir | Parent_Dir | Normal rstring

type_synonym path = "component list"

definition path_file_name :: "path \<Rightarrow> rstring option" where
  "path_file_name p = (case rev p of Normal n # _ \<Rightarrow> Some n | _ \<Rightarrow> None)"

definition strip_prefix :: "path \<Rightarrow> path \<Rightarrow> path option" where
  "strip_prefix base p = (if take (length base) p = base then Some (drop (length base) p) else None)"

fun normal_name :: "component \<Rightarrow> rstring option" where
  "normal_name (Normal n) = Some n"
| "normal_name c = None"

fun join_slash :: "rstring list \<Rightarrow> rstring" where
  "join_slash [] = []"
| "join_slash [x] = x"
| "join_slash (x # y # xs) = x @ 47 # join_slash (y # xs)"

text \<open>
  The file system: \<open>Path::metadata\<close> with the timestamps as the protocol formats them, \<open>canonicalize\<close>,
  the type by extension (\<open>mime_guess\<close>), and the entries \<open>WalkDir\<close> yields below a directory, sorted by
  name, each with whether it is a regular file.
\<close>

record file_meta =
  fm_file :: bool
  fm_dir :: bool
  fm_len :: u64
  fm_times :: "file_metadata option"

datatype walk_item = Walk_Entry path bool | Walk_Failed "path option" string

record disk =
  stat :: "path \<Rightarrow> string + file_meta"
  canonical :: "path \<Rightarrow> path option"
  mime :: "path \<Rightarrow> string"
  walk :: "path \<Rightarrow> walk_item list"

type_synonym collected = "(path \<times> string) + (path \<times> rstring)"

definition walked :: "path \<Rightarrow> rstring \<Rightarrow> walk_item \<Rightarrow> collected option" where
  "walked path root item =
     (case item of
        Walk_Entry p True \<Rightarrow>
          (case strip_prefix path p of
             Some relative \<Rightarrow> Some (Inr (p, join_slash (root # List.map_filter normal_name relative)))
           | None \<Rightarrow> Some (Inl (p, ''prefix not found'')))
      | Walk_Entry p False \<Rightarrow> None
      | Walk_Failed at e \<Rightarrow> Some (Inl (case at of Some p \<Rightarrow> p | None \<Rightarrow> path, e)))"

definition root_name :: "disk \<Rightarrow> path \<Rightarrow> rstring option" where
  "root_name d path =
     (case path_file_name path of
        Some n \<Rightarrow> Some n
      | None \<Rightarrow> Option.bind (canonical d path) path_file_name)"

definition collect_path :: "disk \<Rightarrow> path \<Rightarrow> collected list" where
  "collect_path d path =
     (case stat d path of
        Inl e \<Rightarrow> [Inl (path, e)]
      | Inr m \<Rightarrow>
          if fm_file m
          then [Inr (path, case path_file_name path of Some n \<Rightarrow> n | None \<Rightarrow> lit ''unnamed'')]
          else if \<not> fm_dir m then [Inl (path, ''not a regular file or directory'')]
          else case root_name d path of
                 None \<Rightarrow> [Inl (path, ''directory has no transferable name'')]
               | Some root \<Rightarrow> List.map_filter (walked path root) (walk d path))"

datatype skipped = Unreadable_Path path string | Unreadable_File path

record collection =
  co_files :: "(string \<times> file_dto) list"
  co_paths :: "(string \<times> path) list"
  co_total :: u64
  co_skipped :: "skipped list"

definition collect_one :: "disk \<Rightarrow> string \<Rightarrow> path \<Rightarrow> rstring \<Rightarrow> file_meta \<Rightarrow> collection \<Rightarrow> collection" where
  "collect_one d i p name m c =
     c\<lparr>co_total := co_total c + fm_len m,
       co_files := AList.update i \<lparr>dto_id = i, file_name = name, size_of = fm_len m, file_type = mime d p,
         sha256 = None, preview = None, metadata = fm_times m\<rparr> (co_files c),
       co_paths := AList.update i p (co_paths c)\<rparr>"

text \<open>\<open>ids\<close> are the ids drawn one after the other, \<open>k\<close> of them so far.\<close>

fun collect_loop :: "disk \<Rightarrow> (nat \<Rightarrow> string) \<Rightarrow> collected list \<Rightarrow> nat \<Rightarrow> collection \<Rightarrow> collection" where
  "collect_loop d ids [] k c = c"
| "collect_loop d ids (Inl (p, e) # xs) k c =
     collect_loop d ids xs k (c\<lparr>co_skipped := co_skipped c @ [Unreadable_Path p e]\<rparr>)"
| "collect_loop d ids (Inr (p, name) # xs) k c =
     (case stat d p of
        Inr m \<Rightarrow>
          if fm_file m then collect_loop d ids xs (k + 1) (collect_one d (ids k) p name m c)
          else collect_loop d ids xs k (c\<lparr>co_skipped := co_skipped c @ [Unreadable_File p]\<rparr>)
      | Inl e \<Rightarrow> collect_loop d ids xs k (c\<lparr>co_skipped := co_skipped c @ [Unreadable_File p]\<rparr>))"

definition collect_files :: "disk \<Rightarrow> (nat \<Rightarrow> string) \<Rightarrow> path list \<Rightarrow> collection" where
  "collect_files d ids picked =
     collect_loop d ids (concat (map (collect_path d) picked)) 0
       \<lparr>co_files = [], co_paths = [], co_total = 0, co_skipped = []\<rparr>"

section \<open>The send task\<close>

datatype send_text =
    St_No_Address
  | St_No_Client string
  | St_Cancelled
  | St_Pin_Required
  | St_Declined
  | St_Blocked
  | St_Too_Many
  | St_Status status_code "rstring option"
  | St_Error client_error
  | St_All_Declined
  | St_Accepted nat nat
  | St_By_Receiver nat
  | St_Cancelled_After nat
  | St_Upload_Failed rstring client_error
  | St_Sent nat u64

text \<open>What the task does that others see: log lines, events, the progress it stores, requests.\<close>

datatype send_action =
    Log_Line rstring send_text
  | Session_Started string u64
  | Progress u64
  | Put string string string path
  | Cancel_Session string
  | Send_Ended bool

text \<open>
  The client once it has an address to talk to: what its requests return and what they do to the other
  side, whose state is \<open>'s\<close>.
\<close>

record 's remote =
  do_prepare :: "prepare_request \<Rightarrow> 's \<Rightarrow> (client_error + prepared_upload) \<times> 's"
  do_upload :: "string \<Rightarrow> string \<Rightarrow> string \<Rightarrow> path \<Rightarrow> 's \<Rightarrow> (client_error + unit) \<times> 's"
  do_cancel :: "string \<Rightarrow> 's \<Rightarrow> 's"

fun refusal :: "status_code_error \<Rightarrow> send_text" where
  "refusal err =
     (if sce_status err = 401 then St_Pin_Required
      else if sce_status err = 403 then St_Declined
      else if sce_status err = 409 then St_Blocked
      else if sce_status err = 429 then St_Too_Many
      else St_Status (sce_status err) (map_option (\<lambda>m. single_line (lit m)) (sce_message err)))"

text \<open>
  The uploads one after the other; \<open>by_peer\<close>: the receiver asked for the cancellation. A missing entry
  is a panic, and the result is \<open>None\<close>.
\<close>

fun upload_files ::
  "'s remote \<Rightarrow> bool \<Rightarrow> rstring \<Rightarrow> string \<Rightarrow> (string \<times> file_dto) list \<Rightarrow> (string \<times> path) list \<Rightarrow> (string \<times> string) list \<Rightarrow>
   string list \<Rightarrow> nat \<Rightarrow> u64 \<Rightarrow> 's \<Rightarrow> send_action list \<times> bool option \<times> 's" where
  "upload_files net by_peer name sid files paths tokens [] n bytes s =
     ([Log_Line name (St_Sent n bytes)], Some True, s)"
| "upload_files net by_peer name sid files paths tokens (fid # fids) n bytes s =
     (case (map_of tokens fid, map_of files fid, map_of paths fid) of
        (Some token, Some file, Some path) \<Rightarrow>
          (case do_upload net sid fid token path s of
             (Inr _, s) \<Rightarrow>
               (case upload_files net by_peer name sid files paths tokens fids (n + 1) (bytes + size_of file) s of
                  (acts, r, s) \<Rightarrow> (Put sid fid token path # Progress (bytes + size_of file) # acts, r, s))
           | (Inl Client_Cancelled, s) \<Rightarrow>
               if by_peer then ([Put sid fid token path, Log_Line name (St_By_Receiver n)], Some False, s)
               else ([Put sid fid token path, Cancel_Session sid, Log_Line name (St_Cancelled_After n)],
                     Some False, do_cancel net sid s)
           | (Inl e, s) \<Rightarrow>
               ([Put sid fid token path, Log_Line name (St_Upload_Failed (file_name file) e), Cancel_Session sid],
                Some False, do_cancel net sid s))
      | _ \<Rightarrow> ([], None, s))"

definition accepted_bytes :: "(string \<times> file_dto) list \<Rightarrow> (string \<times> string) list \<Rightarrow> u64" where
  "accepted_bytes files tokens = sum_list (map size_of (List.map_filter (map_of files) (map fst tokens)))"

definition upload_order :: "(string \<times> file_dto) list \<Rightarrow> (string \<times> string) list \<Rightarrow> string list" where
  "upload_order files tokens = sort_key (\<lambda>fid. file_name (the (map_of files fid))) (map fst tokens)"

text \<open>With two ids or more the sort looks every id up, and panics on one that was never offered.\<close>

definition after_grant ::
  "'s remote \<Rightarrow> bool \<Rightarrow> rstring \<Rightarrow> (string \<times> file_dto) list \<Rightarrow> (string \<times> path) list \<Rightarrow> upload_grant \<Rightarrow> 's \<Rightarrow>
   send_action list \<times> bool option \<times> 's" where
  "after_grant net by_peer name files paths g s =
     (let tokens = ug_files g;
          start = Session_Started (ug_session g) (accepted_bytes files tokens) #
            (if length tokens < length files then [Log_Line name (St_Accepted (length tokens) (length files))] else [])
      in if 2 \<le> length tokens \<and> list_ex (\<lambda>(fid, _). map_of files fid = None) tokens then (start, None, s)
         else case upload_files net by_peer name (ug_session g) files paths tokens (upload_order files tokens) 0 0 s of
                (acts, r, s) \<Rightarrow> (start @ acts, r, s))"

definition expected_fingerprint :: "http_channel \<Rightarrow> stateful_device \<Rightarrow> string option" where
  "expected_fingerprint http d =
     (case ch_protocol http of Https \<Rightarrow> Some (d_fingerprint (device d)) | Http \<Rightarrow> None)"

definition send_inner ::
  "(string \<Rightarrow> bool) \<Rightarrow> (http_channel \<Rightarrow> string option \<Rightarrow> string + 's remote) \<Rightarrow> register_dto_v2 \<Rightarrow> bool \<Rightarrow>
   stateful_device \<Rightarrow> (string \<times> file_dto) list \<Rightarrow> (string \<times> path) list \<Rightarrow> 's \<Rightarrow> send_action list \<times> bool option \<times> 's" where
  "send_inner is_v6 connect own_info by_peer d files paths s =
     (let name = single_line (lit (d_alias (device d)))
      in case get_best_channel is_v6 d of
           None \<Rightarrow> ([Log_Line name St_No_Address], Some False, s)
         | Some ch \<Rightarrow>
             (let http = http_of ch
              in case connect http (expected_fingerprint http d) of
                   Inl e \<Rightarrow> ([Log_Line name (St_No_Client e)], Some False, s)
                 | Inr net \<Rightarrow>
                     (case do_prepare net \<lparr>pr_info = own_info, pr_files = files\<rparr> s of
                        (Inl Client_Cancelled, s) \<Rightarrow> ([Log_Line name St_Cancelled], Some False, s)
                      | (Inl (Status_Code err), s) \<Rightarrow> ([Log_Line name (refusal err)], Some False, s)
                      | (Inl e, s) \<Rightarrow> ([Log_Line name (St_Error e)], Some False, s)
                      | (Inr prepared, s) \<Rightarrow>
                          (case pu_response prepared of
                             None \<Rightarrow> ([Log_Line name St_All_Declined], Some False, s)
                           | Some g \<Rightarrow> after_grant net by_peer name files paths g s))))"

text \<open>The task as it was meant to end: with the event \<open>SendEnded\<close>; a panic ends it without.\<close>

definition run_send ::
  "(string \<Rightarrow> bool) \<Rightarrow> (http_channel \<Rightarrow> string option \<Rightarrow> string + 's remote) \<Rightarrow> register_dto_v2 \<Rightarrow> bool \<Rightarrow>
   stateful_device \<Rightarrow> (string \<times> file_dto) list \<Rightarrow> (string \<times> path) list \<Rightarrow> 's \<Rightarrow> send_action list \<times> 's" where
  "run_send is_v6 connect own_info by_peer d files paths s =
     (case send_inner is_v6 connect own_info by_peer d files paths s of
        (acts, Some success, s) \<Rightarrow> (acts @ [Send_Ended success], s)
      | (acts, None, s) \<Rightarrow> (acts, s))"

section \<open>What is collected\<close>

text \<open>Ids drawn fresh keep the two maps in step, and the total is that of the files.\<close>

definition collection_ok :: "(nat \<Rightarrow> string) \<Rightarrow> nat \<Rightarrow> collection \<Rightarrow> bool" where
  "collection_ok ids k c \<longleftrightarrow>
     map fst (co_files c) = map ids [0..<k] \<and> map fst (co_paths c) = map ids [0..<k] \<and>
     co_total c = sum_list (map (size_of \<circ> snd) (co_files c)) \<and>
     (\<forall>(i, f) \<in> set (co_files c). dto_id f = i)"

lemma update_new: "k \<notin> fst ` set xs \<Longrightarrow> AList.update k v xs = xs @ [(k, v)]"
  by (induction xs) auto

lemma collect_one_ok:
  assumes "inj ids" "collection_ok ids k c"
  shows "collection_ok ids (k + 1) (collect_one d (ids k) p name m c)"
proof -
  have "ids k \<notin> set (map ids [0..<k])" using assms(1) by (auto dest: injD)
  then have "ids k \<notin> set (map fst (co_files c))" "ids k \<notin> set (map fst (co_paths c))"
    using assms(2) by (simp_all only: collection_ok_def not_False_eq_True)
  then have "ids k \<notin> fst ` set (co_files c)" "ids k \<notin> fst ` set (co_paths c)" by simp_all
  then show ?thesis using assms(2)
    by (auto simp: collection_ok_def collect_one_def update_new)
qed

lemma collect_loop_ok:
  "inj ids \<Longrightarrow> collection_ok ids k c \<Longrightarrow> \<exists>k'. collection_ok ids k' (collect_loop d ids xs k c)"
proof (induction d ids xs k c rule: collect_loop.induct)
  case (2 d ids p e xs k c)
  then show ?case by (auto simp: collection_ok_def)
next
  case (3 d ids p name xs k c)
  have ok: "collection_ok ids (k + 1) (collect_one d (ids k) p name m c)" for m
    by (rule collect_one_ok [OF 3(4,5)])
  show ?case
  proof (cases "stat d p")
    case (Inl e)
    then show ?thesis using 3(1) [OF Inl 3(4)] 3(5) by (simp add: collection_ok_def)
  next
    case (Inr m)
    then show ?thesis using 3(2) [OF Inr _ 3(4) ok] 3(3) [OF Inr _ 3(4)] 3(5)
      by (simp add: collection_ok_def)
  qed
qed auto

lemma collect_files_ok: "inj ids \<Longrightarrow> \<exists>k. collection_ok ids k (collect_files d ids picked)"
  unfolding collect_files_def by (rule collect_loop_ok) (simp_all add: collection_ok_def)

lemma collected_keys:
  assumes "inj ids"
  shows "distinct (map fst (co_files (collect_files d ids picked)))"
    and "fst ` set (co_paths (collect_files d ids picked)) = fst ` set (co_files (collect_files d ids picked))"
    and "co_total (collect_files d ids picked) = sum_list (map (size_of \<circ> snd) (co_files (collect_files d ids picked)))"
proof -
  obtain k where "collection_ok ids k (collect_files d ids picked)" using collect_files_ok [OF assms] by blast
  then have *: "map fst (co_files (collect_files d ids picked)) = map ids [0..<k]"
    "map fst (co_paths (collect_files d ids picked)) = map ids [0..<k]"
    "co_total (collect_files d ids picked) = sum_list (map (size_of \<circ> snd) (co_files (collect_files d ids picked)))"
    by (simp_all add: collection_ok_def)
  show "distinct (map fst (co_files (collect_files d ids picked)))"
    unfolding *(1) using assms by (simp add: distinct_map inj_on_subset [of ids UNIV])
  show "fst ` set (co_paths (collect_files d ids picked)) = fst ` set (co_files (collect_files d ids picked))"
    using *(1,2) by (metis set_map)
  show "co_total (collect_files d ids picked) = sum_list (map (size_of \<circ> snd) (co_files (collect_files d ids picked)))"
    by (rule *(3))
qed

section \<open>What is sent\<close>

definition puts :: "send_action list \<Rightarrow> (string \<times> string \<times> string \<times> path) list" where
  "puts acts = List.map_filter (\<lambda>a. case a of Put sid fid tok p \<Rightarrow> Some (sid, fid, tok, p) | _ \<Rightarrow> None) acts"

definition cancels :: "send_action list \<Rightarrow> string list" where
  "cancels acts = List.map_filter (\<lambda>a. case a of Cancel_Session sid \<Rightarrow> Some sid | _ \<Rightarrow> None) acts"

definition ends :: "send_action list \<Rightarrow> bool list" where
  "ends acts = List.map_filter (\<lambda>a. case a of Send_Ended b \<Rightarrow> Some b | _ \<Rightarrow> None) acts"

lemma trace_simps [simp]:
  "puts (xs @ ys) = puts xs @ puts ys" "cancels (xs @ ys) = cancels xs @ cancels ys" "ends (xs @ ys) = ends xs @ ends ys"
  "puts [] = []" "cancels [] = []" "ends [] = []"
  "puts (Put sid fid tok p # xs) = (sid, fid, tok, p) # puts xs"
  "puts (Log_Line nm t # xs) = puts xs" "puts (Session_Started sid n # xs) = puts xs" "puts (Progress n # xs) = puts xs"
  "puts (Cancel_Session sid # xs) = puts xs" "puts (Send_Ended b # xs) = puts xs"
  "cancels (Put sid fid tok p # xs) = cancels xs" "cancels (Log_Line nm t # xs) = cancels xs"
  "cancels (Session_Started sid n # xs) = cancels xs" "cancels (Progress n # xs) = cancels xs"
  "cancels (Cancel_Session sid # xs) = sid # cancels xs" "cancels (Send_Ended b # xs) = cancels xs"
  "ends (Put sid fid tok p # xs) = ends xs" "ends (Log_Line nm t # xs) = ends xs"
  "ends (Session_Started sid n # xs) = ends xs" "ends (Progress n # xs) = ends xs"
  "ends (Cancel_Session sid # xs) = ends xs" "ends (Send_Ended b # xs) = b # ends xs"
  by (simp_all add: puts_def cancels_def ends_def List.map_filter_def)

text \<open>The uploads a grant asks for: every accepted file with its token and its path, in the order of the names.\<close>

definition wanted_puts ::
  "(string \<times> file_dto) list \<Rightarrow> (string \<times> path) list \<Rightarrow> upload_grant \<Rightarrow> (string \<times> string \<times> string \<times> path) list" where
  "wanted_puts files paths g =
     map (\<lambda>fid. (ug_session g, fid, the (map_of (ug_files g) fid), the (map_of paths fid)))
       (upload_order files (ug_files g))"

definition offered :: "(string \<times> file_dto) list \<Rightarrow> (string \<times> path) list \<Rightarrow> string \<Rightarrow> bool" where
  "offered files paths fid \<longleftrightarrow> map_of files fid \<noteq> None \<and> map_of paths fid \<noteq> None"

lemma upload_order_set: "set (upload_order files tokens) = fst ` set tokens"
  by (simp add: upload_order_def)

lemma upload_files_spec:
  assumes "upload_files net by_peer name sid files paths tokens fids n bytes s = (acts, r, s')"
    and "\<And>fid. fid \<in> set fids \<Longrightarrow> offered files paths fid \<and> map_of tokens fid \<noteq> None"
  shows "\<exists>ok k. r = Some ok \<and> k \<le> length fids \<and>
    puts acts = take k (map (\<lambda>fid. (sid, fid, the (map_of tokens fid), the (map_of paths fid))) fids) \<and>
    (ok \<longrightarrow> k = length fids \<and> cancels acts = []) \<and> (\<not> ok \<longrightarrow> 0 < k \<and> (by_peer \<or> cancels acts = [sid])) \<and>
    set (cancels acts) \<subseteq> {sid} \<and> ends acts = []"
  using assms
proof (induction fids arbitrary: n bytes s acts r s')
  case (Cons fid fids)
  obtain token dto path where known: "map_of tokens fid = Some token" "map_of files fid = Some dto" "map_of paths fid = Some path"
    using Cons.prems(2) [of fid] by (auto simp: offered_def)
  obtain res t where up: "do_upload net sid fid token path s = (res, t)" by fastforce
  show ?case
  proof (cases res)
    case (Inl e)
    then show ?thesis using Cons.prems(1) known up
      by (intro exI [of _ False] exI [of _ 1]) (cases e; auto split: if_splits)
  next
    case (Inr u)
    obtain acts2 r2 t2 where rest:
      "upload_files net by_peer name sid files paths tokens fids (n + 1) (bytes + size_of dto) t = (acts2, r2, t2)"
      by (metis prod_cases3)
    have "\<And>f. f \<in> set fids \<Longrightarrow> offered files paths f \<and> map_of tokens f \<noteq> None" using Cons.prems(2) by simp
    from Cons.IH [OF rest this] obtain ok k where "r2 = Some ok" "k \<le> length fids"
      "puts acts2 = take k (map (\<lambda>fid. (sid, fid, the (map_of tokens fid), the (map_of paths fid))) fids)"
      "ok \<longrightarrow> k = length fids \<and> cancels acts2 = []" "\<not> ok \<longrightarrow> 0 < k \<and> (by_peer \<or> cancels acts2 = [sid])"
      "set (cancels acts2) \<subseteq> {sid}" "ends acts2 = []" by blast
    then show ?thesis using Cons.prems(1) known up Inr rest
      by (intro exI [of _ ok] exI [of _ "k + 1"]) auto
  qed
qed auto

text \<open>An id that was never offered ends the task in a panic before anything is uploaded.\<close>

lemma trace_if [simp]:
  "puts (if b then [Log_Line nm t] else []) = []" "cancels (if b then [Log_Line nm t] else []) = []"
  "ends (if b then [Log_Line nm t] else []) = []"
  by simp_all

lemma after_grant_unknown:
  assumes "fid \<in> fst ` set (ug_files g)" "map_of files fid = None"
  shows "\<exists>acts. after_grant net by_peer name files paths g s = (acts, None, s) \<and> puts acts = [] \<and> ends acts = []"
proof (cases "2 \<le> length (ug_files g)")
  case True
  moreover have "list_ex (\<lambda>(fid, _). map_of files fid = None) (ug_files g)"
    using assms by (force simp: list_ex_iff)
  ultimately show ?thesis by (simp add: after_grant_def Let_def)
next
  case False
  then obtain tok where "ug_files g = [(fid, tok)]"
    using assms(1) by (cases "ug_files g") (auto simp: not_le less_Suc_eq numeral_2_eq_2)
  then show ?thesis using assms(2) by (simp add: after_grant_def Let_def upload_order_def)
qed

lemma after_grant_offered:
  assumes "\<And>fid. fid \<in> fst ` set (ug_files g) \<Longrightarrow> offered files paths fid"
    and "after_grant net by_peer name files paths g s = (acts, r, s')"
  shows "\<exists>ok k. r = Some ok \<and> puts acts = take k (wanted_puts files paths g) \<and>
    (ok \<longrightarrow> k = length (wanted_puts files paths g) \<and> cancels acts = []) \<and>
    (\<not> ok \<longrightarrow> by_peer \<or> cancels acts = [ug_session g]) \<and>
    set (cancels acts) \<subseteq> {ug_session g} \<and> ends acts = []"
proof -
  let ?fids = "upload_order files (ug_files g)"
  have none: "\<not> list_ex (\<lambda>(fid, _). map_of files fid = None) (ug_files g)"
    using assms(1) by (force simp: list_ex_iff offered_def)
  obtain acts2 r2 t2 where run:
    "upload_files net by_peer name (ug_session g) files paths (ug_files g) ?fids 0 0 s = (acts2, r2, t2)"
    by (metis prod_cases3)
  have known: "offered files paths fid \<and> map_of (ug_files g) fid \<noteq> None" if "fid \<in> set ?fids" for fid
    using assms(1) [of fid] that by (auto simp: upload_order_set map_of_eq_None_iff)
  from upload_files_spec [OF run known] obtain ok k where
    "r2 = Some ok" "puts acts2 = take k (wanted_puts files paths g)"
    "ok \<longrightarrow> k = length ?fids \<and> cancels acts2 = []" "\<not> ok \<longrightarrow> by_peer \<or> cancels acts2 = [ug_session g]"
    "set (cancels acts2) \<subseteq> {ug_session g}" "ends acts2 = []"
    by (auto simp: wanted_puts_def)
  moreover have "length ?fids = length (wanted_puts files paths g)" by (simp add: wanted_puts_def)
  moreover have "r = r2" "puts acts = puts acts2" "cancels acts = cancels acts2" "ends acts = ends acts2"
    using assms(2) none run by (auto simp: after_grant_def Let_def)
  ultimately show ?thesis by (intro exI [of _ ok] exI [of _ k]) simp
qed

section \<open>The send task as a whole\<close>

text \<open>What the receiver grants, if it comes that far.\<close>

definition granted ::
  "(string \<Rightarrow> bool) \<Rightarrow> (http_channel \<Rightarrow> string option \<Rightarrow> string + 's remote) \<Rightarrow> register_dto_v2 \<Rightarrow> stateful_device \<Rightarrow>
   (string \<times> file_dto) list \<Rightarrow> 's \<Rightarrow> upload_grant option" where
  "granted is_v6 connect own_info d files s =
     (case get_best_channel is_v6 d of
        None \<Rightarrow> None
      | Some ch \<Rightarrow>
          (case connect (http_of ch) (expected_fingerprint (http_of ch) d) of
             Inl e \<Rightarrow> None
           | Inr net \<Rightarrow>
               (case do_prepare net \<lparr>pr_info = own_info, pr_files = files\<rparr> s of
                  (Inr prepared, _) \<Rightarrow> pu_response prepared
                | (Inl e, _) \<Rightarrow> None)))"

lemma not_granted:
  assumes "granted is_v6 connect own_info d files s = None"
  shows "\<exists>nm t s'. send_inner is_v6 connect own_info by_peer d files paths s = ([Log_Line nm t], Some False, s')"
proof (cases "get_best_channel is_v6 d")
  case (Some ch)
  note ch = Some
  show ?thesis
  proof (cases "connect (http_of ch) (expected_fingerprint (http_of ch) d)")
    case (Inr net)
    obtain r s1 where prep: "do_prepare net \<lparr>pr_info = own_info, pr_files = files\<rparr> s = (r, s1)" by fastforce
    show ?thesis
    proof (cases r)
      case (Inl e)
      then show ?thesis using ch Inr prep by (cases e) (simp_all add: send_inner_def Let_def)
    next
      case (Inr prepared)
      then have "pu_response prepared = None" using assms ch \<open>connect _ _ = Inr net\<close> prep by (simp add: granted_def)
      then show ?thesis using ch \<open>connect _ _ = Inr net\<close> prep Inr by (simp add: send_inner_def Let_def)
    qed
  qed (use ch in \<open>simp add: send_inner_def Let_def\<close>)
qed (simp add: send_inner_def Let_def)

lemma when_granted:
  assumes "granted is_v6 connect own_info d files s = Some g"
  shows "\<exists>net s1. send_inner is_v6 connect own_info by_peer d files paths s =
    after_grant net by_peer (single_line (lit (d_alias (device d)))) files paths g s1"
  using assms
  by (auto simp: granted_def send_inner_def Let_def split: option.splits sum.splits prod.splits)
    (intro exI, rule refl)

text \<open>
  C9. What a send does, whatever the receiver answers. Without a grant nothing is uploaded and the task
  reports failure. With a grant over offered files it uploads exactly the granted files, each once, with
  its own token and path, in the order of their names, up to the first that fails; success is reported
  exactly when all went through, and a failure that the receiver did not ask for cancels the session.
  But a grant that names a file that was never offered is a panic: nothing is uploaded and the end of
  the task, promised in every case, is never reported.
\<close>

theorem send_follows_grant:
  assumes "fst ` set paths = fst ` set files"
    and "acts = fst (run_send is_v6 connect own_info by_peer d files paths s)"
  shows "case granted is_v6 connect own_info d files s of
      None \<Rightarrow> puts acts = [] \<and> cancels acts = [] \<and> ends acts = [False]
    | Some g \<Rightarrow>
        if fst ` set (ug_files g) \<subseteq> fst ` set files
        then \<exists>ok k. ends acts = [ok] \<and> puts acts = take k (wanted_puts files paths g) \<and>
          (ok \<longrightarrow> k = length (wanted_puts files paths g) \<and> cancels acts = []) \<and>
          (\<not> ok \<longrightarrow> by_peer \<or> cancels acts = [ug_session g])
        else puts acts = [] \<and> ends acts = []"
proof (cases "granted is_v6 connect own_info d files s")
  case None
  with not_granted [OF None, of by_peer paths] assms(2) show ?thesis by (auto simp: run_send_def)
next
  case (Some g)
  obtain net s1 where inner: "send_inner is_v6 connect own_info by_peer d files paths s =
      after_grant net by_peer (single_line (lit (d_alias (device d)))) files paths g s1"
    using when_granted [OF Some] by blast
  obtain acts2 r s2 where run: "after_grant net by_peer (single_line (lit (d_alias (device d)))) files paths g s1 = (acts2, r, s2)"
    by (metis prod_cases3)
  show ?thesis
  proof (cases "fst ` set (ug_files g) \<subseteq> fst ` set files")
    case True
    have "offered files paths fid" if "fid \<in> fst ` set (ug_files g)" for fid
      using that True assms(1) by (auto simp: offered_def map_of_eq_None_iff)
    from after_grant_offered [OF this run] obtain ok k where spec:
      "r = Some ok" "puts acts2 = take k (wanted_puts files paths g)"
      "ok \<longrightarrow> k = length (wanted_puts files paths g) \<and> cancels acts2 = []"
      "\<not> ok \<longrightarrow> by_peer \<or> cancels acts2 = [ug_session g]" "ends acts2 = []" by blast
    then have "acts = acts2 @ [Send_Ended ok]" using assms(2) inner run by (simp add: run_send_def)
    then show ?thesis using Some True spec by (auto intro!: exI [of _ ok] exI [of _ k])
  next
    case False
    then obtain fid where fid: "fid \<in> fst ` set (ug_files g)" "map_of files fid = None"
      by (auto simp: map_of_eq_None_iff)
    from after_grant_unknown [OF this, of net by_peer "single_line (lit (d_alias (device d)))" paths s1] obtain acts3
      where "after_grant net by_peer (single_line (lit (d_alias (device d)))) files paths g s1 = (acts3, None, s1)"
        "puts acts3 = []" "ends acts3 = []" by blast
    with inner assms(2) have "puts acts = []" "ends acts = []" by (simp_all add: run_send_def)
    then show ?thesis using Some False by simp
  qed
qed

text \<open>A receiver that grants these tokens and takes every upload.\<close>

definition easy_remote :: "(string \<times> string) list \<Rightarrow> unit remote" where
  "easy_remote tokens =
     \<lparr>do_prepare = (\<lambda>_ s. (Inr \<lparr>pu_status = 200, pu_response = Some \<lparr>ug_session = ''s1'', ug_files = tokens\<rparr>\<rparr>, s)),
      do_upload = (\<lambda>_ _ _ _ s. (Inr (), s)), do_cancel = (\<lambda>_ s. s)\<rparr>"

definition one_path :: "(string \<times> path) list" where
  "one_path = [(''f1'', [Normal (lit ''a.txt'')])]"

lemma sample_best: "get_best_channel (\<lambda>_. False) sample_device \<noteq> None"
  by (simp add: get_best_channel_def get_ranked_channels_def sample_device_def)

theorem send_follows_grant_witness:
  "ends (fst (run_send (\<lambda>_. False) (\<lambda>_ _. Inr (easy_remote [(''f9'', ''t'')])) sample_info False sample_device
      [(''f1'', sample_dto ''f1'' 2)] one_path ())) = []"
proof -
  let ?files = "[(''f1'', sample_dto ''f1'' 2)]"
  have keys: "fst ` set one_path = fst ` set ?files" by (simp add: one_path_def)
  have "granted (\<lambda>_. False) (\<lambda>_ _. Inr (easy_remote [(''f9'', ''t'')])) sample_info sample_device ?files () =
      Some \<lparr>ug_session = ''s1'', ug_files = [(''f9'', ''t'')]\<rparr>"
    using sample_best by (auto simp: granted_def easy_remote_def)
  with send_follows_grant [OF keys refl, of "\<lambda>_. False" "\<lambda>_ _. Inr (easy_remote [(''f9'', ''t'')])" sample_info False
      sample_device "()"]
  show ?thesis by simp
qed

end
