(* ===== verification/End_To_End.thy ===== *)
theory End_To_End
  imports Cli_Send "HOL-Library.Countable"
begin

text \<open>
  A whole transfer between two devices: the send task of one against the v2 endpoints of the other, whose
  application accepts some of the files, and the reports the receiving application prints in the end. The
  parts are the models of the components; what connects them is the HTTP exchange between them.
\<close>

section \<open>The receiver as the client sees it\<close>

text \<open>
  \<open>tr_client\<close> is how the receiver sees the sender, \<open>tr_tls\<close> the TLS side of the responses; \<open>tr_sid\<close>,
  \<open>tr_tok\<close> and \<open>tr_token\<close> are drawn by the receiver, \<open>tr_accept\<close> the files its user accepts; \<open>tr_read\<close>
  yields the pieces of a file of the sender, and \<open>tr_io\<close> is the file they are written to.
\<close>

record 'c transfer =
  tr_ops :: "'c lru_ops"
  tr_sha :: "bytes \<Rightarrow> bytes"
  tr_time :: "string \<Rightarrow> nat option"
  tr_client :: request_client_info
  tr_certs :: cert_ops
  tr_out :: grant_json
  tr_codec :: "upload_grant codec"
  tr_show :: "status_code \<Rightarrow> string"
  tr_tls :: "bytes option option"
  tr_protocol :: protocol_type
  tr_sid :: string
  tr_tok :: nat
  tr_token :: "string \<Rightarrow> string"
  tr_accept :: "string list"
  tr_read :: "path \<Rightarrow> bytes list"
  tr_io :: "string \<Rightarrow> file_io"

type_synonym 'c receiver = "'c v2_state option \<times> server_event list"

text \<open>Each request of the client runs the handler it reaches, and reads what the handler replies.\<close>

definition receiver_remote :: "'c transfer \<Rightarrow> 'c receiver remote" where
  "receiver_remote tr =
     \<lparr>do_prepare = (\<lambda>req (v2, log).
        case prepare_upload (tr_ops tr) (tr_sha tr) v2 Map.empty (tr_client tr) (Inr req) (tr_sid tr) (tr_tok tr)
               (tr_token tr) True (Decided (Accept (tr_accept tr))) of
          (reply, v2, evs) \<Rightarrow>
            (prepare_upload_result (tr_certs tr) (tr_codec tr) (tr_protocol tr) None
               (Responded (prepare_response (tr_out tr) (tr_show tr) (tr_tls tr) reply)), v2, log @ evs)),
      do_upload = (\<lambda>sid fid token path (v2, log).
        case upload (tr_sha tr) (tr_time tr) v2 (map_of (upload_params sid fid token)) (peer (tr_client tr)) True
               (Some (Path_Target (tr_io tr fid))) (map Data_Frame (tr_read tr path)) None of
          (reply, v2, evs) \<Rightarrow>
            (upload_result (tr_certs tr) (c_message (tr_codec tr)) (tr_protocol tr) None
               (Responded (upload_response (tr_out tr) (tr_show tr) (tr_tls tr) reply)), v2, log @ evs)),
      do_cancel = (\<lambda>sid (v2, log).
        case cancel v2 [''sessionId'' \<mapsto> sid] (peer (tr_client tr)) of
          (reply, v2, fired, evs) \<Rightarrow> (v2, log @ evs))\<rparr>"

text \<open>The session while some of its files are there.\<close>

definition session_after :: "'c transfer \<Rightarrow> (string \<times> file_dto) list \<Rightarrow> string set \<Rightarrow> upload_session" where
  "session_after tr files finished =
     \<lparr>us_session_id = tr_sid tr, us_sender_ip = peer (tr_client tr),
      us_files = map (\<lambda>(i, dto). (i, \<lparr>sf_dto = dto, sf_token = tr_token tr i,
          sf_status = (if i \<in> finished then FFinished else FPending),
          sf_attempts = (if i \<in> finished then 1 else 0)\<rparr>)) files\<rparr>"

definition accepted_of :: "'c transfer \<Rightarrow> (string \<times> file_dto) list \<Rightarrow> (string \<times> file_dto) list" where
  "accepted_of tr files = filter (\<lambda>(i, _). i \<in> set (tr_accept tr)) files"

lemma session_after_empty:
  "us_files (session_after tr (accepted_of tr files) {}) = accepted_files (tr_token tr) files (tr_accept tr)"
  by (simp add: session_after_def accepted_files_def accepted_of_def)

lemma map_of_session:
  "map_of (us_files (session_after tr files finished)) i =
     (case map_of files i of
        None \<Rightarrow> None
      | Some dto \<Rightarrow> Some \<lparr>sf_dto = dto, sf_token = tr_token tr i,
          sf_status = (if i \<in> finished then FFinished else FPending),
          sf_attempts = (if i \<in> finished then 1 else 0)\<rparr>)"
  by (induction files) (auto simp: session_after_def)

lemma map_entry_map:
  "distinct (map fst xs) \<Longrightarrow>
   AList.map_entry k g (map (\<lambda>(i, x). (i, f i x)) xs) = map (\<lambda>(i, x). (i, if i = k then g (f i x) else f i x)) xs"
  by (induction xs) (auto simp: image_iff split: if_splits intro!: map_cong)

lemma session_files:
  "us_files (session_after tr files finished) =
     map (\<lambda>(i, dto). (i, \<lparr>sf_dto = dto, sf_token = tr_token tr i,
       sf_status = (if i \<in> finished then FFinished else FPending),
       sf_attempts = (if i \<in> finished then 1 else 0)\<rparr>)) files"
  and session_ids: "us_session_id (session_after tr files finished) = tr_sid tr"
    "us_sender_ip (session_after tr files finished) = peer (tr_client tr)"
  by (simp_all add: session_after_def)

lemma session_complete:
  "is_complete (session_after tr files finished) \<longleftrightarrow> fst ` set files \<subseteq> finished"
  by (auto simp: is_complete_def session_files list_all_iff split: if_splits dest!: bspec)

text \<open>An upload that begins and one that ends well, on such a session.\<close>

definition in_flight :: "'c transfer \<Rightarrow> (string \<times> file_dto) list \<Rightarrow> string set \<Rightarrow> string \<Rightarrow> upload_session" where
  "in_flight tr files finished fid = (session_after tr files finished)\<lparr>us_files :=
     map (\<lambda>(i, dto). (i, if i = fid then \<lparr>sf_dto = dto, sf_token = tr_token tr i, sf_status = FInProgress, sf_attempts = 1\<rparr>
       else \<lparr>sf_dto = dto, sf_token = tr_token tr i, sf_status = (if i \<in> finished then FFinished else FPending),
          sf_attempts = (if i \<in> finished then 1 else 0)\<rparr>)) files\<rparr>"

lemma begin_on_session:
  assumes "distinct (map fst files)" "map_of files fid = Some dto" "fid \<notin> finished"
  shows "begin_upload (tr_sid tr) fid (tr_token tr fid) (peer (tr_client tr))
      (Some (Active (session_after tr files finished))) = Inr (dto, Some (Active (in_flight tr files finished fid)))"
proof -
  have "AList.map_entry fid (\<lambda>f. f\<lparr>sf_status := FInProgress, sf_attempts := saturating_inc (sf_attempts f)\<rparr>)
      (us_files (session_after tr files finished)) = us_files (in_flight tr files finished fid)"
    using assms(3)
    by (simp add: session_files map_entry_map [OF assms(1)] in_flight_def saturating_inc_def cong: map_cong if_cong)
  moreover have "(session_after tr files finished)\<lparr>us_files := us_files (in_flight tr files finished fid)\<rparr> =
      in_flight tr files finished fid"
    by (simp add: in_flight_def)
  ultimately show ?thesis
    using assms(2,3) by (simp add: begin_upload_def session_ids map_of_session)
qed

lemma finalize_on_session:
  assumes "distinct (map fst files)" "map_of files fid = Some dto"
  shows "finalize_file (tr_sid tr) fid Success (Some (Active (in_flight tr files finished fid))) =
    (if fst ` set files \<subseteq> insert fid finished then (None, True)
     else (Some (Active (session_after tr files (insert fid finished))), False))"
proof -
  let ?s = "in_flight tr files finished fid"
  let ?g = "\<lambda>f. if sf_status f = FInProgress then f\<lparr>sf_status := final_status Success (sf_attempts f)\<rparr> else f"
  have "AList.map_entry fid ?g (us_files ?s) = us_files (session_after tr files (insert fid finished))"
    by (simp add: in_flight_def map_entry_map [OF assms(1)] session_files cong: map_cong if_cong) auto
  moreover have "?s\<lparr>us_files := us_files (session_after tr files (insert fid finished))\<rparr> =
      session_after tr files (insert fid finished)"
    by (simp add: in_flight_def session_after_def)
  moreover have "us_session_id ?s = tr_sid tr" by (simp add: in_flight_def session_ids)
  ultimately show ?thesis
    by (simp add: finalize_file_def Let_def session_complete)
qed

section \<open>One upload\<close>

text \<open>A file that can be sent as it was offered: its bytes are still those announced, and it can be written.\<close>

definition deliverable :: "'c transfer \<Rightarrow> string \<Rightarrow> file_dto \<Rightarrow> path \<Rightarrow> bool" where
  "deliverable tr fid dto path \<longleftrightarrow>
     working (tr_io tr fid) \<and> length (concat (tr_read tr path)) = unat (size_of dto) \<and>
     checksum_ok (tr_sha tr) (sha256 dto) (concat (tr_read tr path))"

text \<open>The two sides understand each other.\<close>

definition connected :: "'c transfer \<Rightarrow> bool" where
  "connected tr \<longleftrightarrow> json_fits (tr_out tr) (tr_codec tr) \<and> passes (tr_certs tr) (tr_protocol tr) None (tr_tls tr)"

lemma body_frames: "body_bytes (map Data_Frame cs) = concat cs" "body_complete (map Data_Frame cs)"
  by (induction cs) (auto simp: body_complete_def)

lemma delivered:
  assumes "deliverable tr fid dto path"
  shows "saved (save_req_to_target (tr_sha tr) (map Data_Frame (tr_read tr path)) None (Path_Target (tr_io tr fid))
    (size_of dto) (if verify then sha256 dto else None) ts) = Success"
proof -
  have "length (body_bytes (map Data_Frame (tr_read tr path))) < 2 ^ 64"
    using assms unsigned_less [of "size_of dto"] by (simp add: deliverable_def body_frames(1))
  moreover have "checksum_ok (tr_sha tr) None x" for x by (simp add: checksum_ok_def)
  ultimately show ?thesis
    using assms upload_saved_iff_faithful [of "tr_io tr fid" "map Data_Frame (tr_read tr path)" "tr_sha tr" "size_of dto"
        "if verify then sha256 dto else None" ts]
    by (simp add: deliverable_def body_frames)
qed

lemma upload_query: "map_of (upload_params sid fid token) ''sessionId'' = Some sid"
  "map_of (upload_params sid fid token) ''fileId'' = Some fid" "map_of (upload_params sid fid token) ''token'' = Some token"
  by (simp_all add: upload_params_def)

lemma remote_upload:
  assumes "connected tr" "distinct (map fst acc)" "map_of acc fid = Some dto" "fid \<notin> finished"
    and "deliverable tr fid dto path" "v2_session v2 = Some (Active (session_after tr acc finished))"
  shows "do_upload (receiver_remote tr) (tr_sid tr) fid (tr_token tr fid) path (Some v2, log) =
    (Inr (),
     Some (v2\<lparr>v2_session := (if fst ` set acc \<subseteq> insert fid finished then None
             else Some (Active (session_after tr acc (insert fid finished))))\<rparr>),
     log @ FileUpload (tr_sid tr) fid dto #
       (if fst ` set acc \<subseteq> insert fid finished then [SessionEnd (tr_sid tr) Finished] else []))"
proof -
  have "upload (tr_sha tr) (tr_time tr) (Some v2) (map_of (upload_params (tr_sid tr) fid (tr_token tr fid)))
      (peer (tr_client tr)) True (Some (Path_Target (tr_io tr fid))) (map Data_Frame (tr_read tr path)) None =
    (Inr (), Some (v2\<lparr>v2_session := (if fst ` set acc \<subseteq> insert fid finished then None
             else Some (Active (session_after tr acc (insert fid finished))))\<rparr>),
     FileUpload (tr_sid tr) fid dto #
       (if fst ` set acc \<subseteq> insert fid finished then [SessionEnd (tr_sid tr) Finished] else []))"
    using begin_on_session [OF assms(2-4), of tr] finalize_on_session [OF assms(2,3), of tr finished]
      delivered [OF assms(5), of "v2_verify_checksums v2"] assms(6)
    by (simp add: upload_def require_v2_def upload_query Let_def split del: if_split) simp
  moreover have "upload_result (tr_certs tr) (c_message (tr_codec tr)) (tr_protocol tr) None
      (Responded (upload_response (tr_out tr) (tr_show tr) (tr_tls tr) (Inr ()))) = Inr ()"
    using assms(1) upload_read [of "tr_out tr" "tr_codec tr" "tr_certs tr" "tr_protocol tr" None "tr_tls tr" "Inr ()" "tr_show tr"]
    by (simp add: connected_def)
  ultimately show ?thesis by (simp add: receiver_remote_def)
qed

section \<open>All of them\<close>

lemma remote_uploads:
  assumes "connected tr" "distinct (map fst acc)"
    and "\<And>fid. fid \<in> set fids \<Longrightarrow> \<exists>dto path. map_of acc fid = Some dto \<and> map_of files fid = Some dto \<and>
      map_of paths fid = Some path \<and> map_of tokens fid = Some (tr_token tr fid) \<and> deliverable tr fid dto path"
    and "distinct fids" "fids \<noteq> []" "set fids = fst ` set acc - finished"
    and "v2_session v2 = Some (Active (session_after tr acc finished))"
  shows "\<exists>acts v2'. upload_files (receiver_remote tr) by_peer name (tr_sid tr) files paths tokens fids n bytes (Some v2, log) =
      (acts @ [Log_Line name (St_Sent (n + length fids) (bytes + sum_list (map (\<lambda>i. size_of (the (map_of acc i))) fids)))],
       Some True, Some v2',
       log @ map (\<lambda>i. FileUpload (tr_sid tr) i (the (map_of acc i))) fids @ [SessionEnd (tr_sid tr) Finished]) \<and>
    v2_session v2' = None"
  using assms(3-)
proof (induction fids arbitrary: finished n bytes v2 log)
  case (Cons fid fids)
  obtain dto path where known: "map_of acc fid = Some dto" "map_of files fid = Some dto" "map_of paths fid = Some path"
    "map_of tokens fid = Some (tr_token tr fid)" "deliverable tr fid dto path"
    using Cons.prems(1) [of fid] by auto
  have fresh: "fid \<notin> finished" using Cons.prems(4) by auto
  note up = remote_upload [OF assms(1,2) known(1) fresh known(5) Cons.prems(5)]
  have left: "set fids = fst ` set acc - insert fid finished" using Cons.prems(2,4) by auto
  show ?case
  proof (cases "fids = []")
    case True
    then have "fst ` set acc \<subseteq> insert fid finished" using left by auto
    with up known True show ?thesis
      by (intro exI [of _ "[Put (tr_sid tr) fid (tr_token tr fid) path, Progress (bytes + size_of dto)]"]
          exI [of _ "v2\<lparr>v2_session := None\<rparr>"]) simp
  next
    case False
    have more: "\<not> fst ` set acc \<subseteq> insert fid finished"
    proof
      assume "fst ` set acc \<subseteq> insert fid finished"
      then have "set fids = {}" unfolding left by (simp only: Diff_eq_empty_iff)
      then show False using False by simp
    qed
    let ?v2 = "v2\<lparr>v2_session := Some (Active (session_after tr acc (insert fid finished)))\<rparr>"
    have "\<exists>acts v2'. upload_files (receiver_remote tr) by_peer name (tr_sid tr) files paths tokens fids (n + 1)
          (bytes + size_of dto) (Some ?v2, log @ [FileUpload (tr_sid tr) fid dto]) =
        (acts @ [Log_Line name (St_Sent (n + 1 + length fids)
           (bytes + size_of dto + sum_list (map (\<lambda>i. size_of (the (map_of acc i))) fids)))],
         Some True, Some v2',
         (log @ [FileUpload (tr_sid tr) fid dto]) @ map (\<lambda>i. FileUpload (tr_sid tr) i (the (map_of acc i))) fids @
           [SessionEnd (tr_sid tr) Finished]) \<and>
      v2_session v2' = None"
      using Cons.prems(1,2) False left by (intro Cons.IH) simp_all
    then obtain acts v2' where rest: "upload_files (receiver_remote tr) by_peer name (tr_sid tr) files paths tokens fids (n + 1)
          (bytes + size_of dto) (Some ?v2, log @ [FileUpload (tr_sid tr) fid dto]) =
        (acts @ [Log_Line name (St_Sent (n + 1 + length fids)
           (bytes + size_of dto + sum_list (map (\<lambda>i. size_of (the (map_of acc i))) fids)))],
         Some True, Some v2',
         (log @ [FileUpload (tr_sid tr) fid dto]) @ map (\<lambda>i. FileUpload (tr_sid tr) i (the (map_of acc i))) fids @
           [SessionEnd (tr_sid tr) Finished])" "v2_session v2' = None" by blast
    have "do_upload (receiver_remote tr) (tr_sid tr) fid (tr_token tr fid) path (Some v2, log) =
        (Inr (), Some ?v2, log @ [FileUpload (tr_sid tr) fid dto])"
      using up more by simp
    with known(1-4) rest(1) have "upload_files (receiver_remote tr) by_peer name (tr_sid tr) files paths tokens (fid # fids) n
          bytes (Some v2, log) =
        ((Put (tr_sid tr) fid (tr_token tr fid) path # Progress (bytes + size_of dto) # acts) @
           [Log_Line name (St_Sent (n + 1 + length fids)
             (bytes + size_of dto + sum_list (map (\<lambda>i. size_of (the (map_of acc i))) fids)))],
         Some True, Some v2',
         (log @ [FileUpload (tr_sid tr) fid dto]) @ map (\<lambda>i. FileUpload (tr_sid tr) i (the (map_of acc i))) fids @
           [SessionEnd (tr_sid tr) Finished])"
      by (simp only: upload_files.simps option.case prod.case sum.case append_Cons)
    then show ?thesis using rest(2) known(1)
      by (intro exI [of _ "Put (tr_sid tr) fid (tr_token tr fid) path # Progress (bytes + size_of dto) # acts"]
          exI [of _ v2']) (simp only: list.size list.map sum_list.Cons option.sel append_assoc append.simps add.assoc
            add.commute [of 1] add_0_left add_Suc_right Suc_eq_plus1 simp_thms)
  qed
qed simp

section \<open>The whole transfer\<close>

lemma remote_prepare:
  assumes "connected tr" "v2_pin v2 = None" "v2_session v2 = None" "accepted_of tr files \<noteq> []"
  shows "do_prepare (receiver_remote tr) \<lparr>pr_info = own_info, pr_files = files\<rparr> (Some v2, log) =
    (Inr \<lparr>pu_status = 200, pu_response = Some \<lparr>ug_session = tr_sid tr,
       ug_files = map (\<lambda>(i, _). (i, tr_token tr i)) (accepted_of tr files)\<rparr>\<rparr>,
     Some (v2\<lparr>v2_session := Some (Active (session_after tr (accepted_of tr files) {}))\<rparr>),
     log @ [PrepareUpload (tr_sid tr) (peer (tr_client tr)) own_info (cert_fingerprint (tr_sha tr) (tr_client tr)) files])"
proof -
  let ?acc = "accepted_of tr files"
  let ?fs = "accepted_files (tr_token tr) files (tr_accept tr)"
  have fs: "?fs = us_files (session_after tr ?acc {})" by (rule session_after_empty [symmetric])
  have "?fs \<noteq> []" "files \<noteq> []" using assms(4) by (auto simp: fs session_files accepted_of_def)
  moreover have "install_session (tr_sid tr) (peer (tr_client tr)) ?fs = Some (Active (session_after tr ?acc {}))"
    unfolding fs by (simp add: install_session_def session_after_def)
  moreover have "map (\<lambda>(id, f). (id, sf_token f)) ?fs = map (\<lambda>(i, _). (i, tr_token tr i)) ?acc"
    by (auto simp: fs session_files)
  ultimately have "prepare_upload (tr_ops tr) (tr_sha tr) (Some v2) Map.empty (tr_client tr)
      (Inr \<lparr>pr_info = own_info, pr_files = files\<rparr>) (tr_sid tr) (tr_tok tr) (tr_token tr) True
      (Decided (Accept (tr_accept tr))) =
    (Inr (Session (tr_sid tr) (map (\<lambda>(i, _). (i, tr_token tr i)) ?acc)),
     Some (v2\<lparr>v2_session := Some (Active (session_after tr ?acc {}))\<rparr>),
     [PrepareUpload (tr_sid tr) (peer (tr_client tr)) own_info (cert_fingerprint (tr_sha tr) (tr_client tr)) files])"
    using assms(2,3)
    by (simp add: prepare_upload_def require_v2_def check_pin_def claim_slot_def session_reply_def Let_def)
  moreover have "prepare_upload_result (tr_certs tr) (tr_codec tr) (tr_protocol tr) None
      (Responded (prepare_response (tr_out tr) (tr_show tr) (tr_tls tr) (Inr (Session sid toks)))) =
    Inr \<lparr>pu_status = 200, pu_response = Some \<lparr>ug_session = sid, ug_files = toks\<rparr>\<rparr>" for sid toks
    using assms(1) prepare_read [of "tr_out tr" "tr_codec tr" "tr_certs tr" "tr_protocol tr" None "tr_tls tr"
        "Inr (Session sid toks)" "tr_show tr"]
    by (simp add: connected_def)
  ultimately show ?thesis by (simp add: receiver_remote_def)
qed

definition sizes :: "(string \<times> file_dto) list \<Rightarrow> u64" where
  "sizes files = sum_list (map (size_of \<circ> snd) files)"

lemma sum_list_mset_eq: "mset xs = mset ys \<Longrightarrow> sum_list (map f xs) = (sum_list (map f ys) :: 'a :: comm_monoid_add)"
  by (metis mset_map sum_mset_sum_list)

lemma order_of_accepted:
  assumes "distinct (map fst acc)" "mset ids = mset (map fst acc)"
  shows "mset (map (\<lambda>i. (i, the (map_of acc i))) ids) = mset acc"
proof -
  have "map (\<lambda>i. (i, the (map_of acc i))) (map fst acc) = acc"
    using assms(1) by (auto simp: comp_def intro!: map_idI)
  moreover have "mset (map (\<lambda>i. (i, the (map_of acc i))) ids) = mset (map (\<lambda>i. (i, the (map_of acc i))) (map fst acc))"
    by (simp only: mset_map assms(2))
  ultimately show ?thesis by simp
qed

lemma transfer_run:
  assumes "connected tr" "v2_pin v2 = None" "v2_session v2 = None" "accepted_of tr files \<noteq> []"
    and "distinct (map fst files)"
    and "\<And>i dto. (i, dto) \<in> set (accepted_of tr files) \<Longrightarrow> \<exists>path. map_of paths i = Some path \<and> deliverable tr i dto path"
    and "get_best_channel is_v6 d = Some ch" "connect (http_of ch) (expected_fingerprint (http_of ch) d) = Inr (receiver_remote tr)"
  shows "\<exists>acts v2' order. run_send is_v6 connect own_info by_peer d files paths (Some v2, []) =
      (acts @ [Log_Line (single_line (lit (d_alias (device d))))
          (St_Sent (length (accepted_of tr files)) (sizes (accepted_of tr files))), Send_Ended True],
       Some v2',
       PrepareUpload (tr_sid tr) (peer (tr_client tr)) own_info (cert_fingerprint (tr_sha tr) (tr_client tr)) files #
         map (\<lambda>(i, dto). FileUpload (tr_sid tr) i dto) order @ [SessionEnd (tr_sid tr) Finished]) \<and>
    v2_session v2' = None \<and> mset order = mset (accepted_of tr files)"
proof -
  let ?acc = "accepted_of tr files"
  let ?tokens = "map (\<lambda>(i, _). (i, tr_token tr i)) ?acc"
  let ?g = "\<lparr>ug_session = tr_sid tr, ug_files = ?tokens\<rparr>"
  let ?name = "single_line (lit (d_alias (device d)))"
  let ?v2 = "v2\<lparr>v2_session := Some (Active (session_after tr ?acc {}))\<rparr>"
  let ?asked = "PrepareUpload (tr_sid tr) (peer (tr_client tr)) own_info (cert_fingerprint (tr_sha tr) (tr_client tr)) files"
  let ?ids = "upload_order files ?tokens"
  have dist: "distinct (map fst ?acc)" using assms(5) by (simp add: accepted_of_def distinct_map_filter)
  have keys: "map fst ?tokens = map fst ?acc" by auto
  have ids: "mset ?ids = mset (map fst ?acc)" "set ?ids = fst ` set ?acc" "distinct ?ids"
    unfolding upload_order_def keys using dist by simp_all
  have "?ids \<noteq> []" using assms(4) ids(2) by fastforce
  have in_files: "map_of files i = Some dto" if "(i, dto) \<in> set ?acc" for i dto
    using that assms(5) by (auto simp: accepted_of_def)
  have files: "\<exists>dto path. map_of ?acc fid = Some dto \<and> map_of files fid = Some dto \<and> map_of paths fid = Some path \<and>
      map_of ?tokens fid = Some (tr_token tr fid) \<and> deliverable tr fid dto path" if "fid \<in> set ?ids" for fid
  proof -
    have "fid \<in> fst ` set ?acc" using that by (simp only: ids(2))
    then obtain dto where dto: "(fid, dto) \<in> set ?acc" by auto
    then obtain path where path: "map_of paths fid = Some path" "deliverable tr fid dto path" using assms(6) by blast
    have "(fid, tr_token tr fid) \<in> set ?tokens" using dto by force
    moreover have "distinct (map fst ?tokens)" using dist by (simp only: keys)
    ultimately have "map_of ?tokens fid = Some (tr_token tr fid)" by (intro map_of_is_SomeI)
    then show ?thesis using dto dist in_files [OF dto] path by (intro exI conjI) simp_all
  qed
  have "\<exists>acts v2'. upload_files (receiver_remote tr) by_peer ?name (tr_sid tr) files paths ?tokens ?ids 0 0 (Some ?v2, [?asked]) =
      (acts @ [Log_Line ?name (St_Sent (0 + length ?ids) (0 + sum_list (map (\<lambda>i. size_of (the (map_of ?acc i))) ?ids)))],
       Some True, Some v2',
       [?asked] @ map (\<lambda>i. FileUpload (tr_sid tr) i (the (map_of ?acc i))) ?ids @ [SessionEnd (tr_sid tr) Finished]) \<and>
    v2_session v2' = None"
    using files ids(2,3) \<open>?ids \<noteq> []\<close> by (intro remote_uploads [OF assms(1) dist]) simp_all
  then obtain acts v2' where run: "upload_files (receiver_remote tr) by_peer ?name (tr_sid tr) files paths ?tokens ?ids 0 0
        (Some ?v2, [?asked]) =
      (acts @ [Log_Line ?name (St_Sent (length ?ids) (sum_list (map (\<lambda>i. size_of (the (map_of ?acc i))) ?ids)))],
       Some True, Some v2',
       ?asked # map (\<lambda>i. FileUpload (tr_sid tr) i (the (map_of ?acc i))) ?ids @ [SessionEnd (tr_sid tr) Finished])"
    "v2_session v2' = None" by auto
  let ?order = "map (\<lambda>i. (i, the (map_of ?acc i))) ?ids"
  have order: "mset ?order = mset ?acc" by (rule order_of_accepted [OF dist ids(1)])
  have totals: "length ?ids = length ?acc" "sum_list (map (\<lambda>i. size_of (the (map_of ?acc i))) ?ids) = sizes ?acc"
    using ids(1) [THEN mset_eq_length] sum_list_mset_eq [OF order, of "size_of \<circ> snd"] by (simp_all add: sizes_def comp_def)
  have "\<not> list_ex (\<lambda>(fid, _). map_of files fid = None) ?tokens"
    using in_files by (auto simp: list_ex_iff)
  then obtain acts2 where "after_grant (receiver_remote tr) by_peer ?name files paths ?g (Some ?v2, [?asked]) =
      (acts2 @ [Log_Line ?name (St_Sent (length ?acc) (sizes ?acc))], Some True, Some v2',
       ?asked # map (\<lambda>i. FileUpload (tr_sid tr) i (the (map_of ?acc i))) ?ids @ [SessionEnd (tr_sid tr) Finished])"
    using run(1) totals by (simp add: after_grant_def Let_def)
  then show ?thesis
    using remote_prepare [OF assms(1-4), of own_info "[]"] assms(7,8) run(2) order
    by (intro exI [of _ acts2] exI [of _ v2'] exI [of _ ?order])
      (simp add: run_send_def send_inner_def Let_def comp_def)
qed

section \<open>Both sides agree\<close>

definition upload_reports :: "session_event list \<Rightarrow> (string \<times> file_dto) list" where
  "upload_reports es = List.map_filter (\<lambda>e. case e of Upload_Event fid dto \<Rightarrow> Some (fid, dto) | _ \<Rightarrow> None) es"

lemma report_simps [simp]:
  "upload_reports [] = []" "upload_reports (Upload_Event fid dto # es) = (fid, dto) # upload_reports es"
  "upload_reports (Result_Event fid r # es) = upload_reports es" "upload_reports (Progress_Event fid n # es) = upload_reports es"
  "upload_reports (End_Event reason # es) = upload_reports es"
  "saved_files [] = []" "saved_files (Upload_Event fid dto # es) = saved_files es"
  "saved_files (Result_Event fid (Inr u) # es) = fid # saved_files es" "saved_files (Progress_Event fid n # es) = saved_files es"
  "saved_files (End_Event reason # es) = saved_files es"
  "failures (Upload_Event fid dto # es) = failures es" "failures (Result_Event fid (Inl e) # es) = Suc (failures es)"
  "failures (Result_Event fid (Inr u) # es) = failures es" "failures (Progress_Event fid n # es) = failures es"
  "failures (End_Event reason # es) = failures es"
  by (simp_all add: upload_reports_def saved_files_def failures_def map_filter_simps)

lemma all_saved:
  "complete flight over es \<Longrightarrow> finite flight \<Longrightarrow> failures es = 0 \<Longrightarrow>
   mset (saved_files es) = mset (map fst (upload_reports es)) + mset_set flight"
proof (induction flight over es rule: complete.induct)
  case (3 flight over fid r es)
  then show ?case by (cases r) (auto simp: mset_set.remove)
qed auto

lemma summary_of_transfer:
  assumes "a_receive a = Some (new_session sid name sender files)" "complete {} None (map snd es)"
    and "mset (upload_reports (map snd es)) = mset acc" "failures (map snd es) = 0" "end_reason (map snd es) = Some Finished"
    and "\<And>i dto. (i, dto) \<in> set acc \<Longrightarrow> map_of files i = Some dto"
  shows "a_receive (fst (session_run sid es a)) = None \<and>
    filter is_summary (snd (session_run sid es a)) = [Notice (N_Received name (length acc) (sizes acc) 0)]"
proof -
  let ?s = "new_session sid name sender files"
  have "rs_session ?s = sid" "rs_ended ?s = None" "fst ` set (rs_in_progress ?s) = {}" by (simp_all add: new_session_def)
  from run_complete [OF assms(1) this assms(2)] assms(5) have run:
    "a_receive (fst (session_run sid es a)) = None"
    "filter is_summary (snd (session_run sid es a)) = [Notice (summary ?s Finished (map snd es))]"
    by (auto simp: reason_of_def)
  have ids: "mset (saved_files (map snd es)) = mset (map fst acc)"
    using all_saved [OF assms(2) _ assms(4)] assms(3) by (simp add: mset_map)
  have "sum_list (map (size_in files) (saved_files (map snd es))) = sum_list (map (size_in files) (map fst acc))"
    by (rule sum_list_mset_eq [OF ids])
  also have "map (size_in files) (map fst acc) = map (size_of \<circ> snd) acc"
    using assms(6) by (auto simp: size_in_def)
  finally have "summary ?s Finished (map snd es) = N_Received name (length acc) (sizes acc) 0"
    using ids [THEN mset_eq_length] assms(4) by (simp add: summary_def new_session_def sizes_def)
  with run show ?thesis by simp
qed

text \<open>
  C1. A transfer that nobody disturbs: when the receiver accepts some of the files and they are still what
  was offered, the send task reports success and counts exactly the accepted files and their bytes; the
  receiver's slot is free again, its application was asked once, told of each accepted file once and of the
  end once, after the last file; and whichever way the results of its saving tasks interleave with these
  reports, it prints one summary with the same number of files and the same number of bytes.
\<close>

theorem transfer_agrees:
  assumes "connected tr" "v2_pin v2 = None" "v2_session v2 = None" "accepted_of tr files \<noteq> []"
    and "distinct (map fst files)"
    and "\<And>i dto. (i, dto) \<in> set (accepted_of tr files) \<Longrightarrow> \<exists>path. map_of paths i = Some path \<and> deliverable tr i dto path"
    and "get_best_channel is_v6 d = Some ch" "connect (http_of ch) (expected_fingerprint (http_of ch) d) = Inr (receiver_remote tr)"
  shows "\<exists>acts v2' order. run_send is_v6 connect own_info by_peer d files paths (Some v2, []) =
      (acts @ [Log_Line (single_line (lit (d_alias (device d))))
          (St_Sent (length (accepted_of tr files)) (sizes (accepted_of tr files))), Send_Ended True],
       Some v2',
       PrepareUpload (tr_sid tr) (peer (tr_client tr)) own_info (cert_fingerprint (tr_sha tr) (tr_client tr)) files #
         map (\<lambda>(i, dto). FileUpload (tr_sid tr) i dto) order @ [SessionEnd (tr_sid tr) Finished]) \<and>
    v2_session v2' = None \<and> mset order = mset (accepted_of tr files) \<and>
    (\<forall>a name sender es. a_receive a = Some (new_session (tr_sid tr) name sender files) \<longrightarrow>
       complete {} None (map snd es) \<longrightarrow> upload_reports (map snd es) = order \<longrightarrow>
       failures (map snd es) = 0 \<longrightarrow> end_reason (map snd es) = Some Finished \<longrightarrow>
       a_receive (fst (session_run (tr_sid tr) es a)) = None \<and>
       filter is_summary (snd (session_run (tr_sid tr) es a)) =
         [Notice (N_Received name (length (accepted_of tr files)) (sizes (accepted_of tr files)) 0)])"
proof -
  obtain acts v2' order where run: "run_send is_v6 connect own_info by_peer d files paths (Some v2, []) =
      (acts @ [Log_Line (single_line (lit (d_alias (device d))))
          (St_Sent (length (accepted_of tr files)) (sizes (accepted_of tr files))), Send_Ended True],
       Some v2',
       PrepareUpload (tr_sid tr) (peer (tr_client tr)) own_info (cert_fingerprint (tr_sha tr) (tr_client tr)) files #
         map (\<lambda>(i, dto). FileUpload (tr_sid tr) i dto) order @ [SessionEnd (tr_sid tr) Finished])"
    and free: "v2_session v2' = None" and order: "mset order = mset (accepted_of tr files)"
    using transfer_run [where tr = tr and ?v2.0 = v2 and files = files and paths = paths and ?is_v6.0 = is_v6 and d = d
        and ch = ch and connect = connect and own_info = own_info and by_peer = by_peer, OF assms(1-8)] by blast
  have "map_of files i = Some dto" if "(i, dto) \<in> set (accepted_of tr files)" for i dto
    using that assms(5) by (auto simp: accepted_of_def)
  then have "a_receive (fst (session_run (tr_sid tr) es a)) = None \<and>
      filter is_summary (snd (session_run (tr_sid tr) es a)) =
        [Notice (N_Received name (length (accepted_of tr files)) (sizes (accepted_of tr files)) 0)]"
    if "a_receive a = Some (new_session (tr_sid tr) name sender files)" "complete {} None (map snd es)"
      "upload_reports (map snd es) = order" "failures (map snd es) = 0" "end_reason (map snd es) = Some Finished"
    for a name sender es
    using that order by (intro summary_of_transfer) simp_all
  with run free order show ?thesis by (intro exI conjI) (assumption | blast)+
qed

text \<open>A receiver that takes one file of two bytes over plain HTTP; grants are written in unary.\<close>

instance upload_grant_ext :: (countable) countable
  by (rule countable_classI [of "\<lambda>g. to_nat (ug_session g, ug_files g, upload_grant.more g)"])
    (simp add: upload_grant.equality)

definition unary_grant :: "upload_grant \<Rightarrow> string" where
  "unary_grant g = replicate (to_nat g) CHR ''x''"

definition sample_transfer :: "lru_list transfer" where
  "sample_transfer =
     \<lparr>tr_ops = list_lru 3, tr_sha = id, tr_time = (\<lambda>_. None), tr_client = sample_client,
      tr_certs = \<lparr>verify_der = (\<lambda>_ _. Inr ()), key_of_der = (\<lambda>_. Inr ''k''), sha_256 = id\<rparr>,
      tr_out = \<lparr>j_error = id, j_grant = unary_grant\<rparr>,
      tr_codec = \<lparr>c_message = Some, c_parse = (\<lambda>s. Some (from_nat (length s)))\<rparr>,
      tr_show = (\<lambda>_. ''E''), tr_tls = None, tr_protocol = Http, tr_sid = ''s1'', tr_tok = 0, tr_token = id,
      tr_accept = [''f1''], tr_read = (\<lambda>_. [[1], [2]]), tr_io = (\<lambda>_. plain_io)\<rparr>"

theorem transfer_agrees_witness:
  "\<exists>acts v2'. run_send (\<lambda>_. False) (\<lambda>_ _. Inr (receiver_remote sample_transfer)) sample_info False sample_device
      [(''f1'', sample_dto ''f1'' 2)] one_path (Some free_state, []) =
    (acts @ [Log_Line (single_line (lit ''A'')) (St_Sent 1 2), Send_Ended True], v2')"
proof -
  let ?files = "[(''f1'', sample_dto ''f1'' 2)]"
  have connected: "connected sample_transfer"
    by (simp add: connected_def json_fits_def passes_def sample_transfer_def unary_grant_def)
  have free: "v2_pin free_state = None" "v2_session free_state = None"
    by (simp_all add: free_state_def)
  have acc: "accepted_of sample_transfer ?files = ?files"
    by (simp add: accepted_of_def sample_transfer_def)
  have dist: "distinct (map fst ?files)" by simp
  have sent: "length ?files = 1" "sizes ?files = 2" "d_alias (device sample_device) = ''A''"
    by (simp_all add: sizes_def sample_device_def sample_dto_def)
  have ok: "\<exists>path. map_of one_path i = Some path \<and> deliverable sample_transfer i dto path"
    if "(i, dto) \<in> set (accepted_of sample_transfer ?files)" for i dto
    using that [unfolded acc] by (simp add: one_path_def deliverable_def sample_transfer_def working_def plain_io_def
        sample_dto_def checksum_ok_def)
  obtain ch where ch: "get_best_channel (\<lambda>_. False) sample_device = Some ch" using sample_best by blast
  have some: "accepted_of sample_transfer ?files \<noteq> []" by (simp add: acc)
  have "\<exists>acts v2' order. run_send (\<lambda>_. False) (\<lambda>_ _. Inr (receiver_remote sample_transfer)) sample_info False
      sample_device ?files one_path (Some free_state, []) =
    (acts @ [Log_Line (single_line (lit ''A'')) (St_Sent 1 2), Send_Ended True], Some v2', order)"
    using transfer_agrees [OF connected free some dist ok ch refl, of sample_info False, unfolded acc sent]
    by fast
  then show ?thesis by fast
qed

end
