(* ===== verification/App_Bridge.thy ===== *)
theory App_Bridge
  imports V2_Server Web_Download "HOL-Library.Multiset"
begin

text \<open>
  The server as the Flutter application holds it (\<open>linko_isolates/rust/src/api/server.rs\<close>): the events of
  the core are forwarded to the Dart side, and the channels that answer them wait in tables until the
  Dart side answers. A channel that answers once (a oneshot sender) is a number; whether somebody still
  listens at its other end comes with every answer.
\<close>

section \<open>Events and answers\<close>

type_synonym responder = nat

text \<open>\<open>RsServerEvent\<close>; addresses are rendered by \<open>show_ip\<close>.\<close>

datatype rs_event =
    Rs_Register string register_dto_v2
  | Rs_Prepare_Upload string string register_dto_v2 "rstring option" "(string \<times> file_dto) list"
  | Rs_File_Upload string string file_dto
  | Rs_Session_End string session_end_reason
  | Rs_Prepare_Upload_Aborted string
  | Rs_Cancel_Received string string
  | Rs_Web_Prepare_Download string string "string option"
  | Rs_Web_File_Download string string file_dto
  | Rs_Show "string list"
  | Rs_Listener_Failed string

text \<open>A path or a file descriptor.\<close>

datatype source = By_Path string | By_Fd u32

datatype answer =
    Decision prepare_upload_decision
  | Target source
  | Download_Decision bool
  | Content source

text \<open>What a call does: events to Dart, answers, responders dropped unused, and a call into the server.\<close>

datatype effect =
    Emit rs_event
  | Answer responder answer
  | Drop_Responder responder
  | Cancel_In_Server string

record bridge =
  pending_decision :: "(string \<times> responder) option"
  pending_uploads :: "((string \<times> string) \<times> responder) list"
  pending_download_decisions :: "(string \<times> responder) list"
  pending_downloads :: "((string \<times> string) \<times> responder) list"

definition new_bridge :: bridge where
  "new_bridge = \<lparr>pending_decision = None, pending_uploads = [], pending_download_decisions = [],
     pending_downloads = []\<rparr>"

text \<open>Inserting over an entry drops its responder, and so does removing entries unanswered.\<close>

definition drops :: "(string \<times> responder) option \<Rightarrow> effect list" where
  "drops p = (case p of None \<Rightarrow> [] | Some (_, tx) \<Rightarrow> [Drop_Responder tx])"

definition replaced :: "('k \<times> responder) list \<Rightarrow> 'k \<Rightarrow> effect list" where
  "replaced m k = (case map_of m k of None \<Rightarrow> [] | Some tx \<Rightarrow> [Drop_Responder tx])"

definition retain_other :: "string \<Rightarrow> ((string \<times> string) \<times> responder) list \<Rightarrow>
    ((string \<times> string) \<times> responder) list" where
  "retain_other sid m = filter (\<lambda>((s, _), _). s \<noteq> sid) m"

definition not_retained :: "string \<Rightarrow> ((string \<times> string) \<times> responder) list \<Rightarrow> effect list" where
  "not_retained sid m = map (\<lambda>(_, tx). Drop_Responder tx) (filter (\<lambda>((s, _), _). s = sid) m)"

section \<open>Forwarding events\<close>

text \<open>\<open>tx\<close> is the responder an event carries, for the events that have one.\<close>

fun handle_core_event :: "(peer_ip \<Rightarrow> string) \<Rightarrow> server_event \<Rightarrow> responder \<Rightarrow> bridge \<Rightarrow> bridge \<times> effect list" where
  "handle_core_event show_ip (Register addr info) tx b = (b, [Emit (Rs_Register (show_ip addr) info)])"
| "handle_core_event show_ip (PrepareUpload sid addr info fp files) tx b =
     (b\<lparr>pending_decision := Some (sid, tx)\<rparr>,
      drops (pending_decision b) @ [Emit (Rs_Prepare_Upload sid (show_ip addr) info fp files)])"
| "handle_core_event show_ip (FileUpload sid fid dto) tx b =
     (b\<lparr>pending_uploads := AList.update (sid, fid) tx (pending_uploads b)\<rparr>,
      replaced (pending_uploads b) (sid, fid) @ [Emit (Rs_File_Upload sid fid dto)])"
| "handle_core_event show_ip (SessionEnd sid reason) tx b =
     (b\<lparr>pending_uploads := retain_other sid (pending_uploads b)\<rparr>,
      not_retained sid (pending_uploads b) @ [Emit (Rs_Session_End sid reason)])"
| "handle_core_event show_ip (PrepareUploadAborted sid) tx b =
     (case pending_decision b of
        Some (s, old) \<Rightarrow>
          if s = sid then (b\<lparr>pending_decision := None\<rparr>, [Drop_Responder old, Emit (Rs_Prepare_Upload_Aborted sid)])
          else (b, [Emit (Rs_Prepare_Upload_Aborted sid)])
      | None \<Rightarrow> (b, [Emit (Rs_Prepare_Upload_Aborted sid)]))"
| "handle_core_event show_ip (CancelReceived addr sid) tx b = (b, [Emit (Rs_Cancel_Received (show_ip addr) sid)])"
| "handle_core_event show_ip (ListenerFailed err) tx b = (b, [Emit (Rs_Listener_Failed err)])"

fun handle_web_download_event :: "(peer_ip \<Rightarrow> string) \<Rightarrow> web_event \<Rightarrow> responder \<Rightarrow> bridge \<Rightarrow> bridge \<times> effect list" where
  "handle_web_download_event show_ip (PrepareDownload addr sid agent) tx b =
     (b\<lparr>pending_download_decisions := AList.update sid tx (pending_download_decisions b)\<rparr>,
      replaced (pending_download_decisions b) sid @ [Emit (Rs_Web_Prepare_Download (show_ip addr) sid agent)])"
| "handle_web_download_event show_ip (FileDownload sid fid dto) tx b =
     (b\<lparr>pending_downloads := AList.update (sid, fid) tx (pending_downloads b)\<rparr>,
      replaced (pending_downloads b) (sid, fid) @ [Emit (Rs_Web_File_Download sid fid dto)])"

text \<open>
  The loop of \<open>listen\<close>: what each receiver yields, in the order in which it is taken (\<open>None\<close>: closed),
  with whether the sink still takes events afterwards. A closed channel is not polled again.
\<close>

datatype received =
    From_V2 "(server_event \<times> responder) option"
  | From_Web "(web_event \<times> responder) option"
  | From_Internal "string list option"

record listener =
  v2_open :: bool
  web_open :: bool
  internal_open :: bool

definition all_closed :: "listener \<Rightarrow> bool" where
  "all_closed l \<longleftrightarrow> \<not> v2_open l \<and> \<not> web_open l \<and> \<not> internal_open l"

fun polled :: "listener \<Rightarrow> received \<Rightarrow> bool" where
  "polled l (From_V2 _) = v2_open l"
| "polled l (From_Web _) = web_open l"
| "polled l (From_Internal _) = internal_open l"

fun closes :: "received \<Rightarrow> listener \<Rightarrow> listener" where
  "closes (From_V2 None) l = l\<lparr>v2_open := False\<rparr>"
| "closes (From_Web None) l = l\<lparr>web_open := False\<rparr>"
| "closes (From_Internal None) l = l\<lparr>internal_open := False\<rparr>"
| "closes _ l = l"

fun forward :: "(peer_ip \<Rightarrow> string) \<Rightarrow> received \<Rightarrow> bridge \<Rightarrow> bridge \<times> effect list" where
  "forward show_ip (From_V2 (Some (ev, tx))) b = handle_core_event show_ip ev tx b"
| "forward show_ip (From_Web (Some (ev, tx))) b = handle_web_download_event show_ip ev tx b"
| "forward show_ip (From_Internal (Some args)) b = (b, [Emit (Rs_Show args)])"
| "forward show_ip _ b = (b, [])"

fun is_event :: "received \<Rightarrow> bool" where
  "is_event (From_V2 x) = (x \<noteq> None)"
| "is_event (From_Web x) = (x \<noteq> None)"
| "is_event (From_Internal x) = (x \<noteq> None)"

fun listen_loop :: "(peer_ip \<Rightarrow> string) \<Rightarrow> (received \<times> bool) list \<Rightarrow> listener \<Rightarrow> bridge \<Rightarrow> bridge \<times> effect list" where
  "listen_loop show_ip [] l b = (b, [])"
| "listen_loop show_ip ((r, open) # rs) l b =
     (if \<not> polled l r then listen_loop show_ip rs l b
      else case forward show_ip r b of
        (b, effs) \<Rightarrow>
          if (is_event r \<and> \<not> open) \<or> all_closed (closes r l) then (b, effs)
          else (case listen_loop show_ip rs (closes r l) b of (b, later) \<Rightarrow> (b, effs @ later)))"

section \<open>Answering\<close>

text \<open>\<open>alive\<close>: the request still waits at the other end.\<close>

definition send_answer :: "bool \<Rightarrow> responder \<Rightarrow> answer \<Rightarrow> string \<Rightarrow> (string + unit) \<times> effect list" where
  "send_answer alive tx a gone = (if alive then (Inr (), [Answer tx a]) else (Inl gone, [Drop_Responder tx]))"

definition respond_prepare_upload :: "bool \<Rightarrow> string list option \<Rightarrow> bridge \<Rightarrow> (string + unit) \<times> bridge \<times> effect list" where
  "respond_prepare_upload alive accepted b =
     (case pending_decision b of
        None \<Rightarrow> (Inl ''No pending prepare-upload request'', b, [])
      | Some (_, tx) \<Rightarrow>
          (case send_answer alive tx (Decision (case accepted of Some ids \<Rightarrow> Accept ids | None \<Rightarrow> Decline))
                  ''Prepare-upload request already ended'' of
             (r, effs) \<Rightarrow> (r, b\<lparr>pending_decision := None\<rparr>, effs)))"

definition resolve_source :: "bool \<Rightarrow> string \<Rightarrow> string option \<Rightarrow> u32 option \<Rightarrow> string + source" where
  "resolve_source android neither path fd =
     (case (path, fd) of
        (Some p, None) \<Rightarrow> Inr (By_Path p)
      | (None, Some fd) \<Rightarrow>
          if android then Inr (By_Fd fd) else Inl ''File descriptors are only supported on Android''
      | _ \<Rightarrow> Inl neither)"

definition resolve_upload_target :: "bool \<Rightarrow> string option \<Rightarrow> u32 option \<Rightarrow> string + source" where
  "resolve_upload_target android path fd = resolve_source android ''Exactly one upload target must be provided'' path fd"

definition resolve_file_content :: "bool \<Rightarrow> string option \<Rightarrow> u32 option \<Rightarrow> string + source" where
  "resolve_file_content android path fd = resolve_source android ''Exactly one download source must be provided'' path fd"

text \<open>
  The error that \<open>respond_file_upload\<close> puts into the sink of the file; \<open>reported\<close> is what the server
  reports of the file in the end (\<open>None\<close>: it dropped the channel).
\<close>

definition respond_file_upload ::
  "bool \<Rightarrow> bool \<Rightarrow> (string + unit) option \<Rightarrow> string \<Rightarrow> string \<Rightarrow> string option \<Rightarrow> u32 option \<Rightarrow> bridge \<Rightarrow>
   (string + unit) \<times> bridge \<times> effect list" where
  "respond_file_upload android alive reported sid fid path fd b =
     (case map_of (pending_uploads b) (sid, fid) of
        None \<Rightarrow> (Inl ''No pending file upload for this file'', b, [])
      | Some tx \<Rightarrow>
          (let b = b\<lparr>pending_uploads := AList.delete (sid, fid) (pending_uploads b)\<rparr>
           in case resolve_upload_target android path fd of
                Inl e \<Rightarrow> (Inl e, b, [Drop_Responder tx])
              | Inr src \<Rightarrow>
                  (case send_answer alive tx (Target src) ''Upload request already ended'' of
                     (Inl e, effs) \<Rightarrow> (Inl e, b, effs)
                   | (Inr _, effs) \<Rightarrow>
                       (case reported of None \<Rightarrow> Inl ''Upload request aborted'' | Some r \<Rightarrow> r, b, effs))))"

definition fail_file_upload :: "string \<Rightarrow> string \<Rightarrow> bridge \<Rightarrow> bridge \<times> effect list" where
  "fail_file_upload sid fid b =
     (b\<lparr>pending_uploads := AList.delete (sid, fid) (pending_uploads b)\<rparr>, replaced (pending_uploads b) (sid, fid))"

definition respond_prepare_download :: "bool \<Rightarrow> string \<Rightarrow> bool \<Rightarrow> bridge \<Rightarrow> (string + unit) \<times> bridge \<times> effect list" where
  "respond_prepare_download alive sid accept b =
     (case map_of (pending_download_decisions b) sid of
        None \<Rightarrow> (Inl ''No pending prepare-download request'', b, [])
      | Some tx \<Rightarrow>
          (case send_answer alive tx (Download_Decision accept) ''Prepare-download request already ended'' of
             (r, effs) \<Rightarrow>
               (r, b\<lparr>pending_download_decisions := AList.delete sid (pending_download_decisions b)\<rparr>, effs)))"

definition respond_file_download ::
  "bool \<Rightarrow> bool \<Rightarrow> string \<Rightarrow> string \<Rightarrow> string option \<Rightarrow> u32 option \<Rightarrow> bridge \<Rightarrow>
   (string + unit) \<times> bridge \<times> effect list" where
  "respond_file_download android alive sid fid path fd b =
     (case map_of (pending_downloads b) (sid, fid) of
        None \<Rightarrow> (Inl ''No pending file download for this file'', b, [])
      | Some tx \<Rightarrow>
          (let b = b\<lparr>pending_downloads := AList.delete (sid, fid) (pending_downloads b)\<rparr>
           in case resolve_file_content android path fd of
                Inl e \<Rightarrow> (Inl e, b, [Drop_Responder tx])
              | Inr src \<Rightarrow>
                  (case send_answer alive tx (Content src) ''Download request already ended'' of
                     (r, effs) \<Rightarrow> (r, b, effs))))"

definition fail_file_download :: "string \<Rightarrow> string \<Rightarrow> bridge \<Rightarrow> bridge \<times> effect list" where
  "fail_file_download sid fid b =
     (b\<lparr>pending_downloads := AList.delete (sid, fid) (pending_downloads b)\<rparr>, replaced (pending_downloads b) (sid, fid))"

definition cancel_session :: "string \<Rightarrow> bridge \<Rightarrow> bridge \<times> effect list" where
  "cancel_session sid b =
     (b\<lparr>pending_uploads := retain_other sid (pending_uploads b)\<rparr>,
      Cancel_In_Server sid # not_retained sid (pending_uploads b))"

section \<open>Every responder is settled at most once\<close>

text \<open>Anything that can happen to the bridge; \<open>alive\<close> and \<open>reported\<close> as above.\<close>

datatype bridge_op =
    Core_Event server_event responder
  | Web_Download_Event web_event responder
  | Respond_Prepare_Upload bool "string list option"
  | Respond_File_Upload bool "(string + unit) option" string string "string option" "u32 option"
  | Fail_File_Upload string string
  | Respond_Prepare_Download bool string bool
  | Respond_File_Download bool string string "string option" "u32 option"
  | Fail_File_Download string string
  | Cancel_Session string

fun bridge_step :: "(peer_ip \<Rightarrow> string) \<Rightarrow> bool \<Rightarrow> bridge_op \<Rightarrow> bridge \<Rightarrow> bridge \<times> effect list" where
  "bridge_step show_ip android (Core_Event ev tx) b = handle_core_event show_ip ev tx b"
| "bridge_step show_ip android (Web_Download_Event ev tx) b = handle_web_download_event show_ip ev tx b"
| "bridge_step show_ip android (Respond_Prepare_Upload alive ids) b = snd (respond_prepare_upload alive ids b)"
| "bridge_step show_ip android (Respond_File_Upload alive out sid fid path fd) b =
     snd (respond_file_upload android alive out sid fid path fd b)"
| "bridge_step show_ip android (Fail_File_Upload sid fid) b = fail_file_upload sid fid b"
| "bridge_step show_ip android (Respond_Prepare_Download alive sid accept) b =
     snd (respond_prepare_download alive sid accept b)"
| "bridge_step show_ip android (Respond_File_Download alive sid fid path fd) b =
     snd (respond_file_download android alive sid fid path fd b)"
| "bridge_step show_ip android (Fail_File_Download sid fid) b = fail_file_download sid fid b"
| "bridge_step show_ip android (Cancel_Session sid) b = cancel_session sid b"

fun bridge_run :: "(peer_ip \<Rightarrow> string) \<Rightarrow> bool \<Rightarrow> bridge_op list \<Rightarrow> bridge \<Rightarrow> bridge \<times> effect list" where
  "bridge_run show_ip android [] b = (b, [])"
| "bridge_run show_ip android (x # xs) b =
     (case bridge_step show_ip android x b of (b, effs) \<Rightarrow>
        (case bridge_run show_ip android xs b of (b, later) \<Rightarrow> (b, effs @ later)))"

text \<open>The responders that came in, that wait in the tables, and that were answered or dropped.\<close>

fun carries :: "bridge_op \<Rightarrow> responder list" where
  "carries (Core_Event (PrepareUpload _ _ _ _ _) tx) = [tx]"
| "carries (Core_Event (FileUpload _ _ _) tx) = [tx]"
| "carries (Web_Download_Event _ tx) = [tx]"
| "carries _ = []"

definition held :: "bridge \<Rightarrow> responder list" where
  "held b = (case pending_decision b of None \<Rightarrow> [] | Some (_, tx) \<Rightarrow> [tx]) @ map snd (pending_uploads b) @
     map snd (pending_download_decisions b) @ map snd (pending_downloads b)"

fun settles :: "effect \<Rightarrow> responder list" where
  "settles (Answer tx _) = [tx]"
| "settles (Drop_Responder tx) = [tx]"
| "settles _ = []"

definition settled :: "effect list \<Rightarrow> responder list" where
  "settled effs = concat (map settles effs)"

definition bridge_ok :: "bridge \<Rightarrow> bool" where
  "bridge_ok b \<longleftrightarrow> distinct (map fst (pending_uploads b)) \<and> distinct (map fst (pending_download_decisions b)) \<and>
     distinct (map fst (pending_downloads b))"

lemma settled_simps [simp]:
  "settled [] = []" "settled (e # effs) = settles e @ settled effs" "settled (xs @ ys) = settled xs @ settled ys"
  by (simp_all add: settled_def)

lemma mset_update:
  "distinct (map fst m) \<Longrightarrow>
   add_mset tx (mset (map snd m)) = mset (map snd (AList.update k tx m)) + mset (settled (replaced m k))"
  by (induction m) (auto simp: replaced_def split: option.splits)

lemma mset_delete:
  "distinct (map fst m) \<Longrightarrow>
   mset (map snd m) = mset (map snd (AList.delete k m)) + mset (settled (replaced m k))"
  by (induction m) (auto simp: replaced_def AList.delete_eq filter_id_conv image_iff split: option.splits)

lemma mset_delete_at:
  fixes m :: "('k \<times> responder) list"
  assumes "distinct (map fst m)" "map_of m k = Some tx"
  shows "mset (map snd m) = add_mset tx (mset (map snd (AList.delete k m)))"
  using mset_delete [OF assms(1), of k] assms(2) by (simp add: replaced_def)

lemma mset_retain:
  "mset (map snd m) = mset (map snd (retain_other sid m)) + mset (settled (not_retained sid m))"
  by (induction m) (auto simp: retain_other_def not_retained_def)

lemma keys_bridge:
  "distinct (map fst m) \<Longrightarrow> distinct (map fst (retain_other sid m))"
  "distinct (map fst l) \<Longrightarrow> distinct (map fst (AList.delete k l))"
  by (simp_all add: retain_other_def distinct_map_filter AList.delete_eq)

lemma settles_send: "settled (snd (send_answer alive tx a e)) = [tx]"
  by (simp add: send_answer_def)

lemma mset_drops:
  "mset (settled (drops p)) = mset (case p of None \<Rightarrow> [] | Some (_, tx) \<Rightarrow> [tx])"
  by (simp add: drops_def split: option.split)

definition conserved :: "responder list \<Rightarrow> bridge \<Rightarrow> bridge \<times> effect list \<Rightarrow> bool" where
  "conserved new b r \<longleftrightarrow> bridge_ok (fst r) \<and>
     mset new + mset (held b) = mset (held (fst r)) + mset (settled (snd r))"

lemmas mset_tables = mset_update mset_delete mset_retain

lemma core_conserved:
  assumes "bridge_ok b"
  shows "conserved (carries (Core_Event ev tx)) b (handle_core_event show_ip ev tx b)"
proof (cases ev)
  case (FileUpload sid fid dto)
  then show ?thesis
    using assms mset_update [of "pending_uploads b" tx "(sid, fid)"]
    by (simp add: conserved_def bridge_ok_def held_def distinct_update)
next
  case (SessionEnd sid reason)
  then show ?thesis
    using assms mset_retain [of "pending_uploads b" sid] keys_bridge(1) [of "pending_uploads b" sid]
    by (simp add: conserved_def bridge_ok_def held_def)
qed (use assms in \<open>auto simp: conserved_def bridge_ok_def held_def mset_drops split: option.splits\<close>)

lemma web_conserved:
  assumes "bridge_ok b"
  shows "conserved (carries (Web_Download_Event ev tx)) b (handle_web_download_event show_ip ev tx b)"
proof (cases ev)
  case (PrepareDownload addr sid agent)
  then show ?thesis
    using assms mset_update [of "pending_download_decisions b" tx sid]
    by (simp add: conserved_def bridge_ok_def held_def distinct_update)
next
  case (FileDownload sid fid dto)
  then show ?thesis
    using assms mset_update [of "pending_downloads b" tx "(sid, fid)"]
    by (simp add: conserved_def bridge_ok_def held_def distinct_update)
qed

lemma upload_table_conserved:
  assumes "bridge_ok b"
  shows "conserved [] b (snd (respond_file_upload android alive reported sid fid path fd b))"
    and "conserved [] b (fail_file_upload sid fid b)" and "conserved [] b (cancel_session sid b)"
proof -
  let ?m = "pending_uploads b"
  show "conserved [] b (snd (respond_file_upload android alive reported sid fid path fd b))"
    using assms mset_delete_at [of ?m "(sid, fid)"] keys_bridge(2) [of ?m]
    by (auto simp: conserved_def bridge_ok_def held_def respond_file_upload_def send_answer_def Let_def
        split: option.split sum.split)
  show "conserved [] b (fail_file_upload sid fid b)"
    using assms mset_delete [of ?m "(sid, fid)"] keys_bridge(2) [of ?m]
    by (simp add: conserved_def bridge_ok_def held_def fail_file_upload_def)
  show "conserved [] b (cancel_session sid b)"
    using assms mset_retain [of ?m sid] keys_bridge(1) [of ?m sid]
    by (simp add: conserved_def bridge_ok_def held_def cancel_session_def)
qed

lemma download_tables_conserved:
  assumes "bridge_ok b"
  shows "conserved [] b (snd (respond_prepare_download alive sid accept b))"
    and "conserved [] b (snd (respond_file_download android alive sid fid path fd b))"
    and "conserved [] b (fail_file_download sid fid b)"
proof -
  show "conserved [] b (snd (respond_prepare_download alive sid accept b))"
    using assms mset_delete_at [of "pending_download_decisions b" sid] keys_bridge(2) [of "pending_download_decisions b"]
    by (auto simp: conserved_def bridge_ok_def held_def respond_prepare_download_def send_answer_def split: option.split)
  show "conserved [] b (snd (respond_file_download android alive sid fid path fd b))"
    using assms mset_delete_at [of "pending_downloads b" "(sid, fid)"] keys_bridge(2) [of "pending_downloads b"]
    by (auto simp: conserved_def bridge_ok_def held_def respond_file_download_def send_answer_def Let_def
        split: option.split sum.split)
  show "conserved [] b (fail_file_download sid fid b)"
    using assms mset_delete [of "pending_downloads b" "(sid, fid)"] keys_bridge(2) [of "pending_downloads b"]
    by (simp add: conserved_def bridge_ok_def held_def fail_file_download_def)
qed

lemma decision_conserved:
  "bridge_ok b \<Longrightarrow> conserved [] b (snd (respond_prepare_upload alive accepted b))"
  by (auto simp: conserved_def bridge_ok_def held_def respond_prepare_upload_def send_answer_def split: option.split)

lemma bridge_step_conserved:
  "bridge_ok b \<Longrightarrow> conserved (carries x) b (bridge_step show_ip android x b)"
  using core_conserved web_conserved upload_table_conserved download_tables_conserved decision_conserved
  by (cases x) simp_all

lemma bridge_run_conserved:
  "bridge_ok b \<Longrightarrow> conserved (concat (map carries xs)) b (bridge_run show_ip android xs b)"
proof (induction xs arbitrary: b)
  case (Cons x xs)
  obtain b1 effs where step: "bridge_step show_ip android x b = (b1, effs)" by fastforce
  obtain b2 later where run: "bridge_run show_ip android xs b1 = (b2, later)" by fastforce
  have "conserved (carries x) b (b1, effs)" using bridge_step_conserved [OF Cons.prems] step by metis
  moreover from this have "conserved (concat (map carries xs)) b1 (b2, later)"
    using Cons.IH [of b1] run by (simp add: conserved_def)
  ultimately show ?case using step run by (simp add: conserved_def) (metis add.assoc add.commute)
qed (simp add: conserved_def)

section \<open>Properties\<close>


text \<open>Two events with their calls of the Dart side: an upload to a path, and a request that is declined late.\<close>

definition sample_ops :: "bridge_op list" where
  "sample_ops =
     [Core_Event (PrepareUpload ''s1'' (peer sample_client) sample_info None sample_files) 4,
      Respond_Prepare_Upload True (Some [''f1'']), Core_Event (FileUpload ''s1'' ''f1'' (sample_dto ''f1'' 2)) 7,
      Respond_File_Upload True (Some (Inr ())) ''s1'' ''f1'' (Some ''a.txt'') None,
      Core_Event (PrepareUpload ''s2'' (peer sample_client) sample_info None sample_files) 9]"


section \<open>The bridge on a server\<close>

text \<open>The events of the core among what happens, and the request that waits for an answer after them.\<close>

definition core_events :: "bridge_op list \<Rightarrow> server_event list" where
  "core_events xs = List.map_filter (\<lambda>x. case x of Core_Event ev _ \<Rightarrow> Some ev | _ \<Rightarrow> None) xs"

fun now_open :: "server_event \<Rightarrow> string option \<Rightarrow> string option" where
  "now_open (PrepareUpload sid _ _ _ _) c = Some sid"
| "now_open (PrepareUploadAborted sid) c = (if c = Some sid then None else c)"
| "now_open _ c = c"

definition open_request :: "server_event list \<Rightarrow> string option" where
  "open_request evs = fold now_open evs None"

lemma open_request_simps [simp]:
  "open_request [] = None" "open_request (evs @ [ev]) = now_open ev (open_request evs)"
  by (simp_all add: open_request_def)

fun answers_request :: "bridge_op \<Rightarrow> bool" where
  "answers_request (Respond_Prepare_Upload _ _) = True"
| "answers_request _ = False"

lemma core_events_simps [simp]:
  "core_events [] = []" "core_events (x # xs) = (case x of Core_Event ev _ \<Rightarrow> [ev] | _ \<Rightarrow> []) @ core_events xs"
  "core_events (xs @ ys) = core_events xs @ core_events ys"
  by (auto simp: core_events_def List.map_filter_def split: bridge_op.splits)

definition open_in :: "bridge \<Rightarrow> string option" where
  "open_in b = map_option fst (pending_decision b)"

lemma open_in_step:
  "\<not> answers_request x \<Longrightarrow>
   open_in (fst (bridge_step show_ip android x b)) = fold now_open (core_events [x]) (open_in b)"
proof (cases x)
  case (Core_Event ev tx)
  then show ?thesis by (cases ev) (auto simp: open_in_def split: option.splits)
next
  case (Web_Download_Event ev tx)
  then show ?thesis by (cases ev) (auto simp: open_in_def)
qed (auto simp: open_in_def respond_file_upload_def fail_file_upload_def respond_prepare_download_def Let_def
    respond_file_download_def fail_file_download_def cancel_session_def split: option.splits sum.splits prod.splits)

lemma bridge_run_fst:
  "fst (bridge_run show_ip android [] b) = b"
  "fst (bridge_run show_ip android (x # xs) b) =
     fst (bridge_run show_ip android xs (fst (bridge_step show_ip android x b)))"
  by (simp_all add: split_beta)

lemma open_in_run:
  "\<not> list_ex answers_request xs \<Longrightarrow>
   open_in (fst (bridge_run show_ip android xs b)) = fold now_open (core_events xs) (open_in b)"
proof (induction xs arbitrary: b)
  case (Cons x xs)
  then show ?case using open_in_step [of x show_ip android b]
    by (simp add: bridge_run_fst del: bridge_run.simps)
qed simp

lemma bridge_run_append:
  "fst (bridge_run show_ip android (xs @ ys) b) =
   fst (bridge_run show_ip android ys (fst (bridge_run show_ip android xs b)))"
  by (induction xs arbitrary: b) (simp_all add: bridge_run_fst del: bridge_run.simps)

text \<open>
  On the side of the server: an aborted request is announced after it has given up the slot, and the
  request that waits for its decision is the last one that was announced and not aborted.
\<close>

definition abort_inv :: "server \<Rightarrow> bool" where
  "abort_inv s \<longleftrightarrow> (\<forall>n sid. tasks s n = Some (Notifying (PrepareUploadAborted sid)) \<longrightarrow>
     sid \<in> used s \<and> (\<forall>m. owned s m \<noteq> Some sid))"

definition announced_inv :: "server \<Rightarrow> bool" where
  "announced_inv s \<longleftrightarrow>
     (\<forall>n sid addr info fp files. tasks s n \<noteq> Some (Notifying (PrepareUpload sid addr info fp files))) \<and>
     (\<forall>n sid addr files. tasks s n = Some (PDeciding sid addr files) \<longrightarrow> open_request (log s) = Some sid)"

lemma own_used: "owner_inv s \<Longrightarrow> slot_inv s \<Longrightarrow> owned s n = Some sid \<Longrightarrow> sid \<in> used s"
  by (auto simp: owner_inv_def slot_inv_def)

lemma own_single: "owner_inv s \<Longrightarrow> owned s n = Some sid \<Longrightarrow> owned s m = Some sid' \<Longrightarrow> m = n"
  unfolding owner_inv_def by (metis option.distinct(1))

lemma abort_inv_become:
  assumes "abort_inv s" "tasks s n = Some t"
    and "Option.bind u owner = None \<or> Option.bind u owner = owner t"
    and "\<And>sid. u = Some (Notifying (PrepareUploadAborted sid)) \<Longrightarrow> sid \<in> used s \<and> owned s n = Some sid \<and> owner_inv s"
  shows "abort_inv (become n u s)"
proof -
  have *: "owned (become n u s) m \<noteq> Some sid" if "owned s m \<noteq> Some sid \<or> Option.bind u owner = None \<and> owner_inv s \<and> owned s n = Some sid"
    for m sid
    using that assms(3) owned_task [OF assms(2)] own_single [of s n sid m sid] by (cases "m = n") auto
  show ?thesis unfolding abort_inv_def
  proof (intro allI impI)
    fix k sid
    assume k: "tasks (become n u s) k = Some (Notifying (PrepareUploadAborted sid))"
    show "sid \<in> used (become n u s) \<and> (\<forall>m. owned (become n u s) m \<noteq> Some sid)"
    proof (cases "k = n")
      case True
      then have u: "u = Some (Notifying (PrepareUploadAborted sid))" using k by simp
      then show ?thesis using assms(4) [OF u] * [of _ sid] by simp
    next
      case False
      then show ?thesis using k assms(1) * [of _ sid] by (simp add: abort_inv_def)
    qed
  qed
qed

lemma abort_inv_cong:
  "abort_inv s \<Longrightarrow> tasks t = tasks s \<Longrightarrow> used t = used s \<Longrightarrow> abort_inv t"
  using owned_eq [of t s] by (simp add: abort_inv_def)

lemma abort_inv_spawn:
  assumes "abort_inv s" "ids_inv s" "owner t = None" "\<And>sid. t \<noteq> Notifying (PrepareUploadAborted sid)"
  shows "abort_inv (spawn t s)"
  using assms owned_next [OF assms(2)] by (auto simp: abort_inv_def)

lemma abort_step:
  assumes inv: "abort_inv s" and owner: "owner_inv s" and ids: "ids_inv s" and slot: "slot_inv s"
    and step: "sstep s t"
  shows "abort_inv t"
  using step
proof cases
  case (claim sid files addr sl info crt)
  have "\<not> is_pending (sv_slot s)" using claim_shape [OF claim(5)] by simp
  then have "owned s m = None" for m using owner unfolding owner_inv_def by (meson option.exhaust)
  then show ?thesis using inv claim(1,2) by (auto simp: abort_inv_def)
next
  case (cleanup n sid)
  have own: "owned s n = Some sid" using owned_task [OF cleanup(2)] by simp
  then have "sid \<in> used s" by (rule own_used [OF owner slot])
  then have "abort_inv (become n (Some (Notifying (PrepareUploadAborted sid))) s)"
    using own owner by (intro abort_inv_become [OF inv cleanup(2)]) simp_all
  then show ?thesis using cleanup(1) by (auto intro: abort_inv_cong)
next
  case (drop n u u')
  then show ?thesis
    by (cases u') (auto intro!: abort_inv_become [OF inv drop(2)] dest: dropped_facts(1) elim!: dropped.elims)
next
  case (upload_begins sid fid token addr dto sl)
  then show ?thesis using abort_inv_spawn [OF abort_inv_cong [OF inv] _, of "s\<lparr>sv_slot := sl\<rparr>"] ids
    by (simp add: ids_inv_def)
next
  case (cancel_not_pending addr sid)
  then show ?thesis using abort_inv_spawn [OF inv ids] by simp
next
  case (upload_finishes n sid fid result sl ended)
  then have "abort_inv (become n (if ended then Some (Notifying (SessionEnd sid Finished)) else None) s)"
    by (intro abort_inv_become [OF inv]) (auto split: if_splits)
  then show ?thesis using upload_finishes(1) by (auto intro: abort_inv_cong)
next
  case (upload_cleanup n sid fid sl ended)
  then have "abort_inv (become n (if ended then Some (Notifying (SessionEnd sid Finished)) else None) s)"
    by (intro abort_inv_become [OF inv]) (auto split: if_splits)
  then show ?thesis using upload_cleanup(1) by (auto intro: abort_inv_cong)
next
  case (cancel_active_session n addr sid sl cancelled)
  then have "abort_inv (become n (Some (Notifying
       (if cancelled then SessionEnd sid Cancelled else CancelReceived addr sid))) s)"
    by (intro abort_inv_become [OF inv]) (auto split: if_splits)
  then show ?thesis using cancel_active_session(1) by (auto intro: abort_inv_cong)
next
  case (prepare_sent n sid addr info crt files)
  then have "abort_inv (become n (Some (PDeciding sid addr files)) s)"
    by (intro abort_inv_become [OF inv]) auto
  then show ?thesis using prepare_sent(1) by (auto intro: abort_inv_cong)
next
  case (clear n sid reply)
  then have "abort_inv (become n None s)" by (intro abort_inv_become [OF inv]) auto
  then show ?thesis using clear(1) by (auto intro: abort_inv_cong)
next
  case (install n sid addr fs)
  then have "abort_inv (become n None s)" by (intro abort_inv_become [OF inv]) auto
  then show ?thesis using install(1) by (auto intro: abort_inv_cong)
next
  case (upload_sent n sid fid dto)
  then have "abort_inv (become n (Some (USaving sid fid)) s)" by (intro abort_inv_become [OF inv]) auto
  then show ?thesis using upload_sent(1) by (auto intro: abort_inv_cong)
next
  case (notify n ev)
  then have "abort_inv (become n None s)" by (intro abort_inv_become [OF inv]) auto
  then show ?thesis using notify(1) by (auto intro: abort_inv_cong)
qed (auto intro: abort_inv_cong [OF inv] intro!: abort_inv_become [OF inv])

lemma announced_become:
  assumes "announced_inv s" "\<And>sid addr info fp files. u \<noteq> Some (Notifying (PrepareUpload sid addr info fp files))"
    and "\<And>sid addr files. u \<noteq> Some (PDeciding sid addr files)"
  shows "announced_inv (become n u s)"
  using assms by (auto simp: announced_inv_def)

lemma announced_cong:
  "announced_inv s \<Longrightarrow> tasks t = tasks s \<Longrightarrow> log t = log s \<Longrightarrow> announced_inv t"
  by (simp add: announced_inv_def)

lemma deciding_owned: "tasks s n = Some (PDeciding sid addr files) \<Longrightarrow> owned s n = Some sid"
  by (simp add: owned_def)

lemma announced_open: "announced_inv s \<Longrightarrow> tasks s n = Some (PDeciding sid addr files) \<Longrightarrow> open_request (log s) = Some sid"
  unfolding announced_inv_def by blast

lemma announced_step:
  assumes inv: "announced_inv s" and ab: "abort_inv s" and owner: "owner_inv s" and step: "sstep s t"
  shows "announced_inv t"
  using step
proof cases
  case (prepare_sent n sid addr info crt files)
  have "owned s n = Some sid" using owned_task [OF prepare_sent(2)] by simp
  then have "m = n" if "tasks s m = Some (PDeciding sid' addr' files')" for m sid' addr' files'
    using own_single [OF owner _ deciding_owned [OF that]] by blast
  then show ?thesis using inv prepare_sent by (auto simp: announced_inv_def)
next
  case (notify n ev)
  have "now_open ev (open_request (log s)) = open_request (log s)"
    if "tasks s m = Some (PDeciding sid addr files)" for m sid addr files
  proof -
    have "ev \<noteq> PrepareUploadAborted sid" using ab notify(2) deciding_owned [OF that] by (auto simp: abort_inv_def)
    moreover have "open_request (log s) = Some sid" using announced_open [OF inv that] .
    moreover have False if "ev = PrepareUpload a b c d e" for a b c d e
      using inv notify(2) that by (auto simp: announced_inv_def)
    ultimately show ?thesis by (cases ev) (blast | simp)+
  qed
  then show ?thesis using inv notify(1) by (auto simp: announced_inv_def split: if_splits) metis+
next
  case (upload_sent n sid fid dto)
  then show ?thesis using inv by (auto simp: announced_inv_def)
next
  case (drop n u u')
  have "announced_inv (become n u' s)"
    using inv drop(3) by (intro announced_become) (auto elim!: dropped.elims)
  then show ?thesis using drop(1) by simp
next
  case (upload_finishes n sid fid result sl ended)
  have "announced_inv (become n (if ended then Some (Notifying (SessionEnd sid Finished)) else None) s)"
    by (rule announced_become [OF inv]) auto
  then show ?thesis using upload_finishes(1) by (auto intro: announced_cong)
next
  case (upload_cleanup n sid fid sl ended)
  have "announced_inv (become n (if ended then Some (Notifying (SessionEnd sid Finished)) else None) s)"
    by (rule announced_become [OF inv]) auto
  then show ?thesis using upload_cleanup(1) by (auto intro: announced_cong)
next
  case (cancel_active_session n addr sid sl cancelled)
  have "announced_inv (become n (Some (Notifying
       (if cancelled then SessionEnd sid Cancelled else CancelReceived addr sid))) s)"
    by (rule announced_become [OF inv]) auto
  then show ?thesis using cancel_active_session(1) by (auto intro: announced_cong)
next
  case (install n sid addr fs)
  have "announced_inv (become n None s)" by (rule announced_become [OF inv]) auto
  then show ?thesis using install(1) by (auto intro: announced_cong)
next
  case (cleanup n sid)
  have "announced_inv (become n (Some (Notifying (PrepareUploadAborted sid))) s)"
    by (rule announced_become [OF inv]) auto
  then show ?thesis using cleanup(1) by (auto intro: announced_cong)
next
  case (clear n sid reply)
  have "announced_inv (become n None s)" by (rule announced_become [OF inv]) auto
  then show ?thesis using clear(1) by (auto intro: announced_cong)
qed (use inv in \<open>auto simp: announced_inv_def\<close>)

lemma bridge_server_invs:
  assumes "reachable s"
  shows "abort_inv s \<and> announced_inv s"
proof -
  have "rtranclp sstep start_server s" using assms by (simp add: reachable_def)
  then have "server_inv s \<and> abort_inv s \<and> announced_inv s"
  proof (induction rule: rtranclp_induct)
    case base
    show ?case using server_inv_start by (simp add: abort_inv_def announced_inv_def start_server_def)
  next
    case (step s t)
    then show ?case
      using server_inv_step [of s t] abort_step [of s t] announced_step [of s t] by (simp add: server_inv_def)
  qed
  then show ?thesis by blast
qed



text \<open>The first request is dropped while the user is asked, and another device asks.\<close>

definition other_client :: peer_ip where
  "other_client = \<lparr>ip = V4 8, scope_id = None\<rparr>"

definition next_ask :: server_event where
  "next_ask = PrepareUpload ''s2'' other_client sample_info None sample_files"

lemma next_request_asks:
  "\<exists>s n. reachable s \<and> tasks s n = Some (PDeciding ''s2'' other_client sample_files) \<and>
     log s = [PrepareUpload ''s1'' (peer sample_client) sample_info None sample_files,
       PrepareUploadAborted ''s1'', next_ask]"
proof -
  have t0: "tasks deciding 0 = Some (PDeciding ''s1'' (peer sample_client) sample_files)"
    by (simp add: deciding_facts)
  let ?d = "become 0 (Some (Cleanup ''s1'')) deciding"
  have "reachable ?d" by (rule reachable_step [OF reachable_deciding]) (rule sstep.drop [OF t0], simp)
  then have "reachable (become 0 (Some (Notifying (PrepareUploadAborted ''s1'')))
      (?d\<lparr>sv_slot := clear_pending_session (sv_slot ?d)\<rparr>))" (is "reachable ?c")
    by (rule reachable_step) (rule sstep.cleanup, simp)
  then have "reachable (become 0 None (?c\<lparr>log := log ?c @ [PrepareUploadAborted ''s1'']\<rparr>))" (is "reachable ?n")
    by (rule reachable_step) (rule sstep.notify, simp)
  then have "reachable (spawn (PSending ''s2'' other_client sample_info None sample_files)
      (?n\<lparr>sv_slot := Some (Pending \<lparr>ps_session_id = ''s2'', ps_sender_ip = other_client, ps_cancel = next_id ?n\<rparr>),
          used := insert ''s2'' (used ?n)\<rparr>))" (is "reachable ?p")
    by (rule reachable_step)
      (rule sstep.claim, simp_all add: claim_slot_def deciding_def asked_def start_server_def sample_files_def)
  then have "reachable (become (next_id ?n) (Some (PDeciding ''s2'' other_client sample_files))
      (?p\<lparr>log := log ?p @ [next_ask]\<rparr>))" (is "reachable ?a")
    unfolding next_ask_def by (rule reachable_step) (rule sstep.prepare_sent, simp)
  moreover have "tasks ?a (next_id ?n) = Some (PDeciding ''s2'' other_client sample_files)" by simp
  moreover have "log ?a = [PrepareUpload ''s1'' (peer sample_client) sample_info None sample_files,
       PrepareUploadAborted ''s1'', next_ask]"
    by (simp add: deciding_def)
  ultimately show ?thesis by blast
qed

text \<open>
  \<open>respond_prepare_upload\<close> does not name the request it answers. When the first request is gone and
  another device has asked before the answer of the user arrives, the answer that was meant for the first
  accepts the files of the other device: their ids are chosen by the sender.
\<close>

theorem late_answer_accepts_next_request:
  "\<exists>s n. reachable s \<and> tasks s n = Some (PDeciding ''s2'' other_client sample_files) \<and>
     log s = [PrepareUpload ''s1'' (peer sample_client) sample_info None sample_files,
       PrepareUploadAborted ''s1'', next_ask] \<and>
     snd (snd (respond_prepare_upload True (Some [''f1''])
       (fst (bridge_run show_ip android (map2 Core_Event (log s) [1, 2, 3]) new_bridge)))) =
     [Answer 3 (Decision (Accept [''f1'']))] \<and>
     after_decision id sample_files (Decided (Accept [''f1''])) = Install (accepted_files id sample_files [''f1''])"
proof -
  let ?log = "[PrepareUpload ''s1'' (peer sample_client) sample_info None sample_files,
       PrepareUploadAborted ''s1'', next_ask]"
  have "snd (snd (respond_prepare_upload True (Some [''f1''])
       (fst (bridge_run show_ip android (map2 Core_Event ?log [1, 2, 3]) new_bridge)))) =
     [Answer 3 (Decision (Accept [''f1'']))]"
    by (simp add: respond_prepare_upload_def send_answer_def next_ask_def new_bridge_def)
  moreover have "after_decision id sample_files (Decided (Accept [''f1''])) =
      Install (accepted_files id sample_files [''f1''])"
    by (simp add: sample_files_def accepted_files_def)
  ultimately show ?thesis using next_request_asks by metis
qed

section \<open>One running instance\<close>

text \<open>
  \<open>RUNNING_SERVER\<close> and the lock around it: \<open>start_server\<close> holds the lock from taking the previous
  instance until the new one is stored; an instance may be stopped by its owner or fail at any time, and
  \<open>stop\<close> forgets it once it no longer listens. The running discovery is kept in the same way.
\<close>

record instances =
  running :: "nat option"
  listening :: "nat set"
  next_instance :: nat
  starting :: bool

definition no_instance :: instances where
  "no_instance = \<lparr>running = None, listening = {}, next_instance = 0, starting = False\<rparr>"

inductive instance_step :: "instances \<Rightarrow> instances \<Rightarrow> bool" where
  stop_previous:
    "\<not> starting s \<Longrightarrow>
     instance_step s (s\<lparr>starting := True, running := None, listening := listening s - set_option (running s)\<rparr>)"
| started:
    "starting s \<Longrightarrow>
     instance_step s (s\<lparr>starting := False, running := Some (next_instance s),
       listening := insert (next_instance s) (listening s), next_instance := Suc (next_instance s)\<rparr>)"
| start_failed: "starting s \<Longrightarrow> instance_step s (s\<lparr>starting := False\<rparr>)"
| stop_listening: "instance_step s (s\<lparr>listening := listening s - {i}\<rparr>)"
| forget:
    "\<lbrakk>\<not> starting s; running s = Some i; i \<notin> listening s\<rbrakk> \<Longrightarrow> instance_step s (s\<lparr>running := None\<rparr>)"

inductive_cases instance_stepE: "instance_step s t"

definition instance_inv :: "instances \<Rightarrow> bool" where
  "instance_inv s \<longleftrightarrow> listening s \<subseteq> set_option (running s) \<and> (starting s \<longrightarrow> running s = None)"

interpretation instances: transition_system "\<lambda>s. s = no_instance" instance_step instance_inv
proof unfold_locales
  show "instance_inv s" if "s = no_instance" for s using that by (simp add: instance_inv_def no_instance_def)
  show "instance_inv t" if "instance_inv s" "instance_step s t" for s t
    using that(2,1) by (elim instance_stepE) (auto simp: instance_inv_def)
qed

text \<open>
  However starts, stops and failures of the server interleave, at most one server listens at any time,
  it is the one that is registered, and while another one starts none does: the port it binds is free.
\<close>

theorem one_server_listens:
  assumes "rtranclp instance_step no_instance s"
  shows "listening s \<subseteq> set_option (running s) \<and> (starting s \<longrightarrow> listening s = {})"
  using instances.reachable_inv [OF refl assms] by (auto simp: instance_inv_def)

theorem one_server_listens_witness:
  "listening (no_instance\<lparr>starting := True, running := None, listening := {}\<rparr>) = {}"
proof -
  have "instance_step no_instance (no_instance\<lparr>starting := True, running := None,
      listening := listening no_instance - set_option (running no_instance)\<rparr>)"
    by (rule instance_step.stop_previous) (simp add: no_instance_def)
  then have "rtranclp instance_step no_instance (no_instance\<lparr>starting := True, running := None, listening := {}\<rparr>)"
    by (simp add: no_instance_def)
  from one_server_listens [OF this] show ?thesis by simp
qed

end
