(* ===== verification/Interfaces.thy ===== *)
theory Interfaces
  imports Http_Common
begin

text \<open>
  The local network interfaces and their filter (\<open>util/interface.rs\<close>): patterns with wildcards, the
  grouping of addresses into interfaces, and what is left after the filter. The addresses of the host
  (\<open>if_addrs\<close>) and their rendering (\<open>show_ip\<close>) are arguments.
\<close>

section \<open>Patterns\<close>

text \<open>The text before the first \<open>*\<close> and after it, and what a prefix leaves of a text.\<close>

fun split_star :: "string \<Rightarrow> (string \<times> string) option" where
  "split_star [] = None"
| "split_star (c # cs) =
     (if c = CHR ''*'' then Some ([], cs) else map_option (\<lambda>(p, r). (c # p, r)) (split_star cs))"

fun without_prefix :: "string \<Rightarrow> string \<Rightarrow> string option" where
  "without_prefix [] s = Some s"
| "without_prefix (c # p) [] = None"
| "without_prefix (c # p) (d # s) = (if c = d then without_prefix p s else None)"

definition first_dot :: "string \<Rightarrow> nat" where
  "first_dot s = length (takeWhile (\<lambda>c. c \<noteq> CHR ''.'') s)"

lemma split_star_shorter: "split_star p = Some (a, r) \<Longrightarrow> length r < length p"
  by (induction p arbitrary: a) (auto split: if_splits)

text \<open>The \<open>*\<close> takes at least one character and stops at a dot.\<close>

function matches_ip_filter :: "string \<Rightarrow> string \<Rightarrow> bool" where
  "matches_ip_filter pattern address =
     (case split_star pattern of
        None \<Rightarrow> pattern = address
      | Some (pre, rest) \<Rightarrow>
          (case without_prefix pre address of
             None \<Rightarrow> False
           | Some remainder \<Rightarrow>
               list_ex (\<lambda>len. matches_ip_filter rest (drop len remainder)) [1..<Suc (first_dot remainder)]))"
  by pat_completeness auto
termination by (relation "measure (\<lambda>(p, a). length p)") (auto dest: split_star_shorter)

declare matches_ip_filter.simps [simp del]

definition any_address_matches :: "(ip_addr \<Rightarrow> string) \<Rightarrow> ip_addr list \<Rightarrow> string list \<Rightarrow> bool" where
  "any_address_matches show_ip addresses patterns =
     list_ex (\<lambda>a. list_ex (\<lambda>p. matches_ip_filter p (show_ip a)) patterns) addresses"

record interface_filter =
  whitelist :: "string list option"
  blacklist :: "string list option"

definition is_ignored :: "(ip_addr \<Rightarrow> string) \<Rightarrow> interface_filter \<Rightarrow> ip_addr list \<Rightarrow> bool" where
  "is_ignored show_ip f addresses =
     ((case whitelist f of None \<Rightarrow> False | Some w \<Rightarrow> \<not> any_address_matches show_ip addresses w) \<or>
      (case blacklist f of None \<Rightarrow> False | Some b \<Rightarrow> any_address_matches show_ip addresses b))"

section \<open>Interfaces\<close>

record interface_address =
  ia_name :: string
  ia_ip :: ip_addr
  ia_index :: "u32 option"
  ia_loopback :: bool

record if_entry =
  en_name :: string
  en_index :: "u32 option"
  en_addresses :: "ip_addr list"

record local_interfaces =
  li_v4 :: "(string \<times> u32) list"
  li_v6 :: "(string \<times> u32) list"

text \<open>One more address: to the first entry of its name, or a new entry at the end.\<close>

fun add_address :: "interface_address \<Rightarrow> if_entry list \<Rightarrow> if_entry list" where
  "add_address i [] = [\<lparr>en_name = ia_name i, en_index = ia_index i, en_addresses = [ia_ip i]\<rparr>]"
| "add_address i (e # es) =
     (if en_name e = ia_name i
      then e\<lparr>en_index := (case en_index e of Some x \<Rightarrow> Some x | None \<Rightarrow> ia_index i),
             en_addresses := en_addresses e @ [ia_ip i]\<rparr> # es
      else e # add_address i es)"

definition by_name :: "interface_address list \<Rightarrow> if_entry list" where
  "by_name is = fold (\<lambda>i es. if ia_loopback i then es else add_address i es) is []"

definition v4_of :: "if_entry \<Rightarrow> (string \<times> u32) list" where
  "v4_of e = List.map_filter (\<lambda>a. case a of V4 x \<Rightarrow> Some (en_name e, x) | V6 _ \<Rightarrow> None) (en_addresses e)"

definition v6_of :: "if_entry \<Rightarrow> (string \<times> u32) list" where
  "v6_of e =
     (if list_ex (\<lambda>a. case a of V6 _ \<Rightarrow> True | V4 _ \<Rightarrow> False) (en_addresses e)
      then (case en_index e of Some i \<Rightarrow> [(en_name e, i)] | None \<Rightarrow> []) else [])"

text \<open>\<open>get_if_addrs\<close> may fail.\<close>

definition usable_interfaces ::
  "(ip_addr \<Rightarrow> string) \<Rightarrow> interface_filter \<Rightarrow> string + interface_address list \<Rightarrow> string + local_interfaces" where
  "usable_interfaces show_ip f addrs =
     (case addrs of
        Inl e \<Rightarrow> Inl e
      | Inr is \<Rightarrow>
          (let used = filter (\<lambda>e. \<not> is_ignored show_ip f (en_addresses e)) (by_name is)
           in Inr \<lparr>li_v4 = concat (map v4_of used), li_v6 = concat (map v6_of used)\<rparr>))"

definition local_interface_addresses ::
  "(ip_addr \<Rightarrow> string) \<Rightarrow> interface_filter \<Rightarrow> string + interface_address list \<Rightarrow> string + u32 list" where
  "local_interface_addresses show_ip f addrs =
     (case usable_interfaces show_ip f addrs of Inl e \<Rightarrow> Inl e | Inr li \<Rightarrow> Inr (map snd (li_v4 li)))"

section \<open>What a pattern means\<close>

text \<open>The language of the patterns, without the search: a \<open>*\<close> stands for a non-empty text without a dot.\<close>

inductive stands_for :: "string \<Rightarrow> string \<Rightarrow> bool" where
  sf_end: "stands_for [] []"
| sf_char: "c \<noteq> CHR ''*'' \<Longrightarrow> stands_for p a \<Longrightarrow> stands_for (c # p) (c # a)"
| sf_star: "w \<noteq> [] \<Longrightarrow> CHR ''.'' \<notin> set w \<Longrightarrow> stands_for p a \<Longrightarrow> stands_for (CHR ''*'' # p) (w @ a)"

inductive_simps stands_for_simps: "stands_for [] a" "stands_for (c # p) a"

lemma split_star_None: "split_star p = None \<Longrightarrow> stands_for p a \<longleftrightarrow> a = p"
  by (induction p arbitrary: a) (auto simp: stands_for_simps split: if_splits)

lemma split_star_Some:
  "split_star p = Some (pre, rest) \<Longrightarrow>
   stands_for p a \<longleftrightarrow> (\<exists>r. without_prefix pre a = Some r \<and> stands_for (CHR ''*'' # rest) r)"
proof (induction p arbitrary: pre a)
  case (Cons c p)
  show ?case
  proof (cases "c = CHR ''*''")
    case True
    then show ?thesis using Cons.prems by auto
  next
    case False
    then obtain pre' where p: "split_star p = Some (pre', rest)" "pre = c # pre'"
      using Cons.prems by auto
    show ?thesis using False Cons.IH [OF p(1)] p(2)
      by (cases a) (auto simp: stands_for_simps)
  qed
qed simp

lemma star_lengths:
  "stands_for (CHR ''*'' # p) r \<longleftrightarrow> (\<exists>len \<in> {1..first_dot r}. stands_for p (drop len r))"
proof
  assume "stands_for (CHR ''*'' # p) r"
  then obtain w a where w: "w \<noteq> []" "CHR ''.'' \<notin> set w" "r = w @ a" "stands_for p a"
    by (auto simp: stands_for_simps)
  then have "takeWhile (\<lambda>c. c \<noteq> CHR ''.'') r = w @ takeWhile (\<lambda>c. c \<noteq> CHR ''.'') a"
    by (auto intro!: takeWhile_append2)
  then have "length w \<le> first_dot r" by (simp add: first_dot_def)
  then show "\<exists>len \<in> {1..first_dot r}. stands_for p (drop len r)"
    using w by (intro bexI [of _ "length w"]) (auto simp: Suc_le_eq)
next
  assume "\<exists>len \<in> {1..first_dot r}. stands_for p (drop len r)"
  then obtain len where len: "1 \<le> len" "len \<le> first_dot r" "stands_for p (drop len r)" by auto
  have "r = takeWhile (\<lambda>c. c \<noteq> CHR ''.'') r @ dropWhile (\<lambda>c. c \<noteq> CHR ''.'') r" by simp
  then have "take len r = take len (takeWhile (\<lambda>c. c \<noteq> CHR ''.'') r)"
    using len(2) unfolding first_dot_def by (metis take_append take_all_iff diff_is_0_eq' take0 append_Nil2)
  then have "set (take len r) \<subseteq> set (takeWhile (\<lambda>c. c \<noteq> CHR ''.'') r)"
    using set_take_subset [of len "takeWhile (\<lambda>c. c \<noteq> CHR ''.'') r"] by metis
  then have "CHR ''.'' \<notin> set (take len r)" using set_takeWhileD by fastforce
  moreover have "take len r \<noteq> []" using len(1,2) by (auto simp: first_dot_def)
  ultimately have "stands_for (CHR ''*'' # p) (take len r @ drop len r)" using len(3) by (rule_tac sf_star)
  then show "stands_for (CHR ''*'' # p) r" by simp
qed

text \<open>
  C34. The backtracking search of a filter pattern accepts exactly the addresses the pattern stands for:
  every \<open>*\<close> is at least one character and none of them a dot, every other character itself.
\<close>

theorem filter_matches_language: "matches_ip_filter p a \<longleftrightarrow> stands_for p a"
proof (induction p a rule: matches_ip_filter.induct)
  case (1 p a)
  show ?case
  proof (cases "split_star p")
    case None
    then show ?thesis using split_star_None [OF None] by (auto simp: matches_ip_filter.simps [of p])
  next
    case (Some x)
    then obtain pre rest where x: "split_star p = Some (pre, rest)" by (cases x) auto
    show ?thesis
    proof (cases "without_prefix pre a")
      case None
      then show ?thesis using x split_star_Some [OF x] by (simp add: matches_ip_filter.simps [of p])
    next
      case (Some r)
      have "matches_ip_filter p a \<longleftrightarrow> (\<exists>len \<in> set [1..<Suc (first_dot r)]. matches_ip_filter rest (drop len r))"
        using x Some by (simp add: matches_ip_filter.simps [of p] list_ex_iff del: set_upt)
      also have "\<dots> \<longleftrightarrow> (\<exists>len \<in> {1..first_dot r}. stands_for rest (drop len r))"
        using 1 [OF x refl Some] by auto
      finally show ?thesis using split_star_Some [OF x, of a] Some star_lengths [of rest r] by simp
    qed
  qed
qed

section \<open>What the filter leaves\<close>

definition addresses_named :: "string \<Rightarrow> interface_address list \<Rightarrow> ip_addr list" where
  "addresses_named n is = map ia_ip (filter (\<lambda>i. \<not> ia_loopback i \<and> ia_name i = n) is)"

lemma add_address_names:
  "map en_name (add_address i es) =
   (if ia_name i \<in> en_name ` set es then map en_name es else map en_name es @ [ia_name i])"
  by (induction es) auto

lemma add_address_entry:
  assumes "e \<in> set (add_address i es)" "distinct (map en_name es)"
  shows "(en_name e \<noteq> ia_name i \<and> e \<in> set es) \<or>
    (en_name e = ia_name i \<and> (\<exists>e' \<in> set es. en_name e' = ia_name i \<and> en_addresses e = en_addresses e' @ [ia_ip i])) \<or>
    (en_name e = ia_name i \<and> ia_name i \<notin> en_name ` set es \<and> en_addresses e = [ia_ip i])"
  using assms by (induction es) (force split: if_splits)+

lemma by_name_entries:
  "distinct (map en_name (by_name is)) \<and>
   (\<forall>e \<in> set (by_name is). en_addresses e = addresses_named (en_name e) is) \<and>
   en_name ` set (by_name is) = ia_name ` {i \<in> set is. \<not> ia_loopback i}"
proof (induction "is" rule: rev_induct)
  case (snoc i "is")
  have step: "by_name (is @ [i]) = (if ia_loopback i then by_name is else add_address i (by_name is))"
    by (simp add: by_name_def)
  show ?case
  proof (cases "ia_loopback i")
    case True
    then show ?thesis using snoc step by (auto simp: addresses_named_def)
  next
    case False
    have names: "map en_name (by_name (is @ [i])) = (if ia_name i \<in> en_name ` set (by_name is)
        then map en_name (by_name is) else map en_name (by_name is) @ [ia_name i])"
      using step False by (simp add: add_address_names)
    have "en_addresses e = addresses_named (en_name e) (is @ [i])" if "e \<in> set (by_name (is @ [i]))" for e
    proof -
      have fresh: "addresses_named (ia_name i) is = []" if "ia_name i \<notin> en_name ` set (by_name is)"
      proof -
        have "ia_name i \<notin> ia_name ` {i \<in> set is. \<not> ia_loopback i}" using that snoc by metis
        then show ?thesis by (auto simp: addresses_named_def filter_empty_conv image_iff)
      qed
      have ih: "en_addresses e' = addresses_named (en_name e') is" if "e' \<in> set (by_name is)" for e'
        using snoc that by blast
      have more: "addresses_named n (is @ [i]) = addresses_named n is @ (if n = ia_name i then [ia_ip i] else [])" for n
        using False by (simp add: addresses_named_def)
      from that step False have "e \<in> set (add_address i (by_name is))" by simp
      moreover have "distinct (map en_name (by_name is))" using snoc by blast
      ultimately show ?thesis
        using add_address_entry [of e i "by_name is"] fresh ih unfolding more by fastforce
    qed
    moreover have "en_name ` set (by_name (is @ [i])) = insert (ia_name i) (en_name ` set (by_name is))"
      using arg_cong [OF names, of set] by auto
    moreover have "ia_name ` {j \<in> set (is @ [i]). \<not> ia_loopback j} =
        insert (ia_name i) (ia_name ` {j \<in> set is. \<not> ia_loopback j})"
      using False by auto
    moreover have "distinct (map en_name (by_name (is @ [i])))"
      unfolding names using snoc by simp
    ultimately show ?thesis using snoc by simp
  qed
qed (simp add: by_name_def)

lemma in_v4_of: "(n, x) \<in> set (v4_of e) \<longleftrightarrow> n = en_name e \<and> V4 x \<in> set (en_addresses e)"
  by (force simp: v4_of_def List.map_filter_def split: ip_addr.splits)

text \<open>
  The filter judges an interface as a whole: an IPv4 address is used exactly when it belongs to an
  interface that is no loopback and whose addresses together pass the filter.
\<close>

theorem interface_filtered_as_a_whole:
  "\<exists>li. usable_interfaces show_ip f (Inr is) = Inr li \<and>
     (\<forall>n x. (n, x) \<in> set (li_v4 li) \<longleftrightarrow>
        V4 x \<in> set (addresses_named n is) \<and> \<not> is_ignored show_ip f (addresses_named n is))"
proof -
  let ?used = "filter (\<lambda>e. \<not> is_ignored show_ip f (en_addresses e)) (by_name is)"
  have "(n, x) \<in> set (concat (map v4_of ?used)) \<longleftrightarrow>
      V4 x \<in> set (addresses_named n is) \<and> \<not> is_ignored show_ip f (addresses_named n is)" for n x
  proof
    assume "(n, x) \<in> set (concat (map v4_of ?used))"
    then show "V4 x \<in> set (addresses_named n is) \<and> \<not> is_ignored show_ip f (addresses_named n is)"
      using by_name_entries [of "is"] by (auto simp: in_v4_of)
  next
    assume r: "V4 x \<in> set (addresses_named n is) \<and> \<not> is_ignored show_ip f (addresses_named n is)"
    then have "n \<in> ia_name ` {i \<in> set is. \<not> ia_loopback i}" by (auto simp: addresses_named_def)
    then have "n \<in> en_name ` set (by_name is)" using by_name_entries [of "is"] by metis
    then obtain e where "e \<in> set (by_name is)" "en_name e = n" by blast
    then show "(n, x) \<in> set (concat (map v4_of ?used))"
      using r by_name_entries [of "is"] by (auto simp: in_v4_of intro!: bexI [of _ e])
  qed
  then show ?thesis by (auto simp: usable_interfaces_def Let_def)
qed

end
