(* ===== verification/Scoped_Host.thy ===== *)
theory Scoped_Host
  imports Http_Routes Signaling
begin

text \<open>
  Dialing scoped IPv6 addresses (\<open>http/client/scoped_host.rs\<close>, the resolver in \<open>http/client/mod.rs\<close>): a
  host \<open>fe80::1%3\<close> becomes a synthetic name that a URL can carry, and the resolver of the client turns it
  back into the address. Parsing and printing IPv6 addresses belongs to the standard library and is an
  argument (\<open>ipv6_text\<close>), with its round trip and alphabet as hypotheses.
\<close>

section \<open>Encoding and decoding\<close>

record ipv6_text =
  parse6 :: "string \<Rightarrow> 128 word option"
  show6 :: "128 word \<Rightarrow> string"

definition ipv6_text_ok :: "ipv6_text \<Rightarrow> bool" where
  "ipv6_text_ok t \<longleftrightarrow> (\<forall>a. parse6 t (show6 t a) = Some a \<and> set (show6 t a) \<subseteq> set ''0123456789abcdef:.'')"

definition suffix_name :: string where
  "suffix_name = ''.scoped.linko.internal''"

fun split_once_at :: "char \<Rightarrow> string \<Rightarrow> (string \<times> string) option" where
  "split_once_at x [] = None"
| "split_once_at x (c # cs) = (if c = x then Some ([], cs) else map_option (\<lambda>(a, b). (c # a, b)) (split_once_at x cs))"

definition strip_suffix :: "string \<Rightarrow> string \<Rightarrow> string option" where
  "strip_suffix suf s =
     (if length suf \<le> length s \<and> drop (length s - length suf) s = suf
      then Some (take (length s - length suf) s) else None)"

definition replace_char :: "char \<Rightarrow> char \<Rightarrow> string \<Rightarrow> string" where
  "replace_char a b s = map (\<lambda>c. if c = a then b else c) s"

definition scoped_encode :: "ipv6_text \<Rightarrow> string \<Rightarrow> string option" where
  "scoped_encode t host_name =
     (case split_once_at CHR ''%'' host_name of
        None \<Rightarrow> None
      | Some (address, scope) \<Rightarrow>
          (case parse6 t address of
             None \<Rightarrow> None
           | Some a \<Rightarrow>
               (case parse_uint (2 ^ 32) scope of
                  None \<Rightarrow> None
                | Some n \<Rightarrow>
                    if CHR ''.'' \<in> set (show6 t a) then None
                    else Some (replace_char CHR '':'' CHR ''-'' (show6 t a) @ ''s'' @ show_radix 10 n @ suffix_name))))"

definition scoped_decode :: "ipv6_text \<Rightarrow> string \<Rightarrow> socket_addr option" where
  "scoped_decode t name =
     (case strip_suffix suffix_name name of
        None \<Rightarrow> None
      | Some encoded \<Rightarrow>
          (case split_once_at CHR ''s'' encoded of
             None \<Rightarrow> None
           | Some (address, scope) \<Rightarrow>
               (case parse6 t (replace_char CHR ''-'' CHR '':'' address) of
                  None \<Rightarrow> None
                | Some a \<Rightarrow>
                    (case parse_uint (2 ^ 32) scope of
                       None \<Rightarrow> None | Some n \<Rightarrow> Some (Socket_V6 a 0 0 (of_nat n))))))"

text \<open>The resolver of the client: \<open>lookup\<close> is that of the system.\<close>

definition resolve_name :: "ipv6_text \<Rightarrow> (string \<Rightarrow> string + socket_addr list) \<Rightarrow> string \<Rightarrow> string + socket_addr list" where
  "resolve_name t lookup name =
     (case scoped_decode t name of Some addr \<Rightarrow> Inr [addr] | None \<Rightarrow> lookup name)"

text \<open>The \<open>Display\<close> of a peer address; \<open>show4\<close> renders IPv4.\<close>

definition peer_text :: "ipv6_text \<Rightarrow> (u32 \<Rightarrow> string) \<Rightarrow> peer_ip \<Rightarrow> string" where
  "peer_text t show4 p =
     (let addr = (case ip p of V4 a \<Rightarrow> show4 a | V6 a \<Rightarrow> show6 t a)
      in case scope_id p of Some s \<Rightarrow> addr @ ''%'' @ show_radix 10 (unat s) | None \<Rightarrow> addr)"

section \<open>Facts\<close>

lemma split_once_at_append: "x \<notin> set a \<Longrightarrow> split_once_at x (a @ x # b) = Some (a, b)"
  by (induction a) auto

lemma split_once_at_Some: "split_once_at x s = Some (a, b) \<Longrightarrow> s = a @ x # b \<and> x \<notin> set a"
  by (induction s arbitrary: a) (auto split: if_splits)

lemma split_once_at_None: "split_once_at x s = None \<longleftrightarrow> x \<notin> set s"
  by (induction s) auto

lemma strip_suffix_append: "strip_suffix suf (s @ suf) = Some s"
  by (simp add: strip_suffix_def)

lemma strip_suffix_Some: "strip_suffix suf s = Some r \<Longrightarrow> s = r @ suf"
  by (auto simp: strip_suffix_def split: if_splits) (metis append_take_drop_id)

lemma replace_back: "b \<notin> set s \<Longrightarrow> replace_char b a (replace_char a b s) = s"
  by (induction s) (auto simp: replace_char_def)

lemma digit_values: "n < 10 \<Longrightarrow> digit_value (digit n) = Some n \<and> digit n \<noteq> CHR ''+''"
  by (subgoal_tac "n \<in> {0, 1, 2, 3, 4, 5, 6, 7, 8, 9}") (auto simp: digit_value_def digit_def)

lemma parse_digits_append:
  "parse_digits bound acc (s @ [c]) =
     (case parse_digits bound acc s of
        None \<Rightarrow> None
      | Some n \<Rightarrow> (case digit_value c of None \<Rightarrow> None | Some d \<Rightarrow> if n * 10 + d < bound then Some (n * 10 + d) else None))"
  by (induction bound acc s rule: parse_digits.induct) (auto split: option.split)

lemma parse_digits_show: "n < bound \<Longrightarrow> parse_digits bound 0 (show_radix 10 n) = Some n"
proof (induction "10 :: nat" n rule: show_radix.induct)
  case (1 n)
  show ?case
  proof (cases "n < 10")
    case True
    then show ?thesis using 1 digit_values by (simp add: show_radix.simps [of 10 n])
  next
    case False
    then have "parse_digits bound 0 (show_radix 10 (n div 10)) = Some (n div 10)" using 1 by simp
    then show ?thesis
      using 1(2) False digit_values [of "n mod 10"] by (simp add: show_radix.simps [of 10 n] parse_digits_append)
  qed
qed

lemma show_radix_first: "\<exists>c cs. show_radix 10 n = c # cs \<and> c \<noteq> CHR ''+''"
proof (induction "10 :: nat" n rule: show_radix.induct)
  case (1 n)
  show ?case
  proof (cases "n < 10")
    case True
    then show ?thesis using digit_values [of n] by (simp add: show_radix.simps [of 10 n])
  next
    case False
    then obtain c cs where "show_radix 10 (n div 10) = c # cs" "c \<noteq> CHR ''+''" using 1 by auto
    then show ?thesis using False by (simp add: show_radix.simps [of 10 n])
  qed
qed

lemma parse_uint_show: "n < bound \<Longrightarrow> parse_uint bound (show_radix 10 n) = Some n"
  using show_radix_first [of n] parse_digits_show [of n bound] by (auto simp: parse_uint_def)

lemma parse_uint_bound: "parse_uint bound s = Some n \<Longrightarrow> 0 < bound \<Longrightarrow> n < bound"
proof -
  have "parse_digits bound acc s = Some n \<Longrightarrow> acc < bound \<Longrightarrow> n < bound" for acc s
    by (induction bound acc s rule: parse_digits.induct) (auto split: option.splits if_splits)
  then show "parse_uint bound s = Some n \<Longrightarrow> 0 < bound \<Longrightarrow> n < bound"
    by (auto simp: parse_uint_def simp del: parse_digits.simps split: list.splits if_splits)
qed

lemma set_show_radix: "set (show_radix 10 n) \<subseteq> set ''0123456789''"
proof (induction "10 :: nat" n rule: show_radix.induct)
  case (1 n)
  have "digit m \<in> set ''0123456789''" if "m < 10" for m
    using that by (subgoal_tac "m \<in> {0, 1, 2, 3, 4, 5, 6, 7, 8, 9}") (auto simp: digit_def)
  then show ?case using 1 by (cases "n < 10") (auto simp: show_radix.simps [of 10 n])
qed

lemma decode_encoded:
  assumes "ipv6_text_ok t" "n < 2 ^ 32"
  shows "scoped_decode t (replace_char CHR '':'' CHR ''-'' (show6 t a) @ ''s'' @ show_radix 10 n @ suffix_name) =
    Some (Socket_V6 a 0 0 (of_nat n))"
proof -
  have chars: "set (show6 t a) \<subseteq> set ''0123456789abcdef:.''" and reads: "parse6 t (show6 t a) = Some a"
    using assms(1) by (auto simp: ipv6_text_ok_def)
  let ?e = "replace_char CHR '':'' CHR ''-'' (show6 t a)"
  have "CHR ''s'' \<notin> set ?e" using chars by (auto simp: replace_char_def)
  then have "split_once_at CHR ''s'' (?e @ ''s'' @ show_radix 10 n) = Some (?e, show_radix 10 n)"
    using split_once_at_append [of "CHR ''s''" ?e "show_radix 10 n"] by simp
  moreover have "replace_char CHR ''-'' CHR '':'' ?e = show6 t a"
    using chars by (intro replace_back) auto
  moreover have "strip_suffix suffix_name (?e @ ''s'' @ show_radix 10 n @ suffix_name) = Some (?e @ ''s'' @ show_radix 10 n)"
    using strip_suffix_append [of suffix_name "?e @ ''s'' @ show_radix 10 n"] by simp
  ultimately show ?thesis
    using parse_uint_show [OF assms(2)] reads by (simp add: scoped_decode_def)
qed

section \<open>Properties\<close>

text \<open>
  C33. A link-local peer is dialed back where it came from: its rendered address becomes a name without a
  colon, a percent sign or a bracket, and this name resolves to exactly its address and scope without
  asking the system.
\<close>

theorem scoped_peer_dialed_back:
  assumes "ipv6_text_ok t" and "CHR ''.'' \<notin> set (show6 t a)"
  shows "\<exists>name. scoped_encode t (peer_text t show4 \<lparr>ip = V6 a, scope_id = Some s\<rparr>) = Some name \<and>
     url_host (scoped_encode t) (peer_text t show4 \<lparr>ip = V6 a, scope_id = Some s\<rparr>) = name \<and>
     resolve_name t lookup name = Inr [Socket_V6 a 0 0 s] \<and> set name \<inter> set '':%[]'' = {}"
proof -
  let ?host = "peer_text t show4 \<lparr>ip = V6 a, scope_id = Some s\<rparr>"
  have chars: "set (show6 t a) \<subseteq> set ''0123456789abcdef:.''" and reads: "parse6 t (show6 t a) = Some a"
    using assms(1) by (auto simp: ipv6_text_ok_def)
  have small: "unat s < 2 ^ 32" using unsigned_less [of s] by simp
  let ?name = "replace_char CHR '':'' CHR ''-'' (show6 t a) @ ''s'' @ show_radix 10 (unat s) @ suffix_name"
  have "CHR ''%'' \<notin> set (show6 t a)" using chars by auto
  then have "split_once_at CHR ''%'' ?host = Some (show6 t a, show_radix 10 (unat s))"
    by (simp add: peer_text_def split_once_at_append)
  then have enc: "scoped_encode t ?host = Some ?name"
    using reads parse_uint_show [OF small] assms(2) by (simp add: scoped_encode_def)
  have "scoped_decode t ?name = Some (Socket_V6 a 0 0 s)" using decode_encoded [OF assms(1) small] by simp
  moreover have "set (show_radix 10 (unat s)) \<inter> set '':%[]'' = {}"
    using set_show_radix [of "unat s"] by auto
  ultimately show ?thesis using enc chars
    by (auto simp: resolve_name_def url_host_def replace_char_def suffix_name_def)
qed

text \<open>Addresses written as numbers.\<close>

definition address_bound :: nat where
  "address_bound = 2 ^ LENGTH(128)"

definition number_text :: ipv6_text where
  "number_text = \<lparr>parse6 = (\<lambda>s. map_option of_nat (parse_uint address_bound s)), show6 = (\<lambda>a. show_radix 10 (unat a))\<rparr>"

lemma number_text_ok: "ipv6_text_ok number_text"
  unfolding ipv6_text_ok_def
proof (intro allI conjI)
  fix a :: "128 word"
  have "unat a < address_bound" unfolding address_bound_def by (rule unsigned_less)
  then have "parse_uint address_bound (show_radix 10 (unat a)) = Some (unat a)" by (rule parse_uint_show)
  then show "parse6 number_text (show6 number_text a) = Some a" by (simp add: number_text_def)
  show "set (show6 number_text a) \<subseteq> set ''0123456789abcdef:.''"
  proof (rule subset_trans)
    show "set (show6 number_text a) \<subseteq> set ''0123456789''"
      using set_show_radix [of "unat a"] by (simp only: number_text_def ipv6_text.select_convs)
    show "set ''0123456789'' \<subseteq> set ''0123456789abcdef:.''" by code_simp
  qed
qed

theorem scoped_peer_dialed_back_witness:
  "\<exists>name. scoped_encode number_text (peer_text number_text (\<lambda>_. []) \<lparr>ip = V6 1, scope_id = Some 3\<rparr>) = Some name \<and>
     resolve_name number_text (\<lambda>_. Inl ''not found'') name = Inr [Socket_V6 1 0 0 3]"
proof -
  have "CHR ''.'' \<notin> set (show6 number_text 1)"
    using set_show_radix [of "unat (1 :: 128 word)"] by (simp add: number_text_def) blast
  from scoped_peer_dialed_back [OF number_text_ok this, of "\<lambda>_. []" 3 "\<lambda>_. Inl ''not found''"]
  show ?thesis by blast
qed

end
