(* ===== verification/Multicast.thy ===== *)
theory Multicast
  imports Discovery_Store
begin

text \<open>
  Multicast discovery (\<open>multicast/mod.rs\<close>, and the task of \<open>discovery/mod.rs\<close> that answers announcements):
  what a device sends to the group, the loop that reads a socket, the task that supervises the loops, and
  how what they hear reaches the store. The sockets of the system and JSON are arguments; what a socket
  yields is a list.
\<close>

section \<open>Announcements\<close>

record multicast_message =
  mm_alias :: string
  mm_version :: string
  mm_device_model :: "string option"
  mm_device_type :: "device_type option"
  mm_fingerprint :: string
  mm_port :: u16
  mm_protocol :: protocol_type
  mm_download :: bool

record multicast_device =
  md_alias :: string
  md_version :: string
  md_device_model :: "string option"
  md_device_type :: "device_type option"
  md_fingerprint :: string
  md_port :: u16
  md_protocol :: protocol_type
  md_download :: bool

definition to_message :: "multicast_device \<Rightarrow> multicast_message" where
  "to_message d =
     \<lparr>mm_alias = md_alias d, mm_version = md_version d, mm_device_model = md_device_model d,
      mm_device_type = md_device_type d, mm_fingerprint = md_fingerprint d, mm_port = md_port d,
      mm_protocol = md_protocol d, mm_download = md_download d\<rparr>"

datatype multicast_event =
    M_Discovered peer_ip multicast_message
  | M_Sockets_Failed

text \<open>The delays before the messages of a burst, in milliseconds.\<close>

definition ANNOUNCE_DELAYS :: "nat list" where
  "ANNOUNCE_DELAYS = [100, 500, 2000]"

definition RECEIVE_BUFFER_SIZE :: nat where
  "RECEIVE_BUFFER_SIZE = 65536"

definition MAX_CONSECUTIVE_RECEIVE_ERRORS :: nat where
  "MAX_CONSECUTIVE_RECEIVE_ERRORS = 10"

text \<open>
  One announcement: the payload on every socket that is still there, whether or not another one fails;
  nothing when it cannot be encoded. \<open>targets\<close> are the addresses of the sockets.
\<close>

definition send_announcement ::
  "(multicast_message \<Rightarrow> bytes option) \<Rightarrow> multicast_device \<Rightarrow> socket_addr list \<Rightarrow> (socket_addr \<times> bytes) list" where
  "send_announcement to_json d targets =
     (case to_json (to_message d) of None \<Rightarrow> [] | Some payload \<Rightarrow> map (\<lambda>t. (t, payload)) targets)"

text \<open>
  A burst: \<open>targets n\<close> are the sockets at the \<open>n\<close>-th message; it ends early when discovery is stopped
  \<open>cancelled_at\<close> milliseconds after it began.
\<close>

fun announce_burst ::
  "(multicast_message \<Rightarrow> bytes option) \<Rightarrow> multicast_device \<Rightarrow> (nat \<Rightarrow> socket_addr list) \<Rightarrow> nat option \<Rightarrow>
   nat \<Rightarrow> nat \<Rightarrow> nat list \<Rightarrow> (socket_addr \<times> bytes) list" where
  "announce_burst to_json d targets cancelled_at now n [] = []"
| "announce_burst to_json d targets cancelled_at now n (delay # delays) =
     (if (case cancelled_at of Some t \<Rightarrow> t \<le> now + delay | None \<Rightarrow> False) then []
      else send_announcement to_json d (targets n) @
             announce_burst to_json d targets cancelled_at (now + delay) (Suc n) delays)"

definition announce ::
  "(multicast_message \<Rightarrow> bytes option) \<Rightarrow> multicast_device \<Rightarrow> (nat \<Rightarrow> socket_addr list) \<Rightarrow> nat option \<Rightarrow>
   (socket_addr \<times> bytes) list" where
  "announce to_json d targets cancelled_at = announce_burst to_json d targets cancelled_at 0 0 ANNOUNCE_DELAYS"

section \<open>Reading a socket\<close>

text \<open>What \<open>recv_from\<close> yields: an error, or a datagram with its source.\<close>

datatype received_datagram = Recv_Error | Datagram bytes socket_addr

datatype loop_state = Receiving nat | Gave_Up | Receiver_Gone

text \<open>
  The loop over what the socket yields; \<open>alive\<close> with each: whether the application still takes events.
  \<open>errors\<close> are the consecutive ones so far.
\<close>

fun receive_loop ::
  "(bytes \<Rightarrow> multicast_message option) \<Rightarrow> string \<Rightarrow> nat \<Rightarrow> (received_datagram \<times> bool) list \<Rightarrow>
   multicast_event list \<times> loop_state" where
  "receive_loop parse own errors [] = ([], Receiving errors)"
| "receive_loop parse own errors ((Recv_Error, alive) # rs) =
     (if MAX_CONSECUTIVE_RECEIVE_ERRORS \<le> errors + 1 then ([], Gave_Up)
      else receive_loop parse own (errors + 1) rs)"
| "receive_loop parse own errors ((Datagram payload addr, alive) # rs) =
     (case parse (take RECEIVE_BUFFER_SIZE payload) of
        None \<Rightarrow> receive_loop parse own 0 rs
      | Some m \<Rightarrow>
          if mm_fingerprint m = own then receive_loop parse own 0 rs
          else if \<not> alive then ([], Receiver_Gone)
          else (case receive_loop parse own 0 rs of
                  (evs, st) \<Rightarrow> (M_Discovered (from_remote_addr addr) m # evs, st)))"

section \<open>Supervision\<close>

text \<open>
  The task that supervises the loops: \<open>stopped\<close> when the stop was requested before all loops gave up. It
  tells the application without waiting, so the notice is lost when the channel is full; the sockets are
  closed in any case.
\<close>

record multicast_state =
  mu_sockets :: "socket_addr list"
  mu_queue :: "multicast_event list"
  mu_cancelled :: bool

definition offer :: "nat \<Rightarrow> 'e \<Rightarrow> 'e list \<Rightarrow> 'e list" where
  "offer capacity e q = (if length q < capacity then q @ [e] else q)"

definition supervise :: "nat \<Rightarrow> bool \<Rightarrow> multicast_state \<Rightarrow> multicast_state" where
  "supervise capacity stopped st =
     st\<lparr>mu_queue := (if stopped then mu_queue st else offer capacity M_Sockets_Failed (mu_queue st)),
        mu_cancelled := True, mu_sockets := []\<rparr>"

text \<open>\<open>start\<close> fails when no interface could be used.\<close>

definition start_multicast :: "string + socket_addr list \<Rightarrow> string + multicast_state" where
  "start_multicast bound =
     (case bound of
        Inl e \<Rightarrow> Inl e
      | Inr [] \<Rightarrow> Inl ''No network interface available for multicast''
      | Inr targets \<Rightarrow> Inr \<lparr>mu_sockets = targets, mu_queue = [], mu_cancelled = False\<rparr>)"

section \<open>Answering what was heard\<close>

text \<open>
  The task of discovery: an announcement is answered (with \<open>pinned_net\<close>, at the time \<open>now\<close>) unless answers
  are turned off, and the failure of the sockets is passed on. The list is what the application is told.
\<close>

fun on_multicast ::
  "(peer_ip \<Rightarrow> string) \<Rightarrow> (string option \<Rightarrow> network) \<Rightarrow> multicast_event \<Rightarrow> nat \<Rightarrow> discovery_state \<Rightarrow>
   discovery_state \<times> discovery_event list" where
  "on_multicast show_ip pinned_net (M_Discovered addr m) now st =
     (answer_announcement pinned_net st (show_ip addr) (mm_port m) (mm_protocol m) (mm_fingerprint m) now, [])"
| "on_multicast show_ip pinned_net M_Sockets_Failed now st = (st, [MulticastFailed])"

fun on_multicast_all ::
  "(peer_ip \<Rightarrow> string) \<Rightarrow> (string option \<Rightarrow> network) \<Rightarrow> (multicast_event \<times> nat) list \<Rightarrow> discovery_state \<Rightarrow>
   discovery_state" where
  "on_multicast_all show_ip pinned_net [] st = st"
| "on_multicast_all show_ip pinned_net ((ev, now) # evs) st =
     on_multicast_all show_ip pinned_net evs (fst (on_multicast show_ip pinned_net ev now st))"

section \<open>What is heard\<close>

text \<open>The datagrams before the first ten errors in a row, without a counter.\<close>

fun before_failure :: "received_datagram list \<Rightarrow> received_datagram list" where
  "before_failure [] = []"
| "before_failure (r # rs) =
     (if take 10 (r # rs) = replicate 10 Recv_Error then [] else r # before_failure rs)"

definition fails :: "received_datagram list \<Rightarrow> bool" where
  "fails rs \<longleftrightarrow> (\<exists>xs ys. rs = xs @ replicate 10 Recv_Error @ ys)"

text \<open>The event of a datagram: of another device, well formed.\<close>

fun heard :: "(bytes \<Rightarrow> multicast_message option) \<Rightarrow> string \<Rightarrow> received_datagram \<Rightarrow> multicast_event option" where
  "heard parse own Recv_Error = None"
| "heard parse own (Datagram payload addr) =
     (case parse (take RECEIVE_BUFFER_SIZE payload) of
        None \<Rightarrow> None
      | Some m \<Rightarrow> if mm_fingerprint m = own then None else Some (M_Discovered (from_remote_addr addr) m))"

lemma fails_iff: "fails rs \<longleftrightarrow> (\<exists>k. take 10 (drop k rs) = replicate 10 Recv_Error)"
proof
  assume "fails rs"
  then obtain xs ys where "rs = xs @ replicate 10 Recv_Error @ ys" by (auto simp: fails_def)
  then have "take 10 (drop (length xs) rs) = replicate 10 Recv_Error" by simp
  then show "\<exists>k. take 10 (drop k rs) = replicate 10 Recv_Error" ..
next
  assume "\<exists>k. take 10 (drop k rs) = replicate 10 Recv_Error"
  then obtain k where k: "take 10 (drop k rs) = replicate 10 Recv_Error" ..
  have "rs = take k rs @ take 10 (drop k rs) @ drop 10 (drop k rs)" by (simp only: append_take_drop_id)
  then show "fails rs" unfolding k fails_def by blast
qed

lemma datagram_in_window:
  assumes "n < 10" "k \<le> n"
  shows "take 10 (drop k (replicate n Recv_Error @ Datagram p a # rs)) \<noteq> replicate 10 Recv_Error"
proof
  assume eq: "take 10 (drop k (replicate n Recv_Error @ Datagram p a # rs)) = replicate 10 Recv_Error"
  have "take 10 (drop k (replicate n Recv_Error @ Datagram p a # rs)) ! (n - k) = Datagram p a"
    using assms by (simp add: nth_append)
  moreover have "replicate 10 Recv_Error ! (n - k) = Recv_Error" using assms by simp
  ultimately show False using eq by simp
qed

lemma fails_skip: "n < 10 \<Longrightarrow> fails (replicate n Recv_Error @ Datagram p a # rs) \<longleftrightarrow> fails rs"
proof
  let ?l = "replicate n Recv_Error @ Datagram p a # rs"
  assume n: "n < 10" and "fails ?l"
  then obtain k where k: "take 10 (drop k ?l) = replicate 10 Recv_Error" by (auto simp: fails_iff)
  then have "n < k" using datagram_in_window [OF n] by (meson not_le)
  then have "drop k ?l = drop (k - Suc n) rs" by (simp add: drop_Cons')
  then show "fails rs" using k by (auto simp: fails_iff)
next
  assume "fails rs"
  then obtain xs ys where "rs = xs @ replicate 10 Recv_Error @ ys" by (auto simp: fails_def)
  then have "replicate n Recv_Error @ Datagram p a # rs =
      (replicate n Recv_Error @ Datagram p a # xs) @ replicate 10 Recv_Error @ ys" by simp
  then show "fails (replicate n Recv_Error @ Datagram p a # rs)" unfolding fails_def by blast
qed

lemma before_skip:
  "n < 10 \<Longrightarrow> before_failure (replicate n Recv_Error @ Datagram p a # rs) =
     replicate n Recv_Error @ Datagram p a # before_failure rs"
proof (induction n)
  case 0
  then show ?case using datagram_in_window [of 0 0 p a rs] by simp
next
  case (Suc n)
  then show ?case using datagram_in_window [of "Suc n" 0 p a rs] by simp
qed

lemma before_errors: "n < 10 \<Longrightarrow> before_failure (replicate n Recv_Error) = replicate n Recv_Error"
proof (induction n)
  case (Suc n)
  have "take 10 (replicate (Suc n) Recv_Error) = replicate (Suc n) Recv_Error" using Suc.prems by simp
  moreover have "length (replicate (Suc n) Recv_Error) \<noteq> length (replicate 10 Recv_Error)"
    using Suc.prems unfolding length_replicate by simp
  ultimately have "take 10 (Recv_Error # replicate n Recv_Error) \<noteq> replicate 10 Recv_Error"
    by (metis replicate_Suc)
  then show ?case using Suc by simp
qed simp

lemma before_ten: "before_failure (replicate 10 Recv_Error @ rs) = []"
proof -
  have "replicate 10 Recv_Error @ rs = Recv_Error # replicate 9 Recv_Error @ rs"
    by (simp add: numeral_eq_Suc)
  moreover have "take 10 (replicate 10 Recv_Error @ rs) = replicate 10 Recv_Error" by simp
  ultimately show ?thesis by (metis before_failure.simps(2))
qed

lemma heard_errors [simp]: "List.map_filter (heard parse own) (replicate n Recv_Error) = []"
  by (induction n) (simp_all add: List.map_filter_def)

lemma map_filter_simps:
  "List.map_filter f (xs @ ys) = List.map_filter f xs @ List.map_filter f ys"
  "List.map_filter f (x # xs) = (case f x of None \<Rightarrow> [] | Some y \<Rightarrow> [y]) @ List.map_filter f xs"
  by (auto simp: List.map_filter_def split: option.split)

lemma receive_loop_reference:
  "n < 10 \<Longrightarrow>
   fst (receive_loop parse own n (map (\<lambda>r. (r, True)) rs)) =
     List.map_filter (heard parse own) (before_failure (replicate n Recv_Error @ rs)) \<and>
   (snd (receive_loop parse own n (map (\<lambda>r. (r, True)) rs)) = Gave_Up \<longleftrightarrow> fails (replicate n Recv_Error @ rs))"
proof (induction rs arbitrary: n)
  case Nil
  have "\<not> fails (replicate n Recv_Error)"
  proof
    assume "fails (replicate n Recv_Error)"
    then obtain xs ys where "replicate n Recv_Error = xs @ replicate 10 Recv_Error @ ys" by (auto simp: fails_def)
    from arg_cong [OF this, of length] Nil show False by simp
  qed
  then show ?case using before_errors [OF Nil] by simp
next
  case (Cons r rs)
  show ?case
  proof (cases r)
    case Recv_Error
    have shift: "replicate n Recv_Error @ Recv_Error # rs = replicate (Suc n) Recv_Error @ rs"
      by (metis append.assoc append_Cons append_Nil replicate_Suc replicate_append_same)
    show ?thesis
    proof (cases "n = 9")
      case True
      then have "fails (replicate 10 Recv_Error @ rs)" unfolding fails_def by (metis append_Nil)
      moreover have "replicate n Recv_Error @ r # rs = replicate 10 Recv_Error @ rs"
        by (simp add: Recv_Error True numeral_eq_Suc)
      ultimately show ?thesis
        using True Recv_Error before_ten [of rs]
        by (simp only:) (simp add: MAX_CONSECUTIVE_RECEIVE_ERRORS_def List.map_filter_def)
    next
      case False
      then have "Suc n < 10" using Cons.prems by simp
      then show ?thesis
        using Cons.IH [of "Suc n"] Recv_Error unfolding shift
        by (simp add: MAX_CONSECUTIVE_RECEIVE_ERRORS_def shift)
    qed
  next
    case (Datagram p a)
    then show ?thesis
      using Cons.IH [of 0] before_skip [OF Cons.prems, of p a rs] fails_skip [OF Cons.prems, of p a rs]
      by (auto simp: map_filter_simps split: option.split prod.split)
  qed
qed

section \<open>Properties\<close>

text \<open>
  C31. While the application listens, a socket tells it of exactly the well-formed announcements of other
  devices, in their order, up to the first ten receive errors in a row; a device never hears itself, and
  the socket is given up exactly when there are ten errors in a row, however many there are in total.
\<close>

theorem socket_hears_exactly_others:
  "fst (receive_loop parse own 0 (map (\<lambda>r. (r, True)) rs)) = List.map_filter (heard parse own) (before_failure rs) \<and>
   (snd (receive_loop parse own 0 (map (\<lambda>r. (r, True)) rs)) = Gave_Up) = fails rs"
  using receive_loop_reference [of 0 parse own rs] by simp

text \<open>An announcement that was answered: the device took the register request, under the pinned fingerprint.\<close>

definition answered :: "(peer_ip \<Rightarrow> string) \<Rightarrow> (string option \<Rightarrow> network) \<Rightarrow> multicast_event list \<Rightarrow> string \<Rightarrow> bool" where
  "answered show_ip pinned_net evs fp \<longleftrightarrow>
     (\<exists>addr m. M_Discovered addr m \<in> set evs \<and> mm_fingerprint m = fp \<and>
        is_ok (pinned_net (case mm_protocol m of Https \<Rightarrow> Some fp | Http \<Rightarrow> None) (show_ip addr) (mm_port m) (mm_protocol m)))"

lemma answer_store:
  "dom (by_fingerprint (ds_store (fst (on_multicast show_ip pinned_net ev now st)))) \<subseteq>
   dom (by_fingerprint (ds_store st)) \<union> {fp. answered show_ip pinned_net [ev] fp}"
proof (cases ev)
  case (M_Discovered addr m)
  let ?fp = "mm_fingerprint m" and ?prot = "mm_protocol m"
  let ?net = "pinned_net (case ?prot of Https \<Rightarrow> Some ?fp | Http \<Rightarrow> None) (show_ip addr) (mm_port m) ?prot"
  show ?thesis
  proof (cases "\<not> answering st \<or> (\<exists>e. ?net = Inl e)")
    case True
    then have "ds_store (fst (on_multicast show_ip pinned_net ev now st)) = ds_store st"
      by (auto simp: M_Discovered answer_announcement_def)
    then show ?thesis by auto
  next
    case False
    then obtain r where r: "?net = Inr r" by (cases ?net) auto
    let ?dev = "confirmed_device (body r) (show_ip addr) (mm_port m) ?prot ?fp"
    have "ds_store (fst (on_multicast show_ip pinned_net ev now st)) = upsert_into (ds_store st) (?dev, now)"
      using False r by (simp add: M_Discovered answer_announcement_def found_def upsert_into_def split: prod.split)
    moreover have "d_fingerprint ?dev = ?fp" by (simp add: confirmed_device_def)
    moreover have "answered show_ip pinned_net [ev] ?fp"
      using r by (simp add: answered_def M_Discovered)
    ultimately show ?thesis
      using device_store.dom_ups [of "ds_store st" "(?dev, now)"] by (simp del: domIff)
  qed
qed auto

lemma own_kept:
  "own_fingerprint (fst (on_multicast show_ip pinned_net ev now st)) = own_fingerprint st"
  by (cases ev) (auto simp: answer_announcement_def found_def split: sum.split prod.split)

lemma answers_store:
  "dom (by_fingerprint (ds_store (on_multicast_all show_ip pinned_net evs st))) \<subseteq>
   dom (by_fingerprint (ds_store st)) \<union> {fp. answered show_ip pinned_net (map fst evs) fp}"
proof (induction evs arbitrary: st)
  case (Cons x evs)
  obtain ev now where x: "x = (ev, now)" by (cases x)
  let ?st = "fst (on_multicast show_ip pinned_net ev now st)"
  have "{fp. answered show_ip pinned_net [ev] fp} \<union> {fp. answered show_ip pinned_net (map fst evs) fp} \<subseteq>
      {fp. answered show_ip pinned_net (map fst (x # evs)) fp}"
    by (auto simp: answered_def x)
  then show ?case
    using Cons.IH [of ?st] answer_store [of show_ip pinned_net ev now st] by (simp add: x del: domIff) blast
qed simp

lemma receive_loop_foreign:
  "M_Discovered addr m \<in> set (fst (receive_loop parse own n rs)) \<Longrightarrow> mm_fingerprint m \<noteq> own"
  by (induction parse own n rs rule: receive_loop.induct) (auto split: if_splits option.splits prod.splits)

text \<open>
  C32. What is heard over multicast brings into the store only devices that took a register request, under
  HTTPS one pinned to the announced fingerprint, and never this device itself.
\<close>

theorem announcements_bring_answering_devices:
  "dom (by_fingerprint (ds_store (on_multicast_all show_ip pinned_net
      (zip (fst (receive_loop parse (own_fingerprint st) n rs)) nows) st))) \<subseteq>
   dom (by_fingerprint (ds_store st)) \<union>
     ({fp. answered show_ip pinned_net (fst (receive_loop parse (own_fingerprint st) n rs)) fp} - {own_fingerprint st})"
proof -
  let ?evs = "fst (receive_loop parse (own_fingerprint st) n rs)"
  have "answered show_ip pinned_net ?evs fp \<and> fp \<noteq> own_fingerprint st"
    if a: "answered show_ip pinned_net (map fst (zip ?evs nows)) fp" for fp
  proof -
    obtain addr m where m: "M_Discovered addr m \<in> set (map fst (zip ?evs nows))" "mm_fingerprint m = fp"
      "is_ok (pinned_net (case mm_protocol m of Https \<Rightarrow> Some fp | Http \<Rightarrow> None) (show_ip addr) (mm_port m) (mm_protocol m))"
      using a by (auto simp: answered_def)
    then have "M_Discovered addr m \<in> set ?evs" by (auto dest: set_zip_leftD)
    then show ?thesis using m(2,3) receive_loop_foreign [of addr m] by (auto simp: answered_def)
  qed
  then show ?thesis
    using answers_store [of show_ip pinned_net "zip ?evs nows" st] by (auto simp del: domIff)
qed

end
