(* ===== verification/Cli_Picker.thy ===== *)
theory Cli_Picker
  imports Cli_App
begin

text \<open>
  The file picker of the command line application (\<open>picker.rs\<close>): typing filters the listing, the arrows
  move the highlight among what is shown, Space toggles files and Enter confirms. The explorer that lists
  directories is a library: its listing is data, how it navigates is an argument, and so is what the file
  system says of sizes. The rows are drawn with the column widths of \<open>unicode_width\<close>, also arguments.
\<close>

section \<open>State\<close>

text \<open>\<open>explorer\<close> is what the picker reads of \<open>FileExplorer\<close>.\<close>

record explorer_file =
  xf_name :: rstring
  xf_path :: rstring
  xf_is_dir :: bool

record explorer =
  ex_cwd :: rstring
  ex_files :: "explorer_file list"
  ex_selected :: nat

record picker_env =
  explorer_handle :: "key_event \<Rightarrow> explorer \<Rightarrow> explorer"
  has_parent :: "rstring \<Rightarrow> bool"
  metadata_len :: "rstring \<Rightarrow> u64 option"
  lowercase :: "rstring \<Rightarrow> rstring"

record picker =
  pk_explorer :: explorer
  pk_selected :: "(rstring \<times> u64) list"
  pk_query :: rstring
  pk_matches :: "nat list"
  pk_sizes :: "u64 option list"
  pk_highlight :: "nat option"

definition SCROLL_COUNT :: nat where
  "SCROLL_COUNT = 12"

section \<open>Operations\<close>

text \<open>\<open>Iterator::position\<close>.\<close>

fun position :: "('a \<Rightarrow> bool) \<Rightarrow> 'a list \<Rightarrow> nat option" where
  "position P [] = None"
| "position P (x # xs) = (if P x then Some 0 else map_option Suc (position P xs))"

definition nth_opt :: "'a list \<Rightarrow> nat \<Rightarrow> 'a option" where
  "nth_opt xs i = (if i < length xs then Some (xs ! i) else None)"

definition picker_cursor :: "picker \<Rightarrow> nat option" where
  "picker_cursor p = position (\<lambda>i. i = ex_selected (pk_explorer p)) (pk_matches p)"

text \<open>\<open>FileExplorer::current\<close> is only asked for while the highlighted entry is shown.\<close>

definition picker_current :: "picker \<Rightarrow> explorer_file option" where
  "picker_current p =
     (case picker_cursor p of
        None \<Rightarrow> None
      | Some _ \<Rightarrow> Some (ex_files (pk_explorer p) ! ex_selected (pk_explorer p)))"

definition current_size :: "picker \<Rightarrow> u64 option" where
  "current_size p = Option.bind (nth_opt (pk_sizes p) (ex_selected (pk_explorer p))) (\<lambda>x. x)"

definition select_match :: "nat \<Rightarrow> picker \<Rightarrow> picker" where
  "select_match c p =
     (case nth_opt (pk_matches p) c of
        Some i \<Rightarrow> p\<lparr>pk_explorer := (pk_explorer p)\<lparr>ex_selected := i\<rparr>, pk_highlight := Some c\<rparr>
      | None \<Rightarrow> p\<lparr>pk_highlight := None\<rparr>)"

definition matching :: "picker_env \<Rightarrow> rstring \<Rightarrow> explorer_file list \<Rightarrow> nat list" where
  "matching env query files = filter (\<lambda>i. matches_query (lowercase env) query (xf_name (files ! i))) [0..<length files]"

definition refresh_matches :: "picker_env \<Rightarrow> picker \<Rightarrow> picker" where
  "refresh_matches env p =
     (let p = p\<lparr>pk_matches := matching env (pk_query p) (ex_files (pk_explorer p))\<rparr>
      in select_match (case picker_cursor p of Some c \<Rightarrow> c | None \<Rightarrow> 0) p)"

definition refresh_sizes :: "picker_env \<Rightarrow> picker \<Rightarrow> picker" where
  "refresh_sizes env p =
     p\<lparr>pk_sizes := map (\<lambda>f. if xf_is_dir f then None else metadata_len env (xf_path f))
                     (ex_files (pk_explorer p))\<rparr>"

definition select_first_entry :: "picker_env \<Rightarrow> picker \<Rightarrow> picker" where
  "select_first_entry env p =
     select_match (if has_parent env (ex_cwd (pk_explorer p)) \<and> 1 < length (pk_matches p) then 1 else 0) p"

definition move_picker_cursor :: "int \<Rightarrow> bool \<Rightarrow> picker \<Rightarrow> picker" where
  "move_picker_cursor delta wrap p =
     (if pk_matches p = [] then p
      else let len = int (length (pk_matches p));
               c = int (case picker_cursor p of Some c \<Rightarrow> c | None \<Rightarrow> 0) + delta;
               c = (if wrap then c mod len else max 0 (min (len - 1) c))
           in select_match (nat c) p)"

text \<open>When the directory stays the same the explorer has nothing to navigate into.\<close>

definition navigate :: "picker_env \<Rightarrow> key_event \<Rightarrow> picker \<Rightarrow> picker" where
  "navigate env key p =
     (let e = explorer_handle env key (pk_explorer p); q = p\<lparr>pk_explorer := e\<rparr>
      in if ex_cwd e = ex_cwd (pk_explorer p) then q
         else select_first_entry env (refresh_matches env (refresh_sizes env (q\<lparr>pk_query := []\<rparr>))))"

definition toggle_file :: "picker \<Rightarrow> picker" where
  "toggle_file p =
     (case picker_current p of
        None \<Rightarrow> p
      | Some f \<Rightarrow>
          if xf_is_dir f then p
          else case position (\<lambda>(path, _). path = xf_path f) (pk_selected p) of
                 Some i \<Rightarrow> p\<lparr>pk_selected := take i (pk_selected p) @ drop (Suc i) (pk_selected p)\<rparr>
               | None \<Rightarrow>
                   p\<lparr>pk_selected := pk_selected p @
                       [(xf_path f, case current_size p of Some n \<Rightarrow> n | None \<Rightarrow> 0)]\<rparr>)"

text \<open>\<open>take_selected\<close> leaves the selection empty.\<close>

definition take_selected :: "picker \<Rightarrow> rstring list \<times> picker" where
  "take_selected p = (map fst (pk_selected p), p\<lparr>pk_selected := []\<rparr>)"

definition confirm :: "picker_env \<Rightarrow> key_event \<Rightarrow> picker \<Rightarrow> picker_outcome \<times> picker" where
  "confirm env key p =
     (case picker_current p of
        Some f \<Rightarrow>
          if xf_is_dir f then (Picker_Open, navigate env key p)
          else (let (files, p) = take_selected p
                in (Picker_Picked (if files = [] then [xf_path f] else files), p))
      | None \<Rightarrow>
          (let (files, p) = take_selected p
           in (if files = [] then Picker_Open else Picker_Picked files, p)))"

definition handle_picker :: "picker_env \<Rightarrow> key_event \<Rightarrow> picker \<Rightarrow> picker_outcome \<times> picker" where
  "handle_picker env key p =
     (case key_code key of
        Key_Esc \<Rightarrow>
          if pk_query p = [] then (Picker_Cancelled, p)
          else (Picker_Open, refresh_matches env (p\<lparr>pk_query := []\<rparr>))
      | Key_Up \<Rightarrow> (Picker_Open, move_picker_cursor (- 1) True p)
      | Key_Down \<Rightarrow> (Picker_Open, move_picker_cursor 1 True p)
      | Key_Page_Up \<Rightarrow> (Picker_Open, move_picker_cursor (- int SCROLL_COUNT) False p)
      | Key_Page_Down \<Rightarrow> (Picker_Open, move_picker_cursor (int SCROLL_COUNT) False p)
      | Key_Home \<Rightarrow> (Picker_Open, select_match 0 p)
      | Key_End \<Rightarrow> (Picker_Open, select_match (length (pk_matches p) - 1) p)
      | Key_Left \<Rightarrow> (Picker_Open, navigate env key p)
      | Key_Right \<Rightarrow>
          (Picker_Open, case picker_current p of
                          Some f \<Rightarrow> if xf_is_dir f then navigate env key p else p
                        | None \<Rightarrow> p)
      | Key_Backspace \<Rightarrow>
          (Picker_Open, if pk_query p = [] then p
                        else refresh_matches env (p\<lparr>pk_query := butlast (pk_query p)\<rparr>))
      | Key_Enter \<Rightarrow> confirm env key p
      | Key_Char c \<Rightarrow>
          (Picker_Open, if c = 32 then toggle_file p
                        else if control key \<or> alt key then p
                        else refresh_matches env (p\<lparr>pk_query := pk_query p @ [c]\<rparr>))
      | Key_Other _ \<Rightarrow> (Picker_Open, p))"

definition show_picker :: "picker_env \<Rightarrow> explorer \<Rightarrow> picker" where
  "show_picker env e =
     select_first_entry env (refresh_matches env (refresh_sizes env
       \<lparr>pk_explorer = e, pk_selected = [], pk_query = [], pk_matches = [], pk_sizes = [], pk_highlight = None\<rparr>))"

text \<open>The keys of a session until one of them closes the picker.\<close>

fun run_picker :: "picker_env \<Rightarrow> key_event list \<Rightarrow> picker \<Rightarrow> picker_outcome \<times> picker" where
  "run_picker env [] p = (Picker_Open, p)"
| "run_picker env (k # ks) p =
     (case handle_picker env k p of
        (Picker_Open, q) \<Rightarrow> run_picker env ks q
      | closed \<Rightarrow> closed)"

section \<open>The picker stays well formed\<close>

lemma position_Some: "position P xs = Some i \<Longrightarrow> i < length xs \<and> P (xs ! i)"
  by (induction xs arbitrary: i) (auto split: if_splits)

lemma position_None: "position P xs = None \<longleftrightarrow> (\<forall>x \<in> set xs. \<not> P x)"
  by (induction xs) auto

lemma position_key: "position (\<lambda>(path, _). path = a) xs = None \<longleftrightarrow> a \<notin> fst ` set xs"
  by (force simp: position_None)

definition explorer_stable :: "picker_env \<Rightarrow> bool" where
  "explorer_stable env \<longleftrightarrow>
     (\<forall>key e. ex_cwd (explorer_handle env key e) = ex_cwd e \<longrightarrow> explorer_handle env key e = e)"

text \<open>The highlight is the place of the explorer's index among the matches, if anything matches.\<close>

definition highlight_ok :: "picker \<Rightarrow> bool" where
  "highlight_ok p \<longleftrightarrow>
     (if pk_matches p = [] then pk_highlight p = None
      else \<exists>c < length (pk_matches p).
             pk_highlight p = Some c \<and> ex_selected (pk_explorer p) = pk_matches p ! c)"

definition picker_ok :: "picker_env \<Rightarrow> picker \<Rightarrow> bool" where
  "picker_ok env p \<longleftrightarrow>
     pk_matches p = matching env (pk_query p) (ex_files (pk_explorer p)) \<and>
     length (pk_sizes p) = length (ex_files (pk_explorer p)) \<and>
     distinct (map fst (pk_selected p)) \<and> highlight_ok p"

lemma select_match_frame [simp]:
  "pk_matches (select_match c p) = pk_matches p"
  "pk_query (select_match c p) = pk_query p"
  "pk_sizes (select_match c p) = pk_sizes p"
  "pk_selected (select_match c p) = pk_selected p"
  "ex_files (pk_explorer (select_match c p)) = ex_files (pk_explorer p)"
  by (simp_all add: select_match_def split: option.split)

lemma select_match_highlight:
  "c < length (pk_matches p) \<or> pk_matches p = [] \<Longrightarrow> highlight_ok (select_match c p)"
  by (auto simp: highlight_ok_def select_match_def nth_opt_def)

lemma select_match_ok:
  "picker_ok env p \<Longrightarrow> c < length (pk_matches p) \<or> pk_matches p = [] \<Longrightarrow> picker_ok env (select_match c p)"
  by (simp add: picker_ok_def select_match_highlight)

lemma refresh_matches_ok:
  assumes "length (pk_sizes p) = length (ex_files (pk_explorer p))" "distinct (map fst (pk_selected p))"
  shows "picker_ok env (refresh_matches env p)"
proof -
  define q where "q = p\<lparr>pk_matches := matching env (pk_query p) (ex_files (pk_explorer p))\<rparr>"
  have "highlight_ok (select_match (case picker_cursor q of Some c \<Rightarrow> c | None \<Rightarrow> 0) q)"
    by (rule select_match_highlight) (auto simp: picker_cursor_def dest: position_Some split: option.split)
  then show ?thesis
    using assms by (simp add: refresh_matches_def Let_def picker_ok_def flip: q_def) (simp add: q_def)
qed

lemma select_first_ok: "picker_ok env p \<Longrightarrow> picker_ok env (select_first_entry env p)"
  unfolding select_first_entry_def by (rule select_match_ok) auto

lemma move_ok: "picker_ok env p \<Longrightarrow> picker_ok env (move_picker_cursor d wrap p)"
  unfolding move_picker_cursor_def Let_def
  by (auto intro!: select_match_ok simp: nat_less_iff)

lemma navigate_ok:
  assumes "explorer_stable env" "picker_ok env p"
  shows "picker_ok env (navigate env key p)"
proof (cases "ex_cwd (explorer_handle env key (pk_explorer p)) = ex_cwd (pk_explorer p)")
  case True
  then have "explorer_handle env key (pk_explorer p) = pk_explorer p"
    using assms(1) by (simp add: explorer_stable_def)
  moreover have "p\<lparr>pk_explorer := pk_explorer p\<rparr> = p" by (cases p) simp
  ultimately show ?thesis using assms(2) by (simp add: navigate_def)
next
  case False
  have "distinct (map fst (pk_selected p))" using assms(2) by (simp add: picker_ok_def)
  then show ?thesis
    using False by (auto intro!: select_first_ok refresh_matches_ok simp: navigate_def Let_def refresh_sizes_def)
qed

lemma highlight_selected [simp]: "highlight_ok (p\<lparr>pk_selected := sel\<rparr>) \<longleftrightarrow> highlight_ok p"
  by (simp add: highlight_ok_def)

lemma picker_ok_cong:
  "picker_ok env p \<Longrightarrow> distinct (map fst sel) \<Longrightarrow> picker_ok env (p\<lparr>pk_selected := sel\<rparr>)"
  by (simp add: picker_ok_def)

lemma toggle_ok:
  assumes "picker_ok env p"
  shows "picker_ok env (toggle_file p)"
proof -
  have d: "distinct (map fst (pk_selected p))" using assms by (simp add: picker_ok_def)
  have "distinct (map fst (take i (pk_selected p) @ drop (Suc i) (pk_selected p)))" for i
  proof -
    have "map fst (pk_selected p) = map fst (take i (pk_selected p)) @ map fst (drop i (pk_selected p))"
      by (simp flip: map_append)
    then have "distinct (map fst (take i (pk_selected p)) @ map fst (drop i (pk_selected p)))" using d by simp
    moreover have "set (map fst (drop (Suc i) (pk_selected p))) \<subseteq> set (map fst (drop i (pk_selected p)))"
      by (simp add: image_mono set_drop_subset_set_drop)
    moreover have "distinct (map fst (drop (Suc i) (pk_selected p)))" using d by (simp add: drop_map [symmetric])
    ultimately show ?thesis by auto
  qed
  then show ?thesis
    using assms d
    by (auto simp: toggle_file_def position_key intro!: picker_ok_cong split: option.split)
qed

lemma confirm_ok: "explorer_stable env \<Longrightarrow> picker_ok env p \<Longrightarrow> picker_ok env (snd (confirm env key p))"
  by (auto simp: confirm_def take_selected_def navigate_ok intro!: picker_ok_cong split: option.split)

lemma requery_ok: "picker_ok env p \<Longrightarrow> picker_ok env (refresh_matches env (p\<lparr>pk_query := q\<rparr>))"
  by (rule refresh_matches_ok) (simp_all add: picker_ok_def)

lemma handle_picker_ok:
  assumes "explorer_stable env" "picker_ok env p"
  shows "picker_ok env (snd (handle_picker env key p))"
proof -
  have "picker_ok env (select_match (length (pk_matches p) - 1) p)" "picker_ok env (select_match 0 p)"
    using assms(2) by (auto intro!: select_match_ok)
  then show ?thesis
    using assms confirm_ok [OF assms]
    by (auto simp: handle_picker_def requery_ok move_ok navigate_ok toggle_ok
             split: key_code.split option.split)
qed

lemma show_picker_ok: "picker_ok env (show_picker env e)"
  unfolding show_picker_def by (intro select_first_ok refresh_matches_ok) (simp_all add: refresh_sizes_def)

lemma run_picker_ok: "explorer_stable env \<Longrightarrow> picker_ok env p \<Longrightarrow> picker_ok env (snd (run_picker env ks p))"
proof (induction ks arbitrary: p)
  case (Cons k ks)
  then show ?case
    using handle_picker_ok [of env p k] by (auto split: prod.split picker_outcome.split)
qed simp


text \<open>The directory \<open>/d\<close> with the files \<open>a\<close> and \<open>b\<close>; Left leaves it.\<close>

definition files_sample :: "explorer_file list" where
  "files_sample =
     [\<lparr>xf_name = [46, 46, 47], xf_path = [47], xf_is_dir = True\<rparr>,
      \<lparr>xf_name = [97], xf_path = [47, 100, 47, 97], xf_is_dir = False\<rparr>,
      \<lparr>xf_name = [98], xf_path = [47, 100, 47, 98], xf_is_dir = False\<rparr>]"

definition dir_sample :: explorer where
  "dir_sample = \<lparr>ex_cwd = [47, 100], ex_files = files_sample, ex_selected = 0\<rparr>"

definition root_sample :: explorer where
  "root_sample = \<lparr>ex_cwd = [47], ex_files = [\<lparr>xf_name = [100], xf_path = [47, 100], xf_is_dir = True\<rparr>],
     ex_selected = 0\<rparr>"

definition picker_sample :: picker_env where
  "picker_sample =
     \<lparr>explorer_handle = (\<lambda>k e. if key_code k = Key_Left \<and> ex_cwd e \<noteq> [47] then root_sample else e),
      has_parent = (\<lambda>d. d \<noteq> [47]), metadata_len = (\<lambda>_. Some 5), lowercase = (\<lambda>s. s)\<rparr>"

definition press :: "key_code \<Rightarrow> key_event" where
  "press k = \<lparr>key_code = k, control = False, alt = False\<rparr>"

lemma sample_stable: "explorer_stable picker_sample"
  by (auto simp: explorer_stable_def picker_sample_def root_sample_def lit_def)

text \<open>The sample picker with the highlight on a row and some files picked.\<close>

definition sample_at :: "nat \<Rightarrow> (rstring \<times> u64) list \<Rightarrow> picker" where
  "sample_at i sel =
     \<lparr>pk_explorer = dir_sample\<lparr>ex_selected := i\<rparr>, pk_selected = sel, pk_query = [], pk_matches = [0, 1, 2],
      pk_sizes = [None, Some 5, Some 5], pk_highlight = Some i\<rparr>"

abbreviation path_a :: rstring where "path_a \<equiv> [47, 100, 47, 97]"
abbreviation path_b :: rstring where "path_b \<equiv> [47, 100, 47, 98]"

lemma sample_shown: "show_picker picker_sample dir_sample = sample_at 1 []"
  by code_simp

lemma sample_steps:
  "handle_picker picker_sample (press (Key_Char 32)) (sample_at 1 []) = (Picker_Open, sample_at 1 [(path_a, 5)])"
  "handle_picker picker_sample (press Key_Down) (sample_at 1 [(path_a, 5)]) = (Picker_Open, sample_at 2 [(path_a, 5)])"
  "handle_picker picker_sample (press (Key_Char 32)) (sample_at 2 [(path_a, 5)]) =
     (Picker_Open, sample_at 2 [(path_a, 5), (path_b, 5)])"
  "handle_picker picker_sample (press Key_Enter) (sample_at 2 [(path_a, 5), (path_b, 5)]) =
     (Picker_Picked [path_a, path_b], sample_at 2 [])"
  by code_simp+

definition sample_keys :: "key_event list" where
  "sample_keys = map press [Key_Char 32, Key_Down, Key_Char 32]"

lemma sample_run: "run_picker picker_sample sample_keys (show_picker picker_sample dir_sample) =
    (Picker_Open, sample_at 2 [(path_a, 5), (path_b, 5)])"
  by (simp add: sample_keys_def sample_shown sample_steps del: One_nat_def)


section \<open>What is picked\<close>

text \<open>The files on which Space was pressed while the picker was open, in order.\<close>

definition toggled :: "key_event \<Rightarrow> picker \<Rightarrow> rstring list" where
  "toggled key p =
     (if key_code key \<noteq> Key_Char 32 then []
      else case picker_current p of
             None \<Rightarrow> []
           | Some f \<Rightarrow> if xf_is_dir f then [] else [xf_path f])"

fun toggles :: "picker_env \<Rightarrow> key_event list \<Rightarrow> picker \<Rightarrow> rstring list" where
  "toggles env [] p = []"
| "toggles env (k # ks) p =
     toggled k p @
     (case handle_picker env k p of
        (Picker_Open, q) \<Rightarrow> toggles env ks q
      | _ \<Rightarrow> [])"

abbreviation picked :: "picker \<Rightarrow> rstring set" where
  "picked p \<equiv> fst ` set (pk_selected p)"

lemma picked_frame [simp]:
  "pk_selected (refresh_matches env p) = pk_selected p"
  "pk_selected (select_first_entry env p) = pk_selected p"
  "pk_selected (move_picker_cursor d w p) = pk_selected p"
  by (simp_all add: refresh_matches_def select_first_entry_def move_picker_cursor_def Let_def)

lemma picked_navigate [simp]: "pk_selected (navigate env key p) = pk_selected p"
  by (simp add: navigate_def Let_def refresh_sizes_def)

lemma remove_at_keys:
  assumes "distinct (map fst xs)" "position (\<lambda>(path, _). path = a) xs = Some i"
  shows "fst ` set (take i xs @ drop (Suc i) xs) = fst ` set xs - {a}"
proof -
  have i: "i < length xs" "fst (xs ! i) = a" using position_Some [OF assms(2)] by (auto simp: case_prod_beta)
  have xs: "xs = take i xs @ xs ! i # drop (Suc i) xs" using i(1) by (rule id_take_nth_drop)
  have "distinct (map fst (take i xs @ xs ! i # drop (Suc i) xs))" using assms(1) xs by simp
  then have "a \<notin> fst ` set (take i xs @ drop (Suc i) xs)" using i(2) by auto
  moreover have "fst ` set xs = insert a (fst ` set (take i xs @ drop (Suc i) xs))"
    using i(2) by (subst xs) auto
  ultimately show ?thesis by blast
qed

lemma picked_toggle:
  assumes "picker_ok env p"
  shows "x \<in> picked (toggle_file p) \<longleftrightarrow> (x \<in> picked p) \<noteq> (x \<in> set (toggled \<lparr>key_code = Key_Char 32, control = c, alt = a\<rparr> p))"
proof -
  have d: "distinct (map fst (pk_selected p))" using assms by (simp add: picker_ok_def)
  show ?thesis
  proof (cases "picker_current p")
    case None
    then show ?thesis by (simp add: toggle_file_def toggled_def)
  next
    case (Some f)
    show ?thesis
    proof (cases "position (\<lambda>(path, _). path = xf_path f) (pk_selected p)")
      case None
      then have "xf_path f \<notin> picked p" using position_key by metis
      moreover have "position (\<lambda>(path, _). path = xf_path f) (pk_selected p) = None" by fact
      ultimately show ?thesis using Some by (simp add: toggle_file_def toggled_def) blast
    next
      case (Some i)
      have "xf_path f \<in> picked p" using Some position_key [of "xf_path f" "pk_selected p"] by fastforce
      then show ?thesis using Some \<open>picker_current p = Some f\<close> remove_at_keys [OF d Some]
        by (auto simp: toggle_file_def toggled_def simp del: set_append)
    qed
  qed
qed

lemma picked_handle:
  assumes "picker_ok env p" "handle_picker env k p = (Picker_Open, q)"
  shows "x \<in> picked q \<longleftrightarrow> (x \<in> picked p) \<noteq> (x \<in> set (toggled k p))"
proof (cases "key_code k = Key_Char 32")
  case True
  then have "k = \<lparr>key_code = Key_Char 32, control = control k, alt = alt k\<rparr>" by (cases k) simp
  moreover have "q = toggle_file p" using True assms(2) by (simp add: handle_picker_def)
  ultimately show ?thesis using picked_toggle [OF assms(1), of x "control k" "alt k"] by simp
next
  case False
  then have "toggled k p = []" by (simp add: toggled_def)
  moreover have "pk_selected q = pk_selected p"
    using assms(2) False
    by (auto simp: handle_picker_def confirm_def take_selected_def
      split: key_code.splits option.splits if_splits)
  ultimately show ?thesis by simp
qed

lemma picked_confirm:
  assumes "handle_picker env k p = (Picker_Picked files, q)"
  shows "toggled k p = [] \<and>
    (files = map fst (pk_selected p) \<and> files \<noteq> [] \<or>
     pk_selected p = [] \<and> (\<exists>f. picker_current q = Some f \<and> \<not> xf_is_dir f \<and> files = [xf_path f]))"
  using assms
  by (auto simp: handle_picker_def confirm_def take_selected_def toggled_def picker_current_def picker_cursor_def
    split: key_code.splits option.splits if_splits)

lemma odd_toggled: "odd (count_list (toggled k p) x) \<longleftrightarrow> x \<in> set (toggled k p)"
  by (cases "picker_current p") (simp_all add: toggled_def)

lemma run_picker_picks:
  assumes "explorer_stable env" "picker_ok env p" "run_picker env ks p = (Picker_Picked files, q)"
  defines "T \<equiv> \<lambda>p ks x. (x \<in> picked p) \<noteq> odd (count_list (toggles env ks p) x)"
  shows "distinct files \<and>
    (files \<noteq> [] \<and> set files = {x. T p ks x} \<or>
     {x. T p ks x} = {} \<and> (\<exists>f. picker_current q = Some f \<and> \<not> xf_is_dir f \<and> files = [xf_path f]))"
  using assms(2,3)
proof (induction ks arbitrary: p)
  case (Cons k ks)
  obtain r p' where h: "handle_picker env k p = (r, p')" by force
  show ?case
  proof (cases r)
    case Picker_Open
    then have "T p (k # ks) x \<longleftrightarrow> T p' ks x" for x
      using picked_handle [OF Cons.prems(1), of k p'] h odd_toggled [of k p x] by (auto simp: T_def)
    moreover have "picker_ok env p'" using handle_picker_ok [OF assms(1) Cons.prems(1), of k] h by simp
    moreover have "run_picker env ks p' = (Picker_Picked files, q)" using Cons.prems(2) h Picker_Open by simp
    ultimately show ?thesis using Cons.IH [of p'] by simp
  next
    case (Picker_Picked fs)
    then have h': "handle_picker env k p = (Picker_Picked files, q)" using Cons.prems(2) h by simp
    have "T p (k # ks) x \<longleftrightarrow> x \<in> picked p" for x using picked_confirm [OF h'] h' by (simp add: T_def)
    moreover have "distinct (map fst (pk_selected p))" using Cons.prems(1) by (simp add: picker_ok_def)
    moreover have "{x. x \<in> picked p} = set (map fst (pk_selected p))" by simp
    ultimately show ?thesis using picked_confirm [OF h'] by (auto simp del: set_map)
  next
    case Picker_Cancelled
    then show ?thesis using Cons.prems(2) h by simp
  qed
qed simp


definition confirm_keys :: "key_event list" where
  "confirm_keys = map press [Key_Char 32, Key_Down, Key_Char 32, Key_Enter]"

lemma confirm_run:
  "run_picker picker_sample confirm_keys (show_picker picker_sample dir_sample) = (Picker_Picked [path_a, path_b], sample_at 2 [])"
  by (simp add: confirm_keys_def sample_shown sample_steps del: One_nat_def)


section \<open>Rows\<close>

text \<open>\<open>str_width\<close> and \<open>char_width\<close> are \<open>unicode_width\<close>'s; a character without a width counts as 0.\<close>

record text_width =
  str_width :: "rstring \<Rightarrow> nat"
  char_width :: "rchar \<Rightarrow> nat option"

definition width_of :: "text_width \<Rightarrow> rchar \<Rightarrow> nat" where
  "width_of w c = (case char_width w c of Some n \<Rightarrow> n | None \<Rightarrow> 0)"

fun cut_columns :: "text_width \<Rightarrow> nat \<Rightarrow> nat \<Rightarrow> rstring \<Rightarrow> rstring \<times> nat" where
  "cut_columns w budget used [] = ([], used)"
| "cut_columns w budget used (c # cs) =
     (if budget < used + width_of w c then ([], used)
      else (case cut_columns w budget (used + width_of w c) cs of (s, n) \<Rightarrow> (c # s, n)))"

definition truncate_name :: "text_width \<Rightarrow> rstring \<Rightarrow> nat \<Rightarrow> rstring \<times> nat" where
  "truncate_name w s width =
     (if str_width w s \<le> width then (s, str_width w s)
      else if width = 0 then ([], 0)
      else (case cut_columns w (width - 1) 0 s of (t, n) \<Rightarrow> (t @ [8230], n + 1)))"

text \<open>A row is its name, the columns of the gap and the size; \<open>format_bytes\<close> computes with floating point.\<close>

definition entry_line ::
  "text_width \<Rightarrow> (u64 \<Rightarrow> rstring) \<Rightarrow> rstring \<Rightarrow> u64 option \<Rightarrow> nat \<Rightarrow> rstring \<times> nat \<times> rstring" where
  "entry_line w format_bytes s entry_size width =
     (case entry_size of
        None \<Rightarrow> (s, 0, [])
      | Some bytes \<Rightarrow>
          (let text = format_bytes bytes;
               (s, s_width) = truncate_name w s (width - (str_width w text + 1));
               gap = width - (s_width + str_width w text)
           in (s, gap, text)))"

definition picker_rows ::
  "text_width \<Rightarrow> (u64 \<Rightarrow> rstring) \<Rightarrow> nat \<Rightarrow> picker \<Rightarrow> (rstring \<times> nat \<times> rstring) list" where
  "picker_rows w format_bytes width p =
     List.map_filter
       (\<lambda>i. case nth_opt (ex_files (pk_explorer p)) i of
              None \<Rightarrow> None
            | Some f \<Rightarrow> Some (entry_line w format_bytes (xf_name f)
                (Option.bind (nth_opt (pk_sizes p) i) (\<lambda>x. x)) width))
       (pk_matches p)"

text \<open>Widths are those of the characters; \<open>unicode_width\<close> differs from that only within emoji sequences.\<close>

definition additive_width :: "text_width \<Rightarrow> bool" where
  "additive_width w \<longleftrightarrow> (\<forall>s. str_width w s = sum_list (map (width_of w) s)) \<and> width_of w 8230 = 1"

lemma cut_columns_width:
  "cut_columns w budget used s = (t, n) \<Longrightarrow> used \<le> budget \<Longrightarrow>
   n = used + sum_list (map (width_of w) t) \<and> n \<le> budget \<and> prefix t s"
  by (induction w budget used s arbitrary: t n rule: cut_columns.induct) (auto split: if_splits prod.splits)

lemma truncate_name_width:
  assumes "additive_width w" "truncate_name w s width = (t, n)"
  shows "n = str_width w t \<and> n \<le> width"
  using assms cut_columns_width [of w "width - 1" 0 s]
  by (fastforce simp: truncate_name_def additive_width_def split: if_splits prod.splits)

text \<open>A row with a size fills its width exactly, as soon as the size and a space fit into it.\<close>

lemma entry_line_fills:
  assumes "additive_width w" "entry_line w fmt s (Some bytes) width = (t, gap, text)"
    "str_width w text < width"
  shows "str_width w t + gap + str_width w text = width \<and> 0 < gap"
proof -
  obtain n where t: "truncate_name w s (width - (str_width w text + 1)) = (t, n)" and shown: "text = fmt bytes"
    and gap: "gap = width - (n + str_width w text)"
    using assms(2) by (auto simp: entry_line_def Let_def split: prod.splits)
  have "n = str_width w t" "n \<le> width - (str_width w text + 1)" using truncate_name_width [OF assms(1) t] by blast+
  then show ?thesis using gap assms(3) by linarith
qed

text \<open>Every match is a row: the listing is neither shortened nor does the highlight miss its row.\<close>

lemma picker_rows_length:
  assumes "picker_ok env p"
  shows "length (picker_rows w fmt width p) = length (pk_matches p)"
proof -
  have "\<forall>i \<in> set (pk_matches p). i < length (ex_files (pk_explorer p))"
    using assms by (auto simp: picker_ok_def matching_def)
  then have "List.map_filter
       (\<lambda>i. case nth_opt (ex_files (pk_explorer p)) i of
              None \<Rightarrow> None
            | Some f \<Rightarrow> Some (entry_line w fmt (xf_name f)
                (Option.bind (nth_opt (pk_sizes p) i) (\<lambda>x. x)) width)) xs =
      map (\<lambda>i. entry_line w fmt (xf_name (ex_files (pk_explorer p) ! i))
                (Option.bind (nth_opt (pk_sizes p) i) (\<lambda>x. x)) width) xs"
    if "set xs \<subseteq> set (pk_matches p)" for xs
    using that by (induction xs) (auto simp: nth_opt_def map_filter_simps)
  then show ?thesis by (simp add: picker_rows_def)
qed

end
