(* ===== verification/Staged_Discovery.thy ===== *)
theory Staged_Discovery
  imports Discovery_Store
begin

text \<open>
  Discovery in stages (\<open>discover_known_http_channels\<close> and \<open>discover_staged\<close> of \<open>discovery/mod.rs\<close>): the known
  addresses first, and a scan of the local subnets only when nothing was confirmed.
\<close>

section \<open>The stages\<close>

text \<open>\<open>client\<close> is the client for unpinned requests, or why it could not be made.\<close>

fun probe_channels :: "network \<Rightarrow> (http_channel \<times> nat) list \<Rightarrow> discovery_state \<Rightarrow> stateful_device list \<times> discovery_state" where
  "probe_channels net [] st = ([], st)"
| "probe_channels net ((c, now) # cs) st =
     (case probe net st (host c) (ch_port c) (ch_protocol c) now of
        (r, st) \<Rightarrow>
          (case probe_channels net cs st of
             (ds, st) \<Rightarrow> ((case r of Inr (Some d) \<Rightarrow> d # ds | _ \<Rightarrow> ds), st)))"

text \<open>\<open>completion\<close>: the order in which the concurrent probes complete, each with the clock at that time.\<close>

definition discover_known_http_channels ::
  "string + network \<Rightarrow> (http_channel list \<Rightarrow> (http_channel \<times> nat) list) \<Rightarrow> http_channel list \<Rightarrow> discovery_state \<Rightarrow>
   (string + stateful_device list) \<times> discovery_state" where
  "discover_known_http_channels client completion cs st =
     (case client of
        Inl e \<Rightarrow> (Inl e, st)
      | Inr net \<Rightarrow> (case probe_channels net (completion cs) st of (ds, st) \<Rightarrow> (Inr ds, st)))"

text \<open>
  The scans of all interfaces run concurrently, so their probes complete in one common order; an
  interface that is being scanned, by another call or by an earlier entry, is left out.
\<close>

fun free_interfaces :: "u32 set \<Rightarrow> u32 list \<Rightarrow> u32 list" where
  "free_interfaces taken [] = []"
| "free_interfaces taken (i # is) =
     (if i \<in> taken then free_interfaces taken is else i # free_interfaces (insert i taken) is)"

definition scan_subnets ::
  "(u32 \<Rightarrow> string) \<Rightarrow> network \<Rightarrow> u32 list \<Rightarrow> u16 \<Rightarrow> protocol_type \<Rightarrow> (u32 list \<Rightarrow> (u32 \<times> nat) list) \<Rightarrow>
   discovery_state \<Rightarrow> discovery_state" where
  "scan_subnets show_v4 net interface_ips p prot order st =
     snd (probe_all net p prot
            (map (\<lambda>(a, now). (show_v4 a, now))
              (order (concat (map subnet_hosts (free_interfaces (scanning st) interface_ips))))) st)"

text \<open>
  \<open>others\<close>: what is confirmed from outside until the grace period is over, e.g. by devices that answered
  the announcement. The announcements themselves change nothing here.
\<close>

definition confirm_all :: "(discovered_device \<times> nat) list \<Rightarrow> discovery_state \<Rightarrow> discovery_state" where
  "confirm_all others st = fold (\<lambda>(dev, now) st. snd (add_device st dev now)) others st"

definition discover_staged ::
  "(u32 \<Rightarrow> string) \<Rightarrow> string + network \<Rightarrow> (http_channel list \<Rightarrow> (http_channel \<times> nat) list) \<Rightarrow>
   (u32 list \<Rightarrow> (u32 \<times> nat) list) \<Rightarrow> (discovered_device \<times> nat) list \<Rightarrow>
   http_channel list \<Rightarrow> u32 list \<Rightarrow> u16 \<Rightarrow> protocol_type \<Rightarrow> discovery_state \<Rightarrow> (string + unit) \<times> discovery_state" where
  "discover_staged show_v4 client completion order others known_channels interface_ips p prot st =
     (case discover_known_http_channels client completion known_channels st of
        (Inl e, st) \<Rightarrow> (Inl e, st)
      | (Inr _, after) \<Rightarrow>
          (let late = confirm_all others after
           in if confirmations late = confirmations st
              then (case client of
                      Inl e \<Rightarrow> (if interface_ips = [] then Inr () else Inl e, late)
                    | Inr net \<Rightarrow> (Inr (), scan_subnets show_v4 net interface_ips p prot order late))
              else (Inr (), late)))"

section \<open>When the subnets are scanned\<close>

text \<open>Somebody else answers at this address: with a certificate, under HTTPS, that is not the own one.\<close>

definition answers :: "network \<Rightarrow> string \<Rightarrow> http_channel \<Rightarrow> bool" where
  "answers net own c \<longleftrightarrow>
     (case net (host c) (ch_port c) (ch_protocol c) of
        Inl _ \<Rightarrow> False
      | Inr r \<Rightarrow>
          (case (case ch_protocol c of Https \<Rightarrow> peer_cert_fingerprint r | Http \<Rightarrow> Some (ir_fingerprint (body r))) of
             None \<Rightarrow> False
           | Some fp \<Rightarrow> fp \<noteq> own))"

lemma probe_frame:
  "own_fingerprint (snd (probe net st h p prot now)) = own_fingerprint st"
  "scanning (snd (probe net st h p prot now)) = scanning st"
  by (auto simp: probe_def found_def split: sum.split option.split protocol_type.split prod.split)

lemma probe_confirmations:
  "confirmations (snd (probe net st (host c) (ch_port c) (ch_protocol c) now)) =
     confirmations st + (if answers net (own_fingerprint st) c then 1 else 0)"
  by (auto simp: probe_def found_def answers_def split: sum.split option.split protocol_type.splits prod.split)

lemma probe_channels_confirmations:
  "confirmations (snd (probe_channels net cs st)) =
     confirmations st + length (filter (answers net (own_fingerprint st)) (map fst cs))"
proof (induction net cs st rule: probe_channels.induct)
  case (2 net c now cs st)
  then show ?case
    using probe_confirmations [of net st c now] probe_frame(1) [of net st "host c" "ch_port c" "ch_protocol c" now]
    by (auto split: prod.split)
qed simp

lemma confirm_all_confirmations: "confirmations (confirm_all others st) = confirmations st + length others"
  unfolding confirm_all_def
  by (induction others arbitrary: st) (auto simp: add_device_def found_def split: prod.split)

text \<open>
  C37. The subnets are scanned exactly in silence: if nobody else answered at a known address and nothing
  else was confirmed until the grace period was over. Otherwise what the cheap stages found is all.
\<close>

theorem staged_scans_in_silence:
  "discover_staged show_v4 (Inr net) completion order others known_channels interface_ips p prot st =
     (Inr (),
      let late = confirm_all others (snd (probe_channels net (completion known_channels) st))
      in if others = [] \<and> filter (answers net (own_fingerprint st)) (map fst (completion known_channels)) = []
         then scan_subnets show_v4 net interface_ips p prot order late
         else late)"
  using confirm_all_confirmations [of others "snd (probe_channels net (completion known_channels) st)"]
    probe_channels_confirmations [of net "completion known_channels" st]
  by (auto simp: discover_staged_def discover_known_http_channels_def Let_def filter_map split: prod.split)

end
