(* ===== verification/Cli_Headless.thy ===== *)
theory Cli_Headless
  imports Cli_Send
begin

text \<open>
  The headless mode of the command line application (\<open>app/headless.rs\<close>): discover the destination, send,
  and exit with the result. It shares the events, the environment and the effects of the interactive mode,
  but there is no keyboard: incoming requests are declined and only the events a send needs are handled.
\<close>

section \<open>State\<close>

text \<open>\<open>hl_result\<close> is what the loop broke with; while it is \<open>None\<close> the loop goes on.\<close>

datatype headless_error =
    Hl_Target target_error
  | Hl_Gone target_selector
  | Hl_Not_Started notice
  | Hl_Transfer_Failed

record headless =
  hl_paired :: paired_devices
  hl_send :: "send_state option"
  hl_result :: "(headless_error + unit) option"

definition new_headless :: "paired_devices \<Rightarrow> headless" where
  "new_headless paired = \<lparr>hl_paired = paired, hl_send = None, hl_result = None\<rparr>"

type_synonym headless_reaction = "headless \<times> effect list"

section \<open>Handlers\<close>

text \<open>The address of \<open>--to\<close> is probed first, unless it is known anyway.\<close>

definition headless_channels :: "(ip_addr \<Rightarrow> string) \<Rightarrow> target_selector \<Rightarrow> http_channel list \<Rightarrow> http_channel list" where
  "headless_channels show_ip target paired =
     (case direct_channel show_ip target of
        Some c \<Rightarrow> if c \<in> set paired then paired else c # paired
      | None \<Rightarrow> paired)"

definition headless_start_send ::
  "env \<Rightarrow> (rstring \<Rightarrow> ip_addr option) \<Rightarrow> target_selector \<Rightarrow> rstring list \<Rightarrow>
   headless_error + stateful_device \<times> send_state \<times> (string \<times> file_dto \<times> rstring) list" where
  "headless_start_send env parse_ip target paths =
     (case resolve (v6_host env) parse_ip target (known env) of
        Inl e \<Rightarrow> Inl (Hl_Target e)
      | Inr fp \<Rightarrow>
          (case device_by_fingerprint (known env) (lit fp) of
             None \<Rightarrow> Inl (Hl_Gone target)
           | Some d \<Rightarrow>
               (case spawn_send env d paths of
                  Inl reason \<Rightarrow> Inl (Hl_Not_Started reason)
                | Inr (state, files) \<Rightarrow> Inr (d, state, files))))"

text \<open>The decision is sent whether or not the request still waits.\<close>

definition headless_server_event :: "env \<Rightarrow> server_event \<Rightarrow> headless \<Rightarrow> headless_reaction" where
  "headless_server_event env e h =
     (case e of
        Register addr info \<Rightarrow> (h, device_confirmed env addr info)
      | PrepareUpload sid addr info cert_fp files \<Rightarrow>
          (h, [Decide sid Decline, Notice (N_Declined (single_line (lit (dto_alias info))))])
      | CancelReceived addr sid \<Rightarrow>
          (case hl_send h of
             Some t \<Rightarrow>
               if ss_session t = Some sid \<and> ss_host t = show_peer env addr
               then (h\<lparr>hl_send := Some (t\<lparr>ss_by_peer := True, ss_cancelled := True\<rparr>)\<rparr>, [])
               else (h, [])
           | None \<Rightarrow> (h, []))
      | ListenerFailed err \<Rightarrow> (h, [Notice (N_Server_Stopped err)])
      | FileUpload sid fid file \<Rightarrow> (h, [])
      | SessionEnd sid reason \<Rightarrow> (h, [])
      | PrepareUploadAborted sid \<Rightarrow> (h, []))"

definition headless_discovery :: "env \<Rightarrow> discovery_event \<Rightarrow> headless \<Rightarrow> headless_reaction" where
  "headless_discovery env e h =
     (let refreshed = (\<lambda>d. case refresh_paired_channels (v6_host env) (known env) (save_error env)
              (lit (d_fingerprint d)) (hl_paired h) of
            (r, paired) \<Rightarrow> (h\<lparr>hl_paired := paired\<rparr>,
               case r of Inr _ \<Rightarrow> [] | Inl _ \<Rightarrow> [Notice (N_Text ''Could not save the paired devices'')]))
      in case e of
           MulticastFailed \<Rightarrow>
             (h, [Notice (N_Text ''Multicast stopped, no longer hearing announcements'')])
         | Updated d \<Rightarrow> refreshed d
         | Discovered d \<Rightarrow>
             (case refreshed d of
                (h, out) \<Rightarrow>
                  (h, out @ [Notice (N_Discovered None (single_line (lit (d_alias d))) (discovered_host d))])))"

section \<open>The loop\<close>

definition headless_step ::
  "(rstring \<Rightarrow> ip_addr option) \<Rightarrow> target_selector \<Rightarrow> rstring list \<Rightarrow> env \<Rightarrow> app_event \<Rightarrow> headless \<Rightarrow> headless_reaction" where
  "headless_step parse_ip target paths env e h =
     (case e of
        Ev_Server e \<Rightarrow> headless_server_event env e h
      | Ev_Discovery e \<Rightarrow> headless_discovery env e h
      | Ev_Tick \<Rightarrow> (h, [])
      | Ev_Log line \<Rightarrow> (h, [Notice (N_Text line)])
      | Ev_Discovery_Finished \<Rightarrow>
          (case headless_start_send env parse_ip target paths of
             Inr (d, state, files) \<Rightarrow> (h\<lparr>hl_send := Some state\<rparr>, [Start_Send d files])
           | Inl reason \<Rightarrow> (h\<lparr>hl_result := Some (Inl reason)\<rparr>, []))
      | Ev_Send_Started sid accepted \<Rightarrow>
          (case hl_send h of
             Some t \<Rightarrow> (h\<lparr>hl_send := Some (t\<lparr>ss_session := Some sid, ss_total := accepted\<rparr>)\<rparr>, [])
           | None \<Rightarrow> (h, []))
      | Ev_Send_Ended success \<Rightarrow>
          (h\<lparr>hl_result := Some (if success then Inr () else Inl Hl_Transfer_Failed)\<rparr>, [])
      | Ev_Key key \<Rightarrow> (h, [])
      | Ev_File_Result sid fid result \<Rightarrow> (h, [])
      | Ev_Progress sid fid written \<Rightarrow> (h, [])
      | Ev_Web e \<Rightarrow> (h, []))"

fun headless_loop ::
  "(rstring \<Rightarrow> ip_addr option) \<Rightarrow> target_selector \<Rightarrow> rstring list \<Rightarrow> (env \<times> app_event) list \<Rightarrow> headless \<Rightarrow> headless_reaction" where
  "headless_loop parse_ip target paths [] h = (h, [])"
| "headless_loop parse_ip target paths ((env, e) # es) h =
     (if hl_result h \<noteq> None then (h, [])
      else case headless_step parse_ip target paths env e h of
             (h, out) \<Rightarrow>
               (case headless_loop parse_ip target paths es h of (h, later) \<Rightarrow> (h, out @ later)))"

section \<open>Facts on the loop\<close>

lemmas headless_handlers =
  headless_server_event_def headless_discovery_def headless_step_def

lemma loop_done [simp]: "hl_result h \<noteq> None \<Longrightarrow> headless_loop parse_ip target paths es h = (h, [])"
  by (cases es) auto

text \<open>The answers given to requests, and the requests that came.\<close>

definition decisions :: "effect list \<Rightarrow> (string \<times> prepare_upload_decision) list" where
  "decisions es = List.map_filter (\<lambda>e. case e of Decide sid d \<Rightarrow> Some (sid, d) | _ \<Rightarrow> None) es"

definition request_of :: "app_event \<Rightarrow> string option" where
  "request_of e = (case e of Ev_Server (PrepareUpload sid _ _ _ _) \<Rightarrow> Some sid | _ \<Rightarrow> None)"

text \<open>The events that can end the loop.\<close>

definition decisive :: "app_event \<Rightarrow> bool" where
  "decisive e \<longleftrightarrow> (case e of Ev_Discovery_Finished \<Rightarrow> True | Ev_Send_Ended _ \<Rightarrow> True | _ \<Rightarrow> False)"

lemma decisions_simps [simp]:
  "decisions [] = []" "decisions (xs @ ys) = decisions xs @ decisions ys"
  "decisions (Decide sid d # xs) = (sid, d) # decisions xs"
  "decisions (Notice n # xs) = decisions xs" "decisions (Start_Send dv fs # xs) = decisions xs"
  "decisions (Confirm_Device x i # xs) = decisions xs"
  by (simp_all add: decisions_def List.map_filter_def)

lemma step_decisions:
  "decisions (snd (headless_step parse_ip target paths env e h)) =
     (case request_of e of Some sid \<Rightarrow> [(sid, Decline)] | None \<Rightarrow> [])"
  by (auto simp: headless_handlers request_of_def device_confirmed_def Let_def
    split: app_event.split server_event.split discovery_event.split option.split sum.split prod.split)

lemma step_result:
  "\<not> decisive e \<Longrightarrow> hl_result (fst (headless_step parse_ip target paths env e h)) = hl_result h"
  by (auto simp: headless_handlers decisive_def Let_def
    split: app_event.splits server_event.split discovery_event.split option.split prod.split)

lemma loop_undecided:
  "hl_result h = None \<Longrightarrow> list_all (\<lambda>(_, e). \<not> decisive e) es \<Longrightarrow>
   hl_result (fst (headless_loop parse_ip target paths es h)) = None"
proof (induction es arbitrary: h)
  case (Cons x es)
  obtain env e where x: "x = (env, e)" by fastforce
  obtain h' out where step: "headless_step parse_ip target paths env e h = (h', out)" by fastforce
  have "hl_result h' = None"
    using step_result [of e parse_ip target paths env h] step Cons.prems x by simp
  then have "hl_result (fst (headless_loop parse_ip target paths es h')) = None"
    using Cons.IH Cons.prems(2) by simp
  then show ?case using step x Cons.prems(1) by (cases "headless_loop parse_ip target paths es h'") simp
qed simp

lemma loop_append:
  "headless_loop parse_ip target paths (xs @ ys) h =
     (case headless_loop parse_ip target paths xs h of
        (h, out) \<Rightarrow> (case headless_loop parse_ip target paths ys h of (h, later) \<Rightarrow> (h, out @ later)))"
  by (induction xs arbitrary: h) (auto split: prod.split)

section \<open>The result of a headless send\<close>

text \<open>What the send task tells the loop, in its order.\<close>

definition task_events :: "send_action list \<Rightarrow> app_event list" where
  "task_events acts =
     List.map_filter
       (\<lambda>a. case a of
              Session_Started sid n \<Rightarrow> Some (Ev_Send_Started sid n)
            | Send_Ended ok \<Rightarrow> Some (Ev_Send_Ended ok)
            | _ \<Rightarrow> None) acts"

definition of_task :: "app_event \<Rightarrow> bool" where
  "of_task e \<longleftrightarrow> (case e of Ev_Send_Started _ _ \<Rightarrow> True | Ev_Send_Ended _ \<Rightarrow> True | _ \<Rightarrow> False)"

lemma task_ends: "[ok. Ev_Send_Ended ok \<leftarrow> task_events acts] = ends acts"
  by (induction acts) (simp_all add: task_events_def ends_def List.map_filter_def split: send_action.split)

lemma ended_of_task: "[ok. Ev_Send_Ended ok \<leftarrow> filter of_task es] = [ok. Ev_Send_Ended ok \<leftarrow> es]"
  by (induction es) (auto simp: of_task_def split: app_event.split)

text \<open>Without another end of discovery the first end of the task decides.\<close>

lemma loop_ended:
  assumes "hl_result h = None" "Ev_Discovery_Finished \<notin> set (map snd es)"
    "[ok. Ev_Send_Ended ok \<leftarrow> map snd es] = ok # oks"
  shows "hl_result (fst (headless_loop parse_ip target paths es h)) =
    Some (if ok then Inr () else Inl Hl_Transfer_Failed)"
  using assms
proof (induction es arbitrary: h)
  case (Cons x es)
  obtain env e where x: "x = (env, e)" by fastforce
  obtain h' out where step: "headless_step parse_ip target paths env e h = (h', out)" by fastforce
  show ?case
  proof (cases "decisive e")
    case True
    then obtain b where e: "e = Ev_Send_Ended b"
      using Cons.prems(2) x by (cases e) (auto simp: decisive_def)
    then have "b = ok" using Cons.prems(3) x by simp
    then have "hl_result h' = Some (if ok then Inr () else Inl Hl_Transfer_Failed)"
      using step e by (auto simp: headless_step_def)
    then show ?thesis using Cons.prems(1) step x by simp
  next
    case False
    then have "hl_result h' = None" using step_result [OF False, of parse_ip target paths env h] step Cons.prems(1) by simp
    moreover have "[ok. Ev_Send_Ended ok \<leftarrow> map snd es] = ok # oks"
      using Cons.prems(3) x False by (cases e) (auto simp: decisive_def)
    ultimately show ?thesis using Cons.IH [of h'] Cons.prems(1,2) step x by (auto split: prod.split)
  qed
qed simp

lemma loop_started:
  assumes "hl_result h = None" "headless_start_send env parse_ip target paths = Inr (d, state, files)"
  shows "headless_loop parse_ip target paths ((env, Ev_Discovery_Finished) # es) h =
    (case headless_loop parse_ip target paths es (h\<lparr>hl_send := Some state\<rparr>) of
       (h, later) \<Rightarrow> (h, Start_Send d files # later))"
  using assms by (simp add: headless_step_def)

lemma start_send_target:
  assumes "headless_start_send env parse_ip target paths = Inr (d, state, files)"
    "distinct (map (\<lambda>d. d_fingerprint (device d)) (known env))"
  shows "d \<in> set (known env) \<and> target_matches (v6_host env) parse_ip target d \<and>
    {d \<in> set (known env). target_matches (v6_host env) parse_ip target d} = {d}"
proof -
  obtain fp where fp: "resolve (v6_host env) parse_ip target (known env) = Inr fp"
    and d: "device_by_fingerprint (known env) (lit fp) = Some d"
    using assms(1) by (auto simp: headless_start_send_def split: sum.splits option.splits)
  obtain d' where d': "{d \<in> set (known env). target_matches (v6_host env) parse_ip target d} = {d'}"
    and "d_fingerprint (device d') = fp"
    using fp resolve_iff [OF assms(2)] by blast
  moreover have "d \<in> set (known env)" "lit (d_fingerprint (device d)) = lit fp"
    using find_Some_in [OF d [unfolded device_by_fingerprint_def]] by auto
  moreover have "d' \<in> set (known env)" using d' by blast
  ultimately have "d = d'" using assms(2) by (auto simp: distinct_map lit_inject dest: inj_onD)
  then show ?thesis using d' by blast
qed

text \<open>A send whose grant names offered files only reports its end, once.\<close>

lemma run_send_ends:
  assumes "fst ` set paths = fst ` set files"
    and "\<And>g. granted is_v6 connect own_info d files s = Some g \<Longrightarrow> fst ` set (ug_files g) \<subseteq> fst ` set files"
  shows "\<exists>ok. ends (fst (run_send is_v6 connect own_info by_peer d files paths s)) = [ok]"
proof (cases "granted is_v6 connect own_info d files s")
  case None
  then show ?thesis using not_granted [OF None, of by_peer paths] by (auto simp: run_send_def)
next
  case (Some g)
  obtain net s1 where inner: "send_inner is_v6 connect own_info by_peer d files paths s =
      after_grant net by_peer (single_line (lit (d_alias (device d)))) files paths g s1"
    using when_granted [OF Some] by blast
  obtain acts r s2 where run: "after_grant net by_peer (single_line (lit (d_alias (device d)))) files paths g s1 = (acts, r, s2)"
    by (metis prod_cases3)
  have "offered files paths fid" if "fid \<in> fst ` set (ug_files g)" for fid
    using that assms(1) assms(2) [OF Some] by (auto simp: offered_def map_of_eq_None_iff)
  from after_grant_offered [OF this run] obtain ok where "r = Some ok" "ends acts = []" by blast
  then show ?thesis using inner run by (simp add: run_send_def)
qed

definition offer_of :: "(string \<times> file_dto \<times> rstring) list \<Rightarrow> (string \<times> file_dto) list" where
  "offer_of files = map (\<lambda>(i, f, _). (i, f)) files"

definition paths_of :: "(rstring \<Rightarrow> path) \<Rightarrow> (string \<times> file_dto \<times> rstring) list \<Rightarrow> (string \<times> path) list" where
  "paths_of to_path files = map (\<lambda>(i, _, p). (i, to_path p)) files"

lemma offer_keys: "fst ` set (paths_of to_path files) = fst ` set (offer_of files)"
  by (force simp: paths_of_def offer_of_def)

lemma loop_decisions:
  "\<exists>k \<le> length es. decisions (snd (headless_loop parse_ip target paths es h)) =
      map (\<lambda>sid. (sid, Decline)) (List.map_filter request_of (map snd (take k es))) \<and>
    (hl_result (fst (headless_loop parse_ip target paths es h)) = None \<longrightarrow> k = length es)"
proof (induction es arbitrary: h)
  case (Cons x es)
  obtain env e where x: "x = (env, e)" by fastforce
  obtain h' out where step: "headless_step parse_ip target paths env e h = (h', out)" by fastforce
  show ?case
  proof (cases "hl_result h")
    case None
    obtain k where ih: "k \<le> length es \<and>
      decisions (snd (headless_loop parse_ip target paths es h')) =
        map (\<lambda>sid. (sid, Decline)) (List.map_filter request_of (map snd (take k es))) \<and>
      (hl_result (fst (headless_loop parse_ip target paths es h')) = None \<longrightarrow> k = length es)"
      using Cons.IH [of h'] by (elim exE) (rule that)
    note k = ih [THEN conjunct1] ih [THEN conjunct2, THEN conjunct1] ih [THEN conjunct2, THEN conjunct2]
    have "decisions out = (case request_of e of Some sid \<Rightarrow> [(sid, Decline)] | None \<Rightarrow> [])"
      using step_decisions [of parse_ip target paths env e h] step by simp
    then have "decisions (snd (headless_loop parse_ip target paths (x # es) h)) =
        map (\<lambda>sid. (sid, Decline)) (List.map_filter request_of (map snd (take (Suc k) (x # es))))"
      using k(2) x step None
      by (cases "headless_loop parse_ip target paths es h'") (simp add: map_filter_simps split: option.split)
    moreover have "fst (headless_loop parse_ip target paths (x # es) h) = fst (headless_loop parse_ip target paths es h')"
      using x step None by (cases "headless_loop parse_ip target paths es h'") simp
    ultimately show ?thesis using k(1,3) by (intro exI [of _ "Suc k"]) simp
  next
    case (Some r)
    then show ?thesis by (intro exI [of _ 0]) (simp add: map_filter_simps)
  qed
qed (simp add: map_filter_simps)


definition headless_env :: env where
  "headless_env = sample_env\<lparr>known := [sample_device]\<rparr>"

definition to_sample :: target_selector where
  "to_sample = Target_Alias (lit (d_alias (device sample_device)))"

definition sample_picked :: "(string \<times> file_dto \<times> rstring) list" where
  "sample_picked = [(''id'', sample_dto ''id'' 1, lit ''a.txt'')]"

definition sample_state :: send_state where
  "sample_state = \<lparr>ss_session = None, ss_alias = single_line (lit ''A''), ss_host = ''10.0.0.2'',
     ss_total = 1, ss_cancelled = False, ss_by_peer = False\<rparr>"

lemma headless_sample_start:
  "headless_start_send headless_env (\<lambda>_. None) to_sample [lit ''a.txt''] = Inr (sample_device, sample_state, sample_picked)"
  by (simp add: headless_start_send_def headless_env_def sample_env_def to_sample_def resolve_def target_matches_def
      device_by_fingerprint_def spawn_send_def sample_picked_def sample_state_def total_size_def sample_dto_def
      get_best_channel_def get_ranked_channels_def sample_device_def sample_channel_def Let_def
      rank_def last_confirmed_def insort_key.simps)

definition sample_acts :: "send_action list" where
  "sample_acts = fst (run_send (v6_host headless_env) (\<lambda>_ _. Inr (easy_remote [(''id'', ''t'')])) sample_info False
     sample_device (offer_of sample_picked) (paths_of (\<lambda>p. [Normal p]) sample_picked) ())"

definition sample_later :: "(env \<times> app_event) list" where
  "sample_later = [(headless_env, Ev_Send_Started ''s1'' 1), (headless_env, Ev_Tick), (headless_env, Ev_Send_Ended True)]"

lemma sample_best_channel: "get_best_channel (\<lambda>_. False) sample_device = Some (sample_channel ''10.0.0.2'')"
  by (simp add: get_best_channel_def get_ranked_channels_def sample_device_def sample_channel_def
      rank_def last_confirmed_def insort_key.simps)

lemma sample_task: "task_events sample_acts = [Ev_Send_Started ''s1'' 1, Ev_Send_Ended True] \<and> ends sample_acts = [True]"
  by (simp add: sample_acts_def headless_env_def sample_env_def run_send_def send_inner_def Let_def sample_best_channel
      easy_remote_def after_grant_def offer_of_def paths_of_def sample_picked_def sample_dto_def upload_order_def
      accepted_bytes_def task_events_def ends_def List.map_filter_def) blast

lemma sample_granted:
  "granted (v6_host headless_env) (\<lambda>_ _. Inr (easy_remote [(''id'', ''t'')])) sample_info sample_device
     (offer_of sample_picked) () = Some \<lparr>ug_session = ''s1'', ug_files = [(''id'', ''t'')]\<rparr>"
  by (simp add: granted_def headless_env_def sample_env_def sample_best_channel easy_remote_def)


end
