(* ===== verification/Headless_Discovery.thy ===== *)
theory Headless_Discovery
  imports Staged_Discovery Cli_Headless
begin

text \<open>
  Discovery in stages and the headless mode together: a destination given by its address is found
  (\<open>discover_staged\<close> of \<open>discovery/mod.rs\<close> run by \<open>app/headless.rs\<close>).
\<close>

section \<open>A destination given by its address\<close>

text \<open>A device and a host it was confirmed at stay in the store.\<close>

definition reached_at :: "store \<Rightarrow> string \<Rightarrow> string \<Rightarrow> bool" where
  "reached_at s fp h \<longleftrightarrow>
     (\<exists>k. by_fingerprint s fp = Some k \<and> h \<in> (channel_host \<circ> fst) ` set (channels k))"

lemma merge_keeps_host:
  "h \<in> (channel_host \<circ> fst) ` set (channels k) \<Longrightarrow>
   h \<in> (channel_host \<circ> fst) ` set (channels (merge_device dev t k))"
  by (cases "h = channel_host (d_channel dev)")
    (force simp: merge_device_def same_endpoint_def Let_def image_iff)+

lemma reached_upsert: "reached_at s fp h \<Longrightarrow> reached_at (upsert_into s (dev, t)) fp h"
  using upsert_lookup [of s dev t] upsert_lookup_other [of fp dev s t] merge_keeps_host [of h]
  by (cases "fp = d_fingerprint dev") (auto simp: reached_at_def simp del: comp_apply)

lemma reached_new: "reached_at (upsert_into s (dev, t)) (d_fingerprint dev) (channel_host (d_channel dev))"
  using upsert_lookup [of s dev t]
  by (auto simp: reached_at_def merge_device_def new_device_def Let_def split: option.split)

lemma found_store: "found st dev now = (b, m, ev, st') \<Longrightarrow> ds_store st' = upsert_into (ds_store st) (dev, now)"
  by (auto simp: found_def upsert_into_def split: prod.splits)

lemma probe_keeps:
  "reached_at (ds_store st) fp h \<Longrightarrow> reached_at (ds_store (snd (probe net st g p prot now))) fp h"
  by (auto simp: probe_def reached_upsert dest!: found_store
      split: sum.split option.split protocol_type.split prod.splits)

lemma probe_channels_keeps:
  "reached_at (ds_store st) fp h \<Longrightarrow> reached_at (ds_store (snd (probe_channels net cs st))) fp h"
proof (induction net cs st rule: probe_channels.induct)
  case (2 net c now cs st)
  then show ?case
    using probe_keeps [of st fp h net "host c" "ch_port c" "ch_protocol c" now] by (auto split: prod.splits)
qed simp

lemma probe_all_keeps:
  "reached_at (ds_store st) fp h \<Longrightarrow> reached_at (ds_store (snd (probe_all net p prot hs st))) fp h"
proof (induction net p prot hs st rule: probe_all.induct)
  case (2 net p prot g now hs st)
  then show ?case using probe_keeps [of st fp h net g p prot now] by (auto split: prod.splits)
qed simp

lemma confirm_all_keeps:
  "reached_at (ds_store st) fp h \<Longrightarrow> reached_at (ds_store (confirm_all others st)) fp h"
proof (induction others arbitrary: st)
  case (Cons x xs)
  obtain dev t where x: "x = (dev, t)" by fastforce
  have "ds_store (snd (add_device st dev t)) = upsert_into (ds_store st) (dev, t)"
    by (auto simp: add_device_def dest: found_store split: prod.split)
  then have "reached_at (ds_store (snd (add_device st dev t))) fp h"
    using reached_upsert [OF Cons.prems, of dev t] by simp
  then show ?case using Cons.IH x by (simp add: confirm_all_def)
qed (simp add: confirm_all_def)

lemma probe_reaches:
  assumes "net (host c) (ch_port c) Https = Inr r" "peer_cert_fingerprint r = Some fp" "fp \<noteq> own_fingerprint st"
    "ch_protocol c = Https"
  shows "reached_at (ds_store (snd (probe net st (host c) (ch_port c) (ch_protocol c) now))) fp (host c)"
proof -
  let ?dev = "confirmed_device (body r) (host c) (ch_port c) Https fp"
  have "ds_store (snd (probe net st (host c) (ch_port c) (ch_protocol c) now)) = upsert_into (ds_store st) (?dev, now)"
    using assms by (auto simp: probe_def dest: found_store split: prod.split)
  then show ?thesis
    using reached_new [of "ds_store st" ?dev now] by (simp add: confirmed_device_def)
qed

lemma probe_channels_reaches:
  assumes "c \<in> fst ` set cs" "net (host c) (ch_port c) Https = Inr r" "peer_cert_fingerprint r = Some fp"
    "fp \<noteq> own_fingerprint st" "ch_protocol c = Https"
  shows "reached_at (ds_store (snd (probe_channels net cs st))) fp (host c)"
  using assms(1,4)
proof (induction cs arbitrary: st)
  case (Cons x cs)
  obtain c' now where x: "x = (c', now)" by fastforce
  let ?st = "snd (probe net st (host c') (ch_port c') (ch_protocol c') now)"
  have step: "ds_store (snd (probe_channels net (x # cs) st)) = ds_store (snd (probe_channels net cs ?st))"
    by (simp add: x split: prod.split)
  show ?case
  proof (cases "c' = c")
    case True
    then have "reached_at (ds_store ?st) fp (host c)"
      using probe_reaches [of net c, OF assms(2,3) Cons.prems(2) assms(5), of now] by simp
    then show ?thesis unfolding step by (rule probe_channels_keeps)
  next
    case False
    then have "c \<in> fst ` set cs" using Cons.prems(1) x by auto
    then show ?thesis unfolding step using Cons.IH [of ?st] Cons.prems(2) by (simp add: probe_frame)
  qed
qed simp

lemma staged_reaches:
  assumes "c \<in> fst ` set (completion known_channels)" "net (host c) (ch_port c) Https = Inr r"
    "peer_cert_fingerprint r = Some fp" "fp \<noteq> own_fingerprint st" "ch_protocol c = Https"
  shows "reached_at (ds_store (snd (discover_staged show_v4 (Inr net) completion order others known_channels
    interface_ips p prot st))) fp (host c)"
  using confirm_all_keeps [OF probe_channels_reaches [of c "completion known_channels" net, OF assms], of others]
  by (auto simp: discover_staged_def discover_known_http_channels_def scan_subnets_def Let_def
      intro: probe_all_keeps split: prod.split)

lemma ranked_channels_set: "set (get_ranked_channels is_v6 d) = fst ` set (channels d)"
  using ranked_perm [of is_v6 d] by (metis set_map set_mset_mset)

lemma takeWhile_lit: "CHR ''%'' \<notin> set s \<Longrightarrow> takeWhile (\<lambda>x. x \<noteq> 37) (lit s) = lit s"
proof -
  have "of_char x = (37 :: nat) \<Longrightarrow> x = CHR ''%''" for x
    using of_char_eq_iff [of x "CHR ''%''", where ?'a = nat] by simp
  moreover assume "CHR ''%'' \<notin> set s"
  ultimately show ?thesis by (auto simp: lit_def takeWhile_eq_all_conv)
qed

text \<open>
  C38. A destination given by its address is found, whatever multicast does: if a device answers at that
  address, on the default port and with a certificate of its own, then after discovery, whoever else was
  confirmed in the meantime, the headless send is resolved to that device by the fingerprint of its
  certificate, unless another device was confirmed at the same address.
\<close>

theorem address_destination_found:
  assumes "net (show_ip a) DEFAULT_PORT Https = Inr r" "peer_cert_fingerprint r = Some fp" "fp \<noteq> own_fingerprint st"
    and "\<And>cs. fst ` set (completion cs) = set cs"
    and "parse_ip (lit (show_ip a)) = Some a" "CHR ''%'' \<notin> set (show_ip a)"
    and "st' = snd (discover_staged show_v4 (Inr net) completion order others
           (headless_channels show_ip (Target_Ip a) paired) interface_ips p prot st)"
    and "distinct (map (\<lambda>d. d_fingerprint (device d)) (ds_store st'))"
    and "\<And>d. d \<in> set (ds_store st') \<Longrightarrow> target_matches is_v6 parse_ip (Target_Ip a) d \<Longrightarrow> d_fingerprint (device d) = fp"
  shows "resolve is_v6 parse_ip (Target_Ip a) (ds_store st') = Inr fp"
proof -
  let ?c = "\<lparr>host = show_ip a, ch_port = DEFAULT_PORT, ch_protocol = Https\<rparr>"
  have "?c \<in> set (headless_channels show_ip (Target_Ip a) paired)"
    by (simp add: headless_channels_def direct_channel_def)
  then have "?c \<in> fst ` set (completion (headless_channels show_ip (Target_Ip a) paired))" using assms(4) by simp
  then have "reached_at (ds_store st') fp (show_ip a)"
    using staged_reaches [of ?c completion "headless_channels show_ip (Target_Ip a) paired" net r fp st] assms(1-3,7)
    by simp
  then obtain k where k: "by_fingerprint (ds_store st') fp = Some k"
    "show_ip a \<in> (channel_host \<circ> fst) ` set (channels k)" by (auto simp: reached_at_def)
  obtain ch where "ch \<in> set (get_ranked_channels is_v6 k)" "channel_host ch = show_ip a"
    using k(2) by (force simp: ranked_channels_set)
  then have "target_matches is_v6 parse_ip (Target_Ip a) k"
    unfolding target_matches_def list_ex_iff target_selector.case
    by (intro bexI [of _ ch]) (simp_all add: assms(5) takeWhile_lit [OF assms(6)])
  moreover have fp: "k \<in> set (ds_store st')" "d_fingerprint (device k) = fp" using by_fingerprint_Some [OF k(1)] by blast+
  moreover have "d = k" if "d \<in> set (ds_store st')" "target_matches is_v6 parse_ip (Target_Ip a) d" for d
    using assms(8) assms(9) [OF that] that(1) fp by (auto simp: distinct_map dest: inj_onD)
  ultimately show ?thesis unfolding resolve_iff [OF assms(8)] by blast
qed

text \<open>One device answers at the address \<open>10.0.0.5\<close>.\<close>

definition lone_answer :: register_answer where
  "lone_answer =
     \<lparr>body = \<lparr>ir_alias = ''Tomato'', ir_version = ''2.2'', ir_device_model = None, ir_device_type = None,
        ir_fingerprint = ''AB'', ir_download = False\<rparr>, peer_cert_fingerprint = Some ''AB''\<rparr>"

definition lone_net :: network where
  "lone_net h p prot = (if h = ''10.0.0.5'' then Inr lone_answer else Inl ''timeout'')"

definition quiet_state :: discovery_state where
  "quiet_state = \<lparr>own_fingerprint = ''FP'', ds_store = [], answering = True, scanning = {}, confirmations = 0\<rparr>"

definition lone_discovery :: discovery_state where
  "lone_discovery = snd (discover_staged (\<lambda>_. ''10.0.0.7'') (Inr lone_net) (map (\<lambda>c. (c, 1))) (map (\<lambda>a. (a, 1))) []
     (headless_channels (\<lambda>_. ''10.0.0.5'') (Target_Ip (V4 5)) []) [7] DEFAULT_PORT Https quiet_state)"

lemma lone_store:
  "ds_store lone_discovery =
     [new_device (confirmed_device (body lone_answer) ''10.0.0.5'' DEFAULT_PORT Https ''AB'') 1]"
  by (simp add: lone_discovery_def headless_channels_def direct_channel_def discover_staged_def
      discover_known_http_channels_def probe_def lone_net_def lone_answer_def quiet_state_def found_def
      upsert_def by_fingerprint_def confirm_all_def confirmed_device_def Let_def)

theorem address_destination_found_witness:
  "resolve (\<lambda>_. False) (\<lambda>_. Some (V4 5)) (Target_Ip (V4 5)) (ds_store lone_discovery) = Inr ''AB''"
  by (rule address_destination_found [where net = lone_net and show_ip = "\<lambda>_. ''10.0.0.5''" and r = lone_answer
        and completion = "map (\<lambda>c. (c, 1))", OF _ _ _ _ _ _ lone_discovery_def])
    (auto simp: lone_net_def lone_answer_def quiet_state_def lone_store confirmed_device_def comp_def image_image)

end
