(* ===== verification/App_Discovery.thy ===== *)
theory App_Discovery
  imports Staged_Discovery
begin

text \<open>
  Discovery as the Flutter application sees it (\<open>linko_isolates/rust/src/api/discovery.rs\<close>): the stream of
  stored devices, the logs of a device and the calls that parse their addresses first. That one discovery
  runs at a time is the rule of \<open>instance_step\<close> in \<open>App_Bridge\<close>. Parsing an IPv4 address is an argument.
\<close>

section \<open>What the application is given\<close>

record app_channel =
  rc_host :: string
  rc_port :: u16
  rc_protocol :: protocol_type

record stored_device =
  sd_alias :: string
  sd_version :: string
  sd_device_model :: "string option"
  sd_device_type :: "device_type option"
  sd_fingerprint :: string
  sd_download :: bool
  sd_channels :: "app_channel list"

record app_device_log =
  rl_timestamp :: nat
  rl_kind :: device_log_kind
  rl_channel :: app_channel

fun app_channel_of :: "device_channel \<Rightarrow> app_channel" where
  "app_channel_of (Http_Channel c) = \<lparr>rc_host = host c, rc_port = ch_port c, rc_protocol = ch_protocol c\<rparr>"

definition rs_stored_device :: "(string \<Rightarrow> bool) \<Rightarrow> stateful_device \<Rightarrow> stored_device" where
  "rs_stored_device is_v6 k =
     (let d = device k
      in \<lparr>sd_alias = d_alias d, sd_version = d_version d, sd_device_model = d_device_model d,
          sd_device_type = d_device_type d, sd_fingerprint = d_fingerprint d, sd_download = d_download d,
          sd_channels = map app_channel_of (get_ranked_channels is_v6 k)\<rparr>)"

definition rs_device_log :: "device_log \<Rightarrow> app_device_log" where
  "rs_device_log l = \<lparr>rl_timestamp = l_timestamp l, rl_kind = l_kind l, rl_channel = app_channel_of (l_channel l)\<rparr>"

definition device_logs :: "store \<Rightarrow> string \<Rightarrow> app_device_log list" where
  "device_logs s fp =
     (case by_fingerprint s fp of Some d \<Rightarrow> map rs_device_log (logs d) | None \<Rightarrow> [])"

section \<open>The stream\<close>

text \<open>
  What \<open>listen\<close> waits for: an event, with the store at that time and whether the sink still takes events,
  the end of the channel, or the stop. Taking the receiver a second time is an error.
\<close>

datatype heard_event = Heard discovery_event store bool | Channel_Closed | Cancelled_Discovery

fun listen_devices :: "(string \<Rightarrow> bool) \<Rightarrow> heard_event list \<Rightarrow> stored_device list \<times> bool" where
  "listen_devices is_v6 [] = ([], False)"
| "listen_devices is_v6 (Channel_Closed # evs) = ([], True)"
| "listen_devices is_v6 (Cancelled_Discovery # evs) = ([], True)"
| "listen_devices is_v6 (Heard MulticastFailed s open # evs) = ([], True)"
| "listen_devices is_v6 (Heard (Discovered d) s open # evs) =
     (case by_fingerprint s (d_fingerprint d) of
        None \<Rightarrow> listen_devices is_v6 evs
      | Some k \<Rightarrow>
          if open then (case listen_devices is_v6 evs of (ds, ended) \<Rightarrow> (rs_stored_device is_v6 k # ds, ended))
          else ([], True))"
| "listen_devices is_v6 (Heard (Updated d) s open # evs) =
     (case by_fingerprint s (d_fingerprint d) of
        None \<Rightarrow> listen_devices is_v6 evs
      | Some k \<Rightarrow>
          if open then (case listen_devices is_v6 evs of (ds, ended) \<Rightarrow> (rs_stored_device is_v6 k # ds, ended))
          else ([], True))"

definition listen :: "(string \<Rightarrow> bool) \<Rightarrow> bool \<Rightarrow> heard_event list \<Rightarrow> (string + stored_device list) \<times> bool" where
  "listen is_v6 receiver_there evs =
     (if receiver_there then (case listen_devices is_v6 evs of (ds, ended) \<Rightarrow> (Inr ds, ended))
      else (Inl ''Discovery events already listened to'', True))"

section \<open>Calls\<close>

fun parse_all :: "(string \<Rightarrow> u32 option) \<Rightarrow> string list \<Rightarrow> string + u32 list" where
  "parse_all parse_v4 [] = Inr []"
| "parse_all parse_v4 (x # xs) =
     (case parse_v4 x of
        None \<Rightarrow> Inl (''Invalid interface address: '' @ x)
      | Some a \<Rightarrow> (case parse_all parse_v4 xs of Inl e \<Rightarrow> Inl e | Inr as \<Rightarrow> Inr (a # as)))"

definition to_http_channel :: "app_channel \<Rightarrow> http_channel" where
  "to_http_channel c = \<lparr>host = rc_host c, ch_port = rc_port c, ch_protocol = rc_protocol c\<rparr>"

definition app_discover_staged ::
  "(string \<Rightarrow> u32 option) \<Rightarrow> (u32 \<Rightarrow> string) \<Rightarrow> string + network \<Rightarrow>
   (http_channel list \<Rightarrow> (http_channel \<times> nat) list) \<Rightarrow> (u32 list \<Rightarrow> (u32 \<times> nat) list) \<Rightarrow> (discovered_device \<times> nat) list \<Rightarrow>
   app_channel list \<Rightarrow> string list \<Rightarrow> u16 \<Rightarrow> protocol_type \<Rightarrow> discovery_state \<Rightarrow> (string + unit) \<times> discovery_state" where
  "app_discover_staged parse_v4 show_v4 client completion order others cs ips p prot st =
     (case parse_all parse_v4 ips of
        Inl e \<Rightarrow> (Inl e, st)
      | Inr as \<Rightarrow> discover_staged show_v4 client completion order others (map to_http_channel cs) as p prot st)"

definition app_scan_subnet ::
  "(string \<Rightarrow> u32 option) \<Rightarrow> (u32 \<Rightarrow> string) \<Rightarrow> string + network \<Rightarrow> (u32 list \<Rightarrow> (u32 \<times> nat) list) \<Rightarrow>
   string \<Rightarrow> u16 \<Rightarrow> protocol_type \<Rightarrow> discovery_state \<Rightarrow> (string + unit) \<times> discovery_state" where
  "app_scan_subnet parse_v4 show_v4 client completion x p prot st =
     (case parse_v4 x of
        None \<Rightarrow> (Inl (''Invalid interface address: '' @ x), st)
      | Some a \<Rightarrow>
          if a \<in> scanning st then (Inr (), st)
          else (case client of
                  Inl e \<Rightarrow> (Inl e, st)
                | Inr net \<Rightarrow> (Inr (), snd (scan_subnet show_v4 net a p prot completion st))))"

text \<open>A device the application feeds back: its fields without the channel, and where it was confirmed.\<close>

definition app_add_device :: "discovery_state \<Rightarrow> stored_device \<Rightarrow> app_channel \<Rightarrow> nat \<Rightarrow> discovery_state" where
  "app_add_device st d c now =
     snd (add_device st \<lparr>d_alias = sd_alias d, d_version = sd_version d, d_device_model = sd_device_model d,
            d_device_type = sd_device_type d, d_fingerprint = sd_fingerprint d,
            d_channel = Http_Channel (to_http_channel c), d_download = sd_download d\<rparr> now)"

section \<open>What the application sees\<close>

fun confirmed :: "heard_event \<Rightarrow> discovered_device option" where
  "confirmed (Heard (Discovered d) s open) = Some d"
| "confirmed (Heard (Updated d) s open) = Some d"
| "confirmed _ = None"

text \<open>The store is what confirmations made of it, the one that is reported among them, and Dart listens.\<close>

definition genuine :: "heard_event \<Rightarrow> bool" where
  "genuine ev \<longleftrightarrow>
     (case (ev, confirmed ev) of
        (Heard _ s open, Some d) \<Rightarrow>
          open \<and> (\<exists>ups. s = fold (\<lambda>d s. upsert_into s d) ups [] \<and> d \<in> fst ` set ups)
      | _ \<Rightarrow> True)"

definition listed_ok :: "(string \<Rightarrow> bool) \<Rightarrow> store \<Rightarrow> stored_device \<Rightarrow> bool" where
  "listed_ok is_v6 s x \<longleftrightarrow>
     (\<exists>k. by_fingerprint s (sd_fingerprint x) = Some k \<and> x = rs_stored_device is_v6 k \<and>
        sd_channels x \<noteq> [] \<and> get_best_channel is_v6 k \<noteq> None \<and>
        hd (sd_channels x) = app_channel_of (the (get_best_channel is_v6 k)) \<and>
        distinct (map rc_host (sd_channels x)))"

lemma ranked_hosts: "mset (map channel_host (get_ranked_channels is_v6 k)) = mset (map (channel_host \<circ> fst) (channels k))"
  using ranked_perm [of is_v6 k] by (metis map_map mset_map)

lemma stored_listed_ok:
  assumes "store_ok s" "by_fingerprint s fp = Some k"
  shows "sd_fingerprint (rs_stored_device is_v6 k) = fp \<and> listed_ok is_v6 s (rs_stored_device is_v6 k)"
proof -
  have k: "k \<in> set s" "d_fingerprint (device k) = fp" using by_fingerprint_Some [OF assms(2)] by blast+
  then have ok: "device_ok k" using assms(1) by (auto simp: store_ok_def list_all_iff)
  then have "get_ranked_channels is_v6 k \<noteq> []"
    using ranked_perm [of is_v6 k] by (auto simp: device_ok_def)
  moreover have "distinct (map channel_host (get_ranked_channels is_v6 k))"
    using ok ranked_hosts [of is_v6 k] by (metis device_ok_def mset_eq_imp_distinct_iff)
  moreover have "rc_host \<circ> app_channel_of = channel_host" by (rule ext, case_tac x) simp
  ultimately show ?thesis
    using assms(2) k(2)
    by (auto simp: listed_ok_def rs_stored_device_def get_best_channel_def Let_def hd_map split: list.split)
qed

lemma genuine_store:
  assumes "fp = d_fingerprint d" "s = fold (\<lambda>d s. upsert_into s d) ups []" "d \<in> fst ` set ups"
  shows "\<exists>k. by_fingerprint s fp = Some k \<and> store_ok s"
proof -
  have "dom (by_fingerprint s) = dom (by_fingerprint []) \<union> (\<lambda>d. d_fingerprint (fst d)) ` set ups"
    using device_store.dom_ups_list [of ups "[]"] assms(2) by (simp only: Un_commute)
  then have "fp \<in> dom (by_fingerprint s)" using assms(1,3) by auto
  moreover have "store_ok s" using upserts_ok [of "[]" ups] assms(2) by (simp add: store_ok_def)
  ultimately show ?thesis by blast
qed


definition heard_sample :: "heard_event list" where
  "heard_sample =
     [Heard (Discovered (device sample_device)) (fold (\<lambda>d s. upsert_into s d) [(device sample_device, 1)] []) True,
      Heard MulticastFailed [] True]"


text \<open>
  The logs the application is shown are those of the store: at most a hundred, the last one for the
  confirmation that was merged last, and none for an unknown fingerprint.
\<close>

lemma device_logs_bounded:
  assumes "store_ok s"
  shows "length (device_logs s fp) \<le> MAX_LOGS"
    and "by_fingerprint s fp = Some k \<Longrightarrow>
      rl_channel (last (device_logs s fp)) = app_channel_of (d_channel (device k))"
proof -
  have ok: "device_ok k" if "by_fingerprint s fp = Some k" for k
    using by_fingerprint_Some [OF that] assms by (auto simp: store_ok_def list_all_iff)
  show "length (device_logs s fp) \<le> MAX_LOGS"
    using ok by (auto simp: device_logs_def device_ok_def split: option.split)
  assume "by_fingerprint s fp = Some k"
  then show "rl_channel (last (device_logs s fp)) = app_channel_of (d_channel (device k))"
    using ok by (simp add: device_logs_def device_ok_def last_map rs_device_log_def)
qed

text \<open>An address that cannot be parsed stops a call before anything is asked of the network.\<close>

lemma bad_address_changes_nothing:
  assumes "x \<in> set ips" "parse_v4 x = None"
  shows "\<exists>e. app_discover_staged parse_v4 show_v4 client completion order others cs ips p prot st = (Inl e, st)"
proof -
  have "\<exists>e. parse_all parse_v4 ips = Inl e"
    using assms by (induction ips) (auto split: option.split sum.split)
  then show ?thesis by (auto simp: app_discover_staged_def)
qed

end
