(* ===== verification/File_Content.thy ===== *)
theory File_Content
  imports Save Client_V2 "HOL-Library.Sublist"
begin

text \<open>
  The content of files on its way: reading a file into a channel (\<open>model/transfer.rs\<close>), hashing it
  (\<open>crypto/hash.rs\<close>) and what the Flutter application adds: the choice of the source, progress that
  is not reported too often, and buffering (\<open>api/http.rs\<close>, \<open>api/crypto.rs\<close>, \<open>api/stream.rs\<close>, \<open>util/bytes.rs\<close>
  of \<open>linko_isolates\<close>). What successive reads of a file return is a list; SHA-256 is an argument.
\<close>

section \<open>Reading\<close>

text \<open>\<open>Read []\<close> is the end of the file.\<close>

datatype read_result = Read bytes | Read_Error string

text \<open>The content of a file: the chunks of a channel, or what opening and reading the file yields.\<close>

datatype file_content =
    Content_Stream "bytes list"
  | Content_File "string + read_result list"

text \<open>With every chunk: whether the receiver still takes it.\<close>

fun read_file_into_sender :: "(nat \<Rightarrow> bool) \<Rightarrow> nat \<Rightarrow> read_result list \<Rightarrow> bytes list" where
  "read_file_into_sender alive i [] = []"
| "read_file_into_sender alive i (Read_Error e # rs) = []"
| "read_file_into_sender alive i (Read d # rs) =
     (if d = [] \<or> \<not> alive i then [] else d # read_file_into_sender alive (Suc i) rs)"

definition into_receiver :: "(nat \<Rightarrow> bool) \<Rightarrow> file_content \<Rightarrow> bytes list" where
  "into_receiver alive c =
     (case c of
        Content_Stream chunks \<Rightarrow> chunks
      | Content_File (Inl e) \<Rightarrow> []
      | Content_File (Inr rs) \<Rightarrow> read_file_into_sender alive 0 rs)"

section \<open>Hashing\<close>

datatype hash_error = Hash_Io string | Hash_Cancelled

text \<open>
  Cancellation is looked at before every read, and while one waits; \<open>cancelled i\<close>: before the \<open>i\<close>-th read
  was done. The hasher is the bytes it was given; the list is what \<open>progress\<close> is called with.
\<close>

fun read_and_hash ::
  "(nat \<Rightarrow> bool) \<Rightarrow> nat \<Rightarrow> u64 \<Rightarrow> bytes \<Rightarrow> read_result list \<Rightarrow> (hash_error + bytes) option \<times> u64 list" where
  "read_and_hash cancelled i hashed acc rs =
     (if cancelled i then (Some (Inl Hash_Cancelled), [])
      else case rs of
             [] \<Rightarrow> (None, [])
           | Read_Error e # _ \<Rightarrow> (Some (Inl (Hash_Io e)), [])
           | Read d # rs \<Rightarrow>
               if d = [] then (Some (Inr acc), [])
               else let hashed = hashed + of_nat (length d)
                    in (case read_and_hash cancelled (Suc i) hashed (acc @ d) rs of (r, ps) \<Rightarrow> (r, hashed # ps)))"

declare read_and_hash.simps [simp del]

text \<open>A stream ends when it is closed; an empty chunk does not end it.\<close>

fun hash_stream ::
  "(nat \<Rightarrow> bool) \<Rightarrow> nat \<Rightarrow> u64 \<Rightarrow> bytes \<Rightarrow> bytes list \<Rightarrow> (hash_error + bytes) option \<times> u64 list" where
  "hash_stream cancelled i hashed acc [] =
     (Some (if cancelled i then Inl Hash_Cancelled else Inr acc), [])"
| "hash_stream cancelled i hashed acc (chunk # chunks) =
     (if cancelled i then (Some (Inl Hash_Cancelled), [])
      else let hashed = hashed + of_nat (length chunk)
           in (case hash_stream cancelled (Suc i) hashed (acc @ chunk) chunks of (r, ps) \<Rightarrow> (r, hashed # ps)))"

text \<open>The checksum in lower case hexadecimal; \<open>None\<close>: the file is still being read.\<close>

definition sha256_file_content ::
  "(bytes \<Rightarrow> bytes) \<Rightarrow> (nat \<Rightarrow> bool) \<Rightarrow> file_content \<Rightarrow> (hash_error + rstring) option \<times> u64 list" where
  "sha256_file_content sha cancelled c =
     (case (case c of
              Content_Stream chunks \<Rightarrow> hash_stream cancelled 0 0 [] chunks
            | Content_File (Inl e) \<Rightarrow> (Some (Inl (Hash_Io e)), [])
            | Content_File (Inr rs) \<Rightarrow> read_and_hash cancelled 0 0 [] rs) of
        (r, ps) \<Rightarrow>
          (map_option (\<lambda>r. case r of Inl e \<Rightarrow> Inl e | Inr bs \<Rightarrow> Inr (to_hex (sha bs))) r, ps))"

section \<open>The Flutter application\<close>

text \<open>Exactly one source; a descriptor counts on Android only. \<open>read_path\<close>, \<open>read_fd\<close>: what reading them yields.\<close>

datatype http_client_error =
    E_Status_Code status_code "string option"
  | E_Reqwest string
  | E_Json string
  | E_Io string
  | E_Other string

fun rs_error :: "client_error \<Rightarrow> http_client_error" where
  "rs_error (Status_Code e) = E_Status_Code (sce_status e) (sce_message e)"
| "rs_error (Reqwest e) = E_Reqwest e"
| "rs_error (Json e) = E_Json e"
| "rs_error (Io e) = E_Io e"
| "rs_error (Other e) = E_Other e"
| "rs_error Client_Cancelled = E_Other ''Upload cancelled''"

definition resolve_upload_content ::
  "bool \<Rightarrow> (string \<Rightarrow> file_content) \<Rightarrow> (u32 \<Rightarrow> file_content) \<Rightarrow>
   bytes list option \<Rightarrow> string option \<Rightarrow> u32 option \<Rightarrow> http_client_error + file_content" where
  "resolve_upload_content android read_path read_fd binary path fd =
     (case (binary, path, fd) of
        (Some chunks, None, None) \<Rightarrow> Inr (Content_Stream chunks)
      | (None, Some p, None) \<Rightarrow> Inr (read_path p)
      | (None, None, Some n) \<Rightarrow>
          (if android then Inr (read_fd n)
           else Inl (E_Other ''File descriptors are only supported on Android''))
      | _ \<Rightarrow> Inl (E_Other ''Exactly one upload content source must be provided''))"

text \<open>
  Progress that is passed on: the first, those at least 20 ms after the one before, and the final ones.
  Every entry has the time in milliseconds.
\<close>

fun throttle :: "(u64 \<Rightarrow> bool) \<Rightarrow> nat option \<Rightarrow> (nat \<times> u64) list \<Rightarrow> u64 list" where
  "throttle final last_emit [] = []"
| "throttle final last_emit ((now, sent) # ps) =
     (if \<not> final sent \<and> (case last_emit of Some t \<Rightarrow> now - t < 20 | None \<Rightarrow> False)
      then throttle final last_emit ps
      else sent # throttle final (Some now) ps)"

text \<open>An upload ends its stream of events with a failure, if any; \<open>clock i\<close> is the time of the \<open>i\<close>-th chunk.\<close>

datatype upload_event = Up_Progress u64 | Up_Failed http_client_error

definition rs_upload ::
  "(nat \<Rightarrow> nat) \<Rightarrow> u64 \<Rightarrow> http_client_error + u64 list \<Rightarrow> client_error + unit \<Rightarrow> upload_event list" where
  "rs_upload clock content_length progress result =
     (case progress of
        Inl e \<Rightarrow> [Up_Failed e]
      | Inr ps \<Rightarrow>
          map Up_Progress (throttle (\<lambda>sent. content_length \<le> sent) None (map (\<lambda>(i, n). (clock i, n)) (enumerate 0 ps))) @
          (case result of Inl e \<Rightarrow> [Up_Failed (rs_error e)] | Inr _ \<Rightarrow> []))"

text \<open>Chunks collected to messages of at least a megabyte; the rest follows when the input is closed.\<close>

definition BUFFER_SIZE :: nat where
  "BUFFER_SIZE = 1024 * 1024"

fun buffer_receiver :: "bytes \<Rightarrow> bytes list \<Rightarrow> bytes list" where
  "buffer_receiver buffer [] = (if buffer = [] then [] else [buffer])"
| "buffer_receiver buffer (d # ds) =
     (let buffer = buffer @ d
      in if BUFFER_SIZE \<le> length buffer then buffer # buffer_receiver [] ds else buffer_receiver buffer ds)"

text \<open>The sink of Dart: the chunks taken so far, until it is closed.\<close>

record dart_sink =
  dk_open :: bool
  dk_taken :: "bytes list"

definition sink_add :: "bool \<Rightarrow> bytes \<Rightarrow> dart_sink \<Rightarrow> (string + unit) \<times> dart_sink" where
  "sink_add receiving d s =
     (if \<not> dk_open s then (Inl ''Stream already closed'', s)
      else if \<not> receiving then (Inl ''Failed to send data'', s)
      else (Inr (), s\<lparr>dk_taken := dk_taken s @ [d]\<rparr>))"

definition sink_close :: "dart_sink \<Rightarrow> dart_sink" where
  "sink_close s = s\<lparr>dk_open := False\<rparr>"

datatype hash_event = Hash_Progress u64 | Hash_Done rstring | Hash_Failed string

definition hash_text :: "hash_error \<Rightarrow> string" where
  "hash_text e =
     (case e of Hash_Io t \<Rightarrow> ''Failed to read the file: '' @ t | Hash_Cancelled \<Rightarrow> ''Hashing has been cancelled'')"

text \<open>Bytes in memory are hashed at once; otherwise the events so far, while the file is still read.\<close>

definition rs_hash_file ::
  "(bytes \<Rightarrow> bytes) \<Rightarrow> bool \<Rightarrow> (string \<Rightarrow> file_content) \<Rightarrow> (u32 \<Rightarrow> file_content) \<Rightarrow> (nat \<Rightarrow> bool) \<Rightarrow> (nat \<Rightarrow> nat) \<Rightarrow>
   string option \<Rightarrow> u32 option \<Rightarrow> bytes option \<Rightarrow> hash_event list" where
  "rs_hash_file sha android read_path read_fd cancelled clock path fd in_memory =
     (let hashing = (\<lambda>c. case sha256_file_content sha cancelled c of
            (r, ps) \<Rightarrow>
              map Hash_Progress (throttle (\<lambda>_. False) None (map (\<lambda>(i, n). (clock i, n)) (enumerate 0 ps))) @
              (case r of
                 None \<Rightarrow> []
               | Some (Inr h) \<Rightarrow> [Hash_Done h]
               | Some (Inl e) \<Rightarrow> [Hash_Failed (hash_text e)]))
      in case (path, fd, in_memory) of
           (Some p, None, None) \<Rightarrow> hashing (read_path p)
         | (None, Some n, None) \<Rightarrow>
             (if android then hashing (read_fd n)
              else [Hash_Failed ''File descriptors are only supported on Android''])
         | (None, None, Some bs) \<Rightarrow> [Hash_Done (to_hex (sha bs))]
         | _ \<Rightarrow> [Hash_Failed ''Exactly one content source must be provided''])"

section \<open>What is read\<close>

text \<open>The successive reads of a file that holds \<open>data\<close>: non-empty chunks up to its end, or up to an error.\<close>

definition reads_of :: "bytes list \<Rightarrow> string option \<Rightarrow> read_result list" where
  "reads_of chunks err = map Read chunks @ [case err of None \<Rightarrow> Read [] | Some e \<Rightarrow> Read_Error e]"

lemma sender_reads: "[] \<notin> set chunks \<Longrightarrow> read_file_into_sender (\<lambda>_. True) i (reads_of chunks err) = chunks"
  by (induction chunks arbitrary: i) (auto simp: reads_of_def split: option.split)

lemma hash_reads:
  "[] \<notin> set chunks \<Longrightarrow>
   fst (read_and_hash (\<lambda>_. False) i n acc (reads_of chunks err)) =
     Some (case err of None \<Rightarrow> Inr (acc @ concat chunks) | Some e \<Rightarrow> Inl (Hash_Io e))"
proof (induction chunks arbitrary: i n acc)
  case Nil
  then show ?case by (cases err) (simp_all add: reads_of_def read_and_hash.simps)
next
  case (Cons c cs)
  have "reads_of (c # cs) err = Read c # reads_of cs err" by (simp add: reads_of_def)
  then have "fst (read_and_hash (\<lambda>_. False) i n acc (reads_of (c # cs) err)) =
      fst (read_and_hash (\<lambda>_. False) (Suc i) (n + of_nat (length c)) (acc @ c) (reads_of cs err))"
    using Cons.prems by (auto simp: read_and_hash.simps [of _ _ _ _ "Read c # _"] Let_def case_prod_beta)
  then show ?case using Cons.IH Cons.prems by (cases err) simp_all
qed

lemma body_of_chunks: "body_bytes (map Data_Frame chunks) = concat chunks" "body_complete (map Data_Frame chunks)"
  by (induction chunks) (simp_all add: body_complete_def)

text \<open>
  C15. From file to file. A sender hashes a file and uploads what it reads; the receiver checks size and
  checksum and writes to a working file system. The upload is saved exactly when the file was read to its end
  a second time too: an error while reading only closes the stream, but the receiver then refuses the
  truncated body. What is saved is the file, byte for byte.
\<close>

theorem read_file_is_saved:
  assumes "[] \<notin> set hashed" and "concat hashed = data"
    and "fst (sha256_file_content sha (\<lambda>_. False) (Content_File (Inr (reads_of hashed None)))) = Some (Inr checksum)"
    and "[] \<notin> set sent" and "prefix (concat sent) data" and "err = None \<longrightarrow> concat sent = data"
    and "length data = unat fsize" and "working io"
    and "out = save_req_to_target sha
      (map (Data_Frame \<circ> fst) (upload_body 0 (into_receiver (\<lambda>_. True) (Content_File (Inr (reads_of sent err))))))
      None (Path_Target io) fsize (Some checksum) ts"
  shows "(saved out = Success \<longleftrightarrow> concat sent = data) \<and>
    (saved out = Success \<longrightarrow> (\<exists>f. stored out = Some f \<and> content f = data))"
proof -
  let ?frames = "map Data_Frame sent"
  have frames: "map (Data_Frame \<circ> fst) (upload_body 0 (into_receiver (\<lambda>_. True) (Content_File (Inr (reads_of sent err))))) = ?frames"
    using sender_reads [OF assms(4)] upload_body_chunks [of 0 sent] by (simp add: into_receiver_def flip: map_map)
  have sum: "checksum = to_hex (sha data)"
    using assms(3) hash_reads [OF assms(1), of 0 0 "[]" None] assms(2)
    by (auto simp: sha256_file_content_def split: prod.splits)
  have small: "length (concat sent) < 2 ^ 64"
    using assms(5,7) prefix_length_le [of "concat sent" data] unsigned_less [of fsize, where ?'a = nat] by simp
  have "concat sent = data" if "length (concat sent) = length data"
    using assms(5) that by (metis append_eq_conv_conj prefix_def take_all_iff order_refl)
  then have saved: "saved out = Success \<longleftrightarrow> concat sent = data"
    using upload_saved_iff_faithful [OF assms(8), of ?frames sha fsize "Some checksum" ts] small sum assms(7) body_of_chunks [of sent]
    unfolding assms(9) frames by (auto simp: checksum_ok_def eq_ignore_ascii_case_def)
  have "\<exists>f. stored out = Some f \<and> content f = data" if "saved out = Success"
  proof -
    obtain chunks where fwd: "forward_body None ?frames = (chunks, False)"
      and rx: "result_rx (Path_Target io) fsize chunks ts = Some (Inr ())"
      using \<open>saved out = Success\<close> unfolding assms(9) frames save_success_iff by blast
    have c: "concat chunks = data" using forward_ok [OF fwd] body_of_chunks [of sent] saved that by simp
    obtain f where w: "write_file_from_receiver (io\<lparr>io_old := []\<rparr>) fsize chunks ts = Inr f"
      using rx result_rx_file [of "Path_Target io" "io\<lparr>io_old := []\<rparr>"] by auto
    have "content f = data" using writer_ok(2) [OF w] c small saved that by simp
    then show ?thesis
      using w fwd unfolding assms(9) frames
      by (simp add: save_req_to_target_def stored_file_def Let_def split: prod.split)
  qed
  then show ?thesis using saved by blast
qed

text \<open>A file that is read in two pieces, and breaks off the second time.\<close>

definition sample_sha :: "bytes \<Rightarrow> bytes" where
  "sample_sha bs = rev bs"

lemma sample_hashed:
  "fst (sha256_file_content sample_sha (\<lambda>_. False) (Content_File (Inr (reads_of [[1, 2], [3]] None)))) =
     Some (Inr (to_hex (sample_sha [1, 2, 3])))"
  using hash_reads [of "[[1, 2], [3]]" 0 0 "[]" None] by (simp add: sha256_file_content_def case_prod_beta)

theorem read_file_is_saved_witness:
  "saved (save_req_to_target sample_sha
      (map (Data_Frame \<circ> fst) (upload_body 0 (into_receiver (\<lambda>_. True)
        (Content_File (Inr (reads_of [[1, 2]] (Some ''disk error'')))))))
      None (Path_Target plain_io) 3 (Some (to_hex (sample_sha [1, 2, 3]))) \<lparr>ts_modified = None, ts_accessed = None\<rparr>)
   \<noteq> Success"
  using read_file_is_saved [of "[[1, 2], [3]]" "[1, 2, 3]" sample_sha "to_hex (sample_sha [1, 2, 3])" "[[1, 2]]"
      "Some ''disk error''" 3 plain_io _ "\<lparr>ts_modified = None, ts_accessed = None\<rparr>", OF _ _ sample_hashed _ _ _ _ _ refl]
  by (simp add: working_def plain_io_def)

section \<open>Buffering and progress\<close>

text \<open>Buffering loses nothing, and every message but the last has at least a megabyte.\<close>

lemma buffer_concat: "concat (buffer_receiver buffer ds) = buffer @ concat ds"
  by (induction buffer ds rule: buffer_receiver.induct) (simp_all add: Let_def)

lemma buffer_full:
  "length buffer < BUFFER_SIZE \<Longrightarrow> m \<in> set (butlast (buffer_receiver buffer ds)) \<Longrightarrow> BUFFER_SIZE \<le> length m"
proof (induction buffer ds rule: buffer_receiver.induct)
  case (2 buffer d ds)
  have "length ([] :: bytes) < BUFFER_SIZE" by (simp add: BUFFER_SIZE_def)
  then show ?case
    using 2 by (auto simp: Let_def not_le split: if_splits)
qed (simp split: if_splits)

lemma buffer_nonempty: "m \<in> set (buffer_receiver buffer ds) \<Longrightarrow> m \<noteq> []"
  by (induction buffer ds rule: buffer_receiver.induct) (auto simp: Let_def BUFFER_SIZE_def split: if_splits)

text \<open>Nothing is made up, and the final progress is always passed on.\<close>

lemma throttle_subset: "set (throttle final t ps) \<subseteq> snd ` set ps"
  by (induction final t ps rule: throttle.induct) auto

lemma throttle_final:
  "final n \<Longrightarrow> throttle final t (ps @ [(now, n)]) = throttle final t ps @ [n]"
  by (induction final t ps rule: throttle.induct) (auto split: option.split)

text \<open>A complete upload reports its whole length as its last progress.\<close>

lemma upload_reports_all:
  assumes "chunks \<noteq> []" "unat content_length = length (concat chunks)" "length (concat chunks) < 2 ^ 64"
  shows "last (rs_upload clock content_length (Inr (map snd (upload_body 0 chunks))) (Inr ())) = Up_Progress content_length"
proof -
  let ?ps = "map snd (upload_body 0 chunks)"
  have ne: "?ps \<noteq> []" using assms(1) by (cases chunks) simp_all
  have "content_length = of_nat (length (concat chunks))" by (simp flip: assms(2))
  then have last: "last ?ps = content_length"
    using upload_body_total [OF assms(1), of 0] ne by (simp add: last_map)
  obtain qs where qs: "?ps = qs @ [content_length]" using ne last by (metis append_butlast_last_id)
  show ?thesis by (simp add: rs_upload_def qs enumerate_append_eq throttle_final)
qed

text \<open>A closed sink takes nothing more.\<close>

lemma sink_closed: "snd (sink_add receiving d (sink_close s)) = sink_close s \<and> is_ok (fst (sink_add receiving d (sink_close s))) = False"
  by (simp add: sink_add_def sink_close_def)

end
