(* ===== verification/App_Rtc.thy ===== *)
theory App_Rtc
  imports App_Bridge File_Content Token Signaling
begin

text \<open>
  A WebRTC transfer as the Flutter application holds it (\<open>linko_isolates/rust/src/api/webrtc.rs\<close>): a controller
  with a place for every channel end that can be used once, calls that take them, and a task that puts the
  latest request for a PIN into its place. A oneshot sender is a number, as in \<open>App_Bridge\<close>; with every
  answer comes whether its other end still waits.
\<close>

section \<open>Connecting\<close>

text \<open>\<open>ProposingClientInfo\<close> is signed with a token over the time; the key was parsed from PEM before.\<close>

record proposing_info =
  pi_alias :: string
  pi_version :: string
  pi_device_model :: "string option"
  pi_device_type :: "device_type option"

definition sign_info ::
  "token_crypto \<Rightarrow> bytes option \<Rightarrow> (bytes \<Rightarrow> bytes) \<Rightarrow> u64 \<Rightarrow> proposing_info \<Rightarrow> string + ws_info" where
  "sign_info tc der sign now i =
     (case generate_token_timestamp tc der sign now of
        Inl e \<Rightarrow> Inl e
      | Inr token \<Rightarrow>
          Inr \<lparr>i_alias = pi_alias i, i_version = pi_version i, i_device_model = pi_device_model i,
               i_device_type = pi_device_type i, i_token = token\<rparr>)"

text \<open>
  What the stream of Dart gets: the messages of the connection once there is one, or one error.
  \<open>key\<close> is the parsed key: its DER encoding and signing; \<open>dial\<close> is the connection that is made with the info.
\<close>

definition app_connect ::
  "token_crypto \<Rightarrow> (bytes option \<times> (bytes \<Rightarrow> bytes)) option \<Rightarrow> u64 \<Rightarrow> (ws_info \<Rightarrow> string + ws_server_message list) \<Rightarrow>
   proposing_info \<Rightarrow> string + ws_server_message list" where
  "app_connect tc key now dial i =
     (case key of
        None \<Rightarrow> Inl ''Invalid private key''
      | Some (der, sign) \<Rightarrow>
          (case sign_info tc der sign now i of
             Inl _ \<Rightarrow> Inl ''Invalid client info''
           | Inr info \<Rightarrow> dial info))"

section \<open>Controllers\<close>

text \<open>Both controllers: a place is empty once its channel end was taken.\<close>

record rtc_controller =
  co_status :: bool
  co_file_list :: bool
  co_decision :: bool
  co_error :: bool
  co_receiving :: bool
  co_pin :: "responder option"

definition new_controller :: rtc_controller where
  "new_controller = \<lparr>co_status = True, co_file_list = True, co_decision = True, co_error = True,
     co_receiving = True, co_pin = None\<rparr>"

text \<open>
  What happens to a controller: the core asks for a PIN, or the application calls. \<open>alive\<close>: the core still
  waits at the other end.
\<close>

datatype rtc_call =
    Core_Wants_Pin responder
  | Listen_Status
  | Listen_Files
  | Listen_Error
  | Listen_Receiving
  | Send_Pin string bool
  | Send_Selection "string list" bool
  | Send_Decline bool

datatype rtc_effect =
    Pin_Sent responder string
  | Pin_Dropped responder
  | Decided "string list option"
  | Decision_Lost

text \<open>A taken place is an error of the call, and nothing else happens.\<close>

fun rtc_apply :: "rtc_call \<Rightarrow> rtc_controller \<Rightarrow> (string + unit) \<times> rtc_controller \<times> rtc_effect list" where
  "rtc_apply (Core_Wants_Pin tx) c =
     (Inr (), c\<lparr>co_pin := Some tx\<rparr>, (case co_pin c of Some old \<Rightarrow> [Pin_Dropped old] | None \<Rightarrow> []))"
| "rtc_apply Listen_Status c =
     (if co_status c then (Inr (), c\<lparr>co_status := False\<rparr>, []) else (Inl ''Status stream already listened to'', c, []))"
| "rtc_apply Listen_Files c =
     (if co_file_list c then (Inr (), c\<lparr>co_file_list := False\<rparr>, []) else (Inl ''Files already received'', c, []))"
| "rtc_apply Listen_Error c =
     (if co_error c then (Inr (), c\<lparr>co_error := False\<rparr>, []) else (Inl ''Error stream already listened to'', c, []))"
| "rtc_apply Listen_Receiving c =
     (if co_receiving c then (Inr (), c\<lparr>co_receiving := False\<rparr>, [])
      else (Inl ''Receiving stream already listened to'', c, []))"
| "rtc_apply (Send_Pin pin alive) c =
     (case co_pin c of
        None \<Rightarrow> (Inl ''Pin already sent'', c, [])
      | Some tx \<Rightarrow>
          if alive then (Inr (), c\<lparr>co_pin := None\<rparr>, [Pin_Sent tx pin])
          else (Inl ''Pin channel closed'', c\<lparr>co_pin := None\<rparr>, [Pin_Dropped tx]))"
| "rtc_apply (Send_Selection sel alive) c =
     (if \<not> co_decision c then (Inl ''Selected files already sent'', c, [])
      else if alive then (Inr (), c\<lparr>co_decision := False\<rparr>, [Decided (Some sel)])
      else (Inl ''Selected files channel closed'', c\<lparr>co_decision := False\<rparr>, [Decision_Lost]))"
| "rtc_apply (Send_Decline alive) c =
     (if \<not> co_decision c then (Inl ''Selected files already sent'', c, [])
      else if alive then (Inr (), c\<lparr>co_decision := False\<rparr>, [Decided None])
      else (Inl ''Selected files channel closed'', c\<lparr>co_decision := False\<rparr>, [Decision_Lost]))"

fun rtc_calls :: "rtc_call list \<Rightarrow> rtc_controller \<Rightarrow> rtc_controller \<times> rtc_effect list" where
  "rtc_calls [] c = (c, [])"
| "rtc_calls (k # ks) c =
     (case rtc_apply k c of (_, c, out) \<Rightarrow> (case rtc_calls ks c of (c, later) \<Rightarrow> (c, out @ later)))"

text \<open>Receiving one file: its chunks can be taken once, buffered on their way to Dart.\<close>

definition receive_file :: "bool \<Rightarrow> bytes list \<Rightarrow> (string + bytes list) \<times> bool" where
  "receive_file there chunks =
     (if there then (Inr (buffer_receiver [] chunks), False) else (Inl ''File receiver listened to'', False))"

text \<open>The file list of the receiver and the selection of the sender: awaited once, and lost with the transfer.\<close>

definition await_once :: "string \<Rightarrow> string \<Rightarrow> bool \<Rightarrow> 'a option \<Rightarrow> (string + 'a) \<times> bool" where
  "await_once taken closed there value =
     (if \<not> there then (Inl taken, False)
      else (case value of Some x \<Rightarrow> Inr x | None \<Rightarrow> Inl closed, False))"

definition listen_selected_files :: "bool \<Rightarrow> string list option \<Rightarrow> (string + string list) \<times> bool" where
  "listen_selected_files = await_once ''Selected files already received'' ''Selected files channel closed''"

definition listen_files :: "bool \<Rightarrow> file_dto list option \<Rightarrow> (string + file_dto list) \<times> bool" where
  "listen_files = await_once ''Files already received'' ''Files channel closed''"

section \<open>Everything is answered once\<close>

definition pins_asked :: "rtc_call list \<Rightarrow> responder list" where
  "pins_asked ks = List.map_filter (\<lambda>k. case k of Core_Wants_Pin tx \<Rightarrow> Some tx | _ \<Rightarrow> None) ks"

definition pins_settled :: "rtc_effect list \<Rightarrow> responder list" where
  "pins_settled es =
     List.map_filter (\<lambda>e. case e of Pin_Sent tx _ \<Rightarrow> Some tx | Pin_Dropped tx \<Rightarrow> Some tx | _ \<Rightarrow> None) es"

definition decided :: "rtc_effect list \<Rightarrow> string list option list" where
  "decided es = List.map_filter (\<lambda>e. case e of Decided d \<Rightarrow> Some d | _ \<Rightarrow> None) es"

definition wishes :: "rtc_call list \<Rightarrow> (string list option \<times> bool) list" where
  "wishes ks =
     List.map_filter
       (\<lambda>k. case k of Send_Selection sel alive \<Rightarrow> Some (Some sel, alive) | Send_Decline alive \<Rightarrow> Some (None, alive)
            | _ \<Rightarrow> None) ks"

lemma rtc_trace_simps [simp]:
  "pins_settled [] = []" "decided [] = []" "pins_asked [] = []" "wishes [] = []"
  "pins_settled (xs @ ys) = pins_settled xs @ pins_settled ys" "decided (xs @ ys) = decided xs @ decided ys"
  "pins_settled (Pin_Sent tx p # xs) = tx # pins_settled xs" "pins_settled (Pin_Dropped tx # xs) = tx # pins_settled xs"
  "pins_settled (Decided d # xs) = pins_settled xs" "pins_settled (Decision_Lost # xs) = pins_settled xs"
  "decided (Pin_Sent tx p # xs) = decided xs" "decided (Pin_Dropped tx # xs) = decided xs"
  "decided (Decided d # xs) = d # decided xs" "decided (Decision_Lost # xs) = decided xs"
  by (simp_all add: pins_settled_def decided_def pins_asked_def wishes_def List.map_filter_def)

lemma rtc_call_pins:
  assumes "rtc_apply k c = (r, c', out)"
  shows "mset (pins_asked [k]) + mset (case co_pin c of Some tx \<Rightarrow> [tx] | None \<Rightarrow> []) =
    mset (pins_settled out) + mset (case co_pin c' of Some tx \<Rightarrow> [tx] | None \<Rightarrow> [])"
  using assms
  by (cases k) (auto simp: pins_asked_def List.map_filter_def split: option.splits if_splits)

lemma pins_asked_Cons: "pins_asked (k # ks) = pins_asked [k] @ pins_asked ks"
  by (simp add: pins_asked_def List.map_filter_def)

lemma rtc_calls_pins:
  "mset (pins_asked ks) + mset (case co_pin c of Some tx \<Rightarrow> [tx] | None \<Rightarrow> []) =
   mset (pins_settled (snd (rtc_calls ks c))) + mset (case co_pin (fst (rtc_calls ks c)) of Some tx \<Rightarrow> [tx] | None \<Rightarrow> [])"
proof (induction ks arbitrary: c)
  case (Cons k ks)
  obtain r c' out where k: "rtc_apply k c = (r, c', out)" by (metis prod_cases3)
  have run: "rtc_calls (k # ks) c = (fst (rtc_calls ks c'), out @ snd (rtc_calls ks c'))"
    by (simp add: k split: prod.split)
  have "mset (pins_asked (k # ks)) = mset (pins_asked [k]) + mset (pins_asked ks)"
    unfolding pins_asked_Cons [of k ks] by simp
  then show ?case
    using Cons.IH [of c'] rtc_call_pins [OF k] unfolding run by (simp add: ac_simps)
qed simp

lemma wishes_Cons: "wishes (k # ks) = wishes [k] @ wishes ks"
  by (simp add: wishes_def List.map_filter_def)

lemma wishes_one: "wishes [k] = [] \<or> (\<exists>d b. wishes [k] = [(d, b)])"
  by (cases k) (simp_all add: wishes_def List.map_filter_def)

lemma rtc_call_decided:
  assumes "rtc_apply k c = (r, c', out)"
  shows "decided out = (if co_decision c then (case wishes [k] of (d, True) # _ \<Rightarrow> [d] | _ \<Rightarrow> []) else [])"
    and "co_decision c' \<longleftrightarrow> co_decision c \<and> wishes [k] = []"
  using assms
  by (cases k; auto simp: wishes_def List.map_filter_def split: option.splits if_splits)+

lemma rtc_calls_decided:
  "decided (snd (rtc_calls ks c)) =
     (if co_decision c then (case wishes ks of (d, True) # _ \<Rightarrow> [d] | _ \<Rightarrow> []) else [])"
proof (induction ks arbitrary: c)
  case (Cons k ks)
  obtain r c' out where k: "rtc_apply k c = (r, c', out)" by (metis prod_cases3)
  have run: "rtc_calls (k # ks) c = (fst (rtc_calls ks c'), out @ snd (rtc_calls ks c'))"
    by (simp add: k split: prod.split)
  from wishes_one [of k] show ?case
  proof (elim disjE exE)
    assume "wishes [k] = []"
    then show ?thesis using Cons.IH [of c'] rtc_call_decided [OF k] unfolding run wishes_Cons [of k ks] by simp
  next
    fix d b
    assume "wishes [k] = [(d, b)]"
    then show ?thesis using Cons.IH [of c'] rtc_call_decided [OF k] unfolding run wishes_Cons [of k ks]
      by (cases b) simp_all
  qed
qed simp


definition sample_calls :: "rtc_call list" where
  "sample_calls = [Send_Pin ''1'' True, Core_Wants_Pin 7, Listen_Files, Send_Pin ''2'' True, Core_Wants_Pin 8,
     Send_Selection [''f1''] True, Send_Decline True]"


text \<open>
  The status \<open>PinRequired\<close> is sent before the channel for the PIN: a PIN that arrives in between is refused as
  already sent, and the request that follows waits without one.
\<close>

lemma early_pin_refused:
  "rtc_apply (Send_Pin pin alive) new_controller = (Inl ''Pin already sent'', new_controller, []) \<and>
   co_pin (fst (rtc_calls [Send_Pin pin alive, Core_Wants_Pin tx] new_controller)) = Some tx"
  by (simp add: new_controller_def)

text \<open>What Dart receives of a file is what was sent, in messages none of which is empty.\<close>

lemma receive_file_exact:
  "receive_file True chunks = (Inr msgs, there) \<Longrightarrow> concat msgs = concat chunks \<and> [] \<notin> set msgs \<and> \<not> there"
  using buffer_concat [of "[]" chunks] buffer_nonempty [of "[]" "[]" chunks] by (auto simp: receive_file_def)

text \<open>The info that is sent carries a token that the signing key made for this moment.\<close>

lemma signed_info_token:
  "sign_info tc der sign now i = Inr info \<Longrightarrow> generate_token_timestamp tc der sign now = Inr (i_token info) \<and> i_alias info = pi_alias i"
  by (auto simp: sign_info_def split: sum.splits)

end
