(* ===== verification/Certificates.thy ===== *)
theory Certificates
  imports Client_V2
begin

text \<open>
  The certificates of peers during the TLS handshake: what a client accepts of a server
  (\<open>http/client/server_cert_verifier.rs\<close>), what a server accepts of a client
  (\<open>http/server/common/client_cert_verifier.rs\<close>) and the check both share (\<open>crypto/cert.rs\<close>). X.509, PEM and
  the signatures of the handshake itself are libraries: what their parsers yield is an argument.
\<close>

section \<open>Checking a certificate\<close>

text \<open>
  A parsed certificate: valid at this moment, its subject key, and whether its signature verifies with that
  key (\<open>verify_signature(None)\<close>).
\<close>

record 'k x509 =
  x_valid :: bool
  x_key :: "string + 'k"
  x_signature :: "string + unit"

record 'k x509_ops =
  x_parse :: "bytes \<Rightarrow> string + 'k x509"
  x_read_pem :: "string \<Rightarrow> string + bytes"
  x_parse_key :: "bytes \<Rightarrow> string + 'k"

definition verify_cert_from_cert :: "'k x509_ops \<Rightarrow> 'k x509 \<Rightarrow> string option \<Rightarrow> string + unit" where
  "verify_cert_from_cert ops c public_key =
     (if \<not> x_valid c then Inl ''Time validity error''
      else case public_key of
             None \<Rightarrow> x_signature c
           | Some pem \<Rightarrow>
               (case x_key c of
                  Inl e \<Rightarrow> Inl e
                | Inr cert_key \<Rightarrow>
                    (case x_read_pem ops pem of
                       Inl e \<Rightarrow> Inl e
                     | Inr contents \<Rightarrow>
                         (case x_parse_key ops contents of
                            Inl e \<Rightarrow> Inl e
                          | Inr expected_key \<Rightarrow>
                              if cert_key \<noteq> expected_key then Inl ''Public key mismatch'' else x_signature c))))"

definition verify_cert_from_der :: "'k x509_ops \<Rightarrow> bytes \<Rightarrow> string option \<Rightarrow> string + unit" where
  "verify_cert_from_der ops der public_key =
     (case x_parse ops der of Inl e \<Rightarrow> Inl e | Inr c \<Rightarrow> verify_cert_from_cert ops c public_key)"

definition verify_cert_from_pem :: "'k x509_ops \<Rightarrow> string \<Rightarrow> string option \<Rightarrow> string + unit" where
  "verify_cert_from_pem ops pem public_key =
     (case x_read_pem ops pem of Inl e \<Rightarrow> Inl e | Inr der \<Rightarrow> verify_cert_from_der ops der public_key)"

section \<open>The verifiers\<close>

record pinned_verifier =
  expected_print :: "rstring option"

text \<open>\<open>own\<close>: whether the own certificate could be used as the one root of the inner verifier.\<close>

definition new_server_verifier :: "string + unit \<Rightarrow> rstring option \<Rightarrow> string + pinned_verifier" where
  "new_server_verifier own expected =
     (case own of
        Inl e \<Rightarrow> Inl e
      | Inr _ \<Rightarrow> Inr \<lparr>expected_print = map_option (map to_ascii_uppercase) expected\<rparr>)"

datatype rejection =
    Not_Valid string
  | Fingerprint_Mismatch rstring rstring
  | Application_Failure

definition verify_server_cert ::
  "'k x509_ops \<Rightarrow> (bytes \<Rightarrow> bytes) \<Rightarrow> pinned_verifier \<Rightarrow> bytes \<Rightarrow> rejection + unit" where
  "verify_server_cert ops sha v der =
     (case verify_cert_from_der ops der None of
        Inl e \<Rightarrow> Inl (Not_Valid e)
      | Inr _ \<Rightarrow>
          (case expected_print v of
             None \<Rightarrow> Inr ()
           | Some expected \<Rightarrow>
               (let actual = fingerprint_from_cert_der sha der
                in if actual \<noteq> expected then Inl (Fingerprint_Mismatch expected actual) else Inr ())))"

record client_verifier =
  mandatory :: bool

definition verify_client_cert :: "'k x509_ops \<Rightarrow> bytes \<Rightarrow> rejection + unit" where
  "verify_client_cert ops der =
     (case verify_cert_from_der ops der None of Inl _ \<Rightarrow> Inl Application_Failure | Inr _ \<Rightarrow> Inr ())"

text \<open>
  What the server knows of its client after the handshake: a certificate is always asked for, a client
  without one is only let in when it is not mandatory.
\<close>

definition client_handshake :: "'k x509_ops \<Rightarrow> client_verifier \<Rightarrow> bytes option \<Rightarrow> rejection + bytes option" where
  "client_handshake ops v presented =
     (case presented of
        None \<Rightarrow> if mandatory v then Inl Application_Failure else Inr None
      | Some der \<Rightarrow> (case verify_client_cert ops der of Inl e \<Rightarrow> Inl e | Inr _ \<Rightarrow> Inr (Some der)))"

section \<open>What is accepted\<close>

definition genuine_cert :: "'k x509_ops \<Rightarrow> bytes \<Rightarrow> bool" where
  "genuine_cert ops der \<longleftrightarrow>
     (case x_parse ops der of Inl _ \<Rightarrow> False | Inr c \<Rightarrow> x_valid c \<and> is_ok (x_signature c))"

lemma verify_der_genuine: "is_ok (verify_cert_from_der ops der None) \<longleftrightarrow> genuine_cert ops der"
  by (auto simp: verify_cert_from_der_def verify_cert_from_cert_def genuine_cert_def split: sum.split)

lemma upper_lower [simp]:
  "to_ascii_uppercase (to_ascii_lowercase c) = to_ascii_uppercase c"
  "to_ascii_lowercase (to_ascii_uppercase c) = to_ascii_lowercase c"
  unfolding to_ascii_uppercase_def to_ascii_lowercase_def by (cases "c \<le> 90"; simp; linarith)+

lemma upper_eq_iff: "map to_ascii_uppercase s = map to_ascii_uppercase t \<longleftrightarrow> eq_ignore_ascii_case s t"
proof
  assume "map to_ascii_uppercase s = map to_ascii_uppercase t"
  then have "map to_ascii_lowercase (map to_ascii_uppercase s) = map to_ascii_lowercase (map to_ascii_uppercase t)" by simp
  then show "eq_ignore_ascii_case s t" by (simp add: eq_ignore_ascii_case_def comp_def)
next
  assume "eq_ignore_ascii_case s t"
  then have "map to_ascii_uppercase (map to_ascii_lowercase s) = map to_ascii_uppercase (map to_ascii_lowercase t)"
    by (simp add: eq_ignore_ascii_case_def)
  then show "map to_ascii_uppercase s = map to_ascii_uppercase t" by (simp add: comp_def)
qed

lemma upper_idem [simp]: "to_ascii_uppercase (to_ascii_uppercase c) = to_ascii_uppercase c"
  unfolding to_ascii_uppercase_def by (simp; linarith)

lemma fingerprint_upper: "map to_ascii_uppercase (fingerprint_from_cert_der sha der) = fingerprint_from_cert_der sha der"
  unfolding fingerprint_case [of sha der, symmetric] by (simp add: comp_def)

text \<open>
  C19. What a client dials with a pin accepts exactly the peer it means: the handshake goes through if and only
  if the certificate is valid now, carries a signature of its own key and has the expected fingerprint,
  however that is written; without a pin every valid certificate is accepted. The server accepts of its
  clients every valid certificate, and the fingerprint it then knows a client by is that of the certificate.
\<close>

theorem handshake_accepts_exactly:
  "(case new_server_verifier (Inr ()) expected of
      Inl _ \<Rightarrow> False
    | Inr v \<Rightarrow>
        is_ok (verify_server_cert ops sha v der) \<longleftrightarrow>
          genuine_cert ops der \<and>
          (case expected of None \<Rightarrow> True | Some f \<Rightarrow> eq_ignore_ascii_case (fingerprint_from_cert_der sha der) f)) \<and>
   (client_handshake ops \<lparr>mandatory = m\<rparr> presented = Inr c \<longleftrightarrow>
      c = presented \<and> (case presented of None \<Rightarrow> \<not> m | Some d \<Rightarrow> genuine_cert ops d))"
proof -
  let ?v = "\<lparr>expected_print = map_option (map to_ascii_uppercase) expected\<rparr>"
  have pin: "fingerprint_from_cert_der sha der = map to_ascii_uppercase f \<longleftrightarrow>
      eq_ignore_ascii_case (fingerprint_from_cert_der sha der) f" for f
    using upper_eq_iff [of "fingerprint_from_cert_der sha der" f] fingerprint_upper [of sha der] by simp
  have "is_ok (verify_server_cert ops sha ?v der) \<longleftrightarrow> genuine_cert ops der \<and>
      (case expected of None \<Rightarrow> True | Some f \<Rightarrow> eq_ignore_ascii_case (fingerprint_from_cert_der sha der) f)"
    unfolding verify_der_genuine [symmetric]
    by (cases "verify_cert_from_der ops der None"; cases expected) (simp_all add: verify_server_cert_def pin Let_def)
  moreover have "client_handshake ops \<lparr>mandatory = m\<rparr> presented = Inr c \<longleftrightarrow>
      c = presented \<and> (case presented of None \<Rightarrow> \<not> m | Some d \<Rightarrow> genuine_cert ops d)"
  proof (cases presented)
    case None
    then show ?thesis by (auto simp: client_handshake_def)
  next
    case (Some d)
    then show ?thesis unfolding Some option.case verify_der_genuine [symmetric]
      by (cases "verify_cert_from_der ops d None") (auto simp: client_handshake_def verify_client_cert_def)
  qed
  ultimately show ?thesis by (simp add: new_server_verifier_def)
qed

text \<open>A certificate that is checked against a key carries that key.\<close>

lemma checked_key:
  assumes "verify_cert_from_der ops der (Some pem) = Inr ()"
  shows "genuine_cert ops der \<and>
    (\<exists>c k contents. x_parse ops der = Inr c \<and> x_key c = Inr k \<and> x_read_pem ops pem = Inr contents \<and>
       x_parse_key ops contents = Inr k)"
  using assms
  by (auto simp: verify_cert_from_der_def verify_cert_from_cert_def genuine_cert_def split: sum.splits if_splits)

end
