(* ===== verification/Spec2Isabelle.thy ===== *)
theory Spec2Isabelle
  imports V2_Server Http_Routes Accept_Loop Token Discovery_Store Signaling_Server Rtc_Session End_To_End App_Bridge Interfaces Scoped_Host Multicast
    Cli_Picker Headless_Discovery App_Discovery App_Rtc Certificates
begin

text \<open>
  A verification development of Linko (see the header at the end of the first pass).
\<close>

end
